(* ===== verification/Js_Prelude.thy ===== *)
theory Js_Prelude
  imports Complex_Main "HOL-Library.Word"
begin

text \<open>
  The part of JavaScript that the map client uses, shared by every component theory.
  A JavaScript string is a list of 16-bit code units (\<open>jstring\<close>), so surrogates, string order
  and percent-encoding are those of the language.  A scalar read from JSON or from a data
  attribute is a \<open>jsval\<close>; numbers that are turned into text are integers.  A function that may
  throw returns an \<open>outcome\<close>, which keeps the state reached when the exception was raised,
  because the effects before a \<open>throw\<close> stay.
\<close>

section \<open>Strings\<close>

type_synonym jstring = "16 word list"

definition lit :: "string \<Rightarrow> jstring" where
  "lit s = map of_char s"

lemma lit_Nil [simp]: "lit [] = []"
  by (simp add: lit_def)

lemma lit_Cons: "lit (c # s) = of_char c # lit s"
  by (simp add: lit_def)

lemma lit_append: "lit (s @ t) = lit s @ lit t"
  by (simp add: lit_def)

lemma length_lit [simp]: "length (lit s) = length s"
  by (simp add: lit_def)

lemma unat_of_char: "unat (of_char c :: 16 word) = of_char c"
proof -
  have "(of_char c :: nat) < 65536" using nat_of_char_less_256 [of c] by linarith 
  moreover have "(of_char c :: 16 word) = of_nat (of_char c)" by (simp add: of_nat_of_char)
  ultimately show ?thesis by (simp only: unat_of_nat) (simp add: mod_less)
qed

lemma lit_eq_iff: "lit a = lit b \<longleftrightarrow> a = b"
proof -
  have "inj (\<lambda>c. of_char c :: 16 word)"
    by (rule injI) (metis unat_of_char of_char_eq_iff)
  then show ?thesis by (simp add: lit_def inj_map_eq_map)
qed

lemma set_lit: "set (lit s) = of_char ` set s"
  by (simp add: lit_def)

text \<open>\<open>s.replace(/c/g, r)\<close> for a single-character pattern.\<close>

definition replace_all :: "16 word \<Rightarrow> jstring \<Rightarrow> jstring \<Rightarrow> jstring" where
  "replace_all c r s = concat (map (\<lambda>u. if u = c then r else [u]) s)"

lemma replace_all_Nil [simp]: "replace_all c r [] = []"
  by (simp add: replace_all_def)

lemma replace_all_Cons [simp]:
  "replace_all c r (u # s) = (if u = c then r else [u]) @ replace_all c r s"
  by (simp add: replace_all_def)

lemma replace_all_append [simp]:
  "replace_all c r (s @ t) = replace_all c r s @ replace_all c r t"
  by (simp add: replace_all_def)

lemma replace_all_id: "c \<notin> set s \<Longrightarrow> replace_all c r s = s"
  by (induction s) auto

text \<open>
  \<open>trim\<close> removes the code units of WhiteSpace and LineTerminator at both ends.
\<close>

definition js_space :: "16 word \<Rightarrow> bool" where
  "js_space u \<longleftrightarrow>
     u \<in> {9, 10, 11, 12, 13, 32, 160, 5760, 8232, 8233, 8239, 8287, 12288, 65279}
     \<or> 8192 \<le> u \<and> u \<le> 8202"

definition trim_start :: "jstring \<Rightarrow> jstring" where
  "trim_start s = dropWhile js_space s"

definition js_trim :: "jstring \<Rightarrow> jstring" where
  "js_trim s = rev (dropWhile js_space (rev (trim_start s)))"

lemma set_dropWhile_subset: "set (dropWhile P xs) \<subseteq> set xs"
  by (induction xs) auto

lemma set_js_trim: "set (js_trim s) \<subseteq> set s"
  unfolding js_trim_def trim_start_def
  using set_dropWhile_subset [of js_space "rev (dropWhile js_space s)"]
    set_dropWhile_subset [of js_space s]
  by auto

lemma dropWhile_keeps:
  "x \<in> set xs \<Longrightarrow> \<not> P x \<Longrightarrow> x \<in> set (dropWhile P xs)"
  by (induction xs) auto

lemma js_trim_keeps: "u \<in> set s \<Longrightarrow> \<not> js_space u \<Longrightarrow> u \<in> set (js_trim s)"
  by (simp add: js_trim_def trim_start_def dropWhile_keeps)

text \<open>\<open>arr.join(sep)\<close>.\<close>

fun js_join :: "jstring \<Rightarrow> jstring list \<Rightarrow> jstring" where
  "js_join sep [] = []"
| "js_join sep [x] = x"
| "js_join sep (x # y # ys) = x @ sep @ js_join sep (y # ys)"

text \<open>The relational operator \<open>>\<close> on two strings: lexicographic on code units.\<close>

fun js_str_less :: "jstring \<Rightarrow> jstring \<Rightarrow> bool" where
  "js_str_less s [] = False"
| "js_str_less [] (u # t) = True"
| "js_str_less (a # s) (b # t) = (a < b \<or> a = b \<and> js_str_less s t)"

lemma js_str_less_irrefl [simp]: "\<not> js_str_less s s"
  by (induction s) auto

lemma js_str_less_trans: "js_str_less a b \<Longrightarrow> js_str_less b c \<Longrightarrow> js_str_less a c"
proof (induction a b arbitrary: c rule: js_str_less.induct)
  case (2 u t)
  then show ?case by (cases c) auto
next
  case (3 x s y t)
  then show ?case by (cases c) auto
qed auto

lemma js_str_less_Nil [simp]: "js_str_less [] t \<longleftrightarrow> t \<noteq> []"
  by (cases t) auto

lemma js_str_less_total: "js_str_less a b \<or> a = b \<or> js_str_less b a"
  by (induction a b rule: js_str_less.induct) auto

lemma js_str_less_asym: "js_str_less a b \<Longrightarrow> \<not> js_str_less b a"
  using js_str_less_irrefl js_str_less_trans by blast

section \<open>Decimal numerals\<close>

fun nat_str :: "nat \<Rightarrow> jstring" where
  "nat_str n = (if n < 10 then [48 + of_nat n] else nat_str (n div 10) @ [48 + of_nat (n mod 10)])"

declare nat_str.simps [simp del]

definition int_str :: "int \<Rightarrow> jstring" where
  "int_str i = (if i < 0 then 45 # nat_str (nat (- i)) else nat_str (nat i))"

lemma nat_str_nonempty [simp]: "nat_str n \<noteq> []"
  by (subst nat_str.simps) simp

lemma int_str_nonempty [simp]: "int_str i \<noteq> []"
  by (simp add: int_str_def)

section \<open>Scalars\<close>

datatype jsval = JUndef | JNull | JBool bool | JInt int | JStr jstring

text \<open>\<open>String(v)\<close>, also what a template literal does with \<open>v\<close>.\<close>

fun to_str :: "jsval \<Rightarrow> jstring" where
  "to_str JUndef = lit ''undefined''"
| "to_str JNull = lit ''null''"
| "to_str (JBool b) = (if b then lit ''true'' else lit ''false'')"
| "to_str (JInt i) = int_str i"
| "to_str (JStr s) = s"

fun truthy :: "jsval \<Rightarrow> bool" where
  "truthy JUndef = False"
| "truthy JNull = False"
| "truthy (JBool b) = b"
| "truthy (JInt i) = (i \<noteq> 0)"
| "truthy (JStr s) = (s \<noteq> [])"

lemma to_str_empty: "to_str v = [] \<longleftrightarrow> v = JStr []"
  by (cases v) (auto simp: lit_def)

text \<open>\<open>a || b\<close>, and the loose test \<open>v == null\<close>.\<close>

definition js_or :: "jsval \<Rightarrow> jsval \<Rightarrow> jsval" where
  "js_or a b = (if truthy a then a else b)"

definition nullish :: "jsval \<Rightarrow> bool" where
  "nullish v \<longleftrightarrow> v = JUndef \<or> v = JNull"

lemma nullish_simps [simp]:
  "nullish JUndef" "nullish JNull" "\<not> nullish (JBool b)" "\<not> nullish (JInt i)"
  "\<not> nullish (JStr s)"
  by (simp_all add: nullish_def)

lemma truthy_not_nullish: "truthy v \<Longrightarrow> \<not> nullish v"
  by (cases v) auto

section \<open>Clock and dates\<close>

text \<open>
  The browser's clock and date functions: \<open>now\<close> is \<open>Date.now()\<close>, \<open>date_value v\<close> is
  \<open>new Date(v).getTime()\<close> in milliseconds with \<open>None\<close> for NaN, \<open>date_local t\<close> is the
  \<open>toLocaleString\<close> call on the date of time value \<open>t\<close>.
\<close>

record date_env =
  now :: int
  date_value :: "jsval \<Rightarrow> int option"
  date_local :: "int \<Rightarrow> jstring"

section \<open>Exceptions\<close>

text \<open>
  \<open>Thrown e s\<close>: the code threw \<open>e\<close> when the state was \<open>s\<close>; nothing after it ran.
\<close>

datatype exn = TypeError string | URIError | GenericError string

text \<open>What a \<open>fetch\<close> with \<open>r.ok\<close> and \<open>r.json()\<close> turns into.\<close>

datatype 'a response = HttpOk 'a | HttpError | NetworkError

datatype 's outcome = Done 's | Thrown exn 's

fun and_then :: "'s outcome \<Rightarrow> ('s \<Rightarrow> 's outcome) \<Rightarrow> 's outcome" where
  "and_then (Done s) k = k s"
| "and_then (Thrown e s) k = Thrown e s"

fun state_of :: "'s outcome \<Rightarrow> 's" where
  "state_of (Done s) = s"
| "state_of (Thrown e s) = s"

fun returned :: "'s outcome \<Rightarrow> bool" where
  "returned (Done s) = True"
| "returned (Thrown e s) = False"

text \<open>\<open>xs.forEach(x => f x)\<close>: an exception leaves the loop.\<close>

fun for_each :: "('a \<Rightarrow> 's \<Rightarrow> 's outcome) \<Rightarrow> 'a list \<Rightarrow> 's \<Rightarrow> 's outcome" where
  "for_each f [] s = Done s"
| "for_each f (x # xs) s = and_then (f x s) (for_each f xs)"

lemma returned_iff: "returned r \<longleftrightarrow> r = Done (state_of r)"
  by (cases r) auto

lemma and_then_Done_iff:
  "and_then r k = Done t \<longleftrightarrow> (\<exists>s. r = Done s \<and> k s = Done t)"
  by (cases r) auto

lemma and_then_assoc: "and_then (and_then r f) g = and_then r (\<lambda>s. and_then (f s) g)"
  by (cases r) auto

lemma for_each_append:
  "for_each f (xs @ ys) s = and_then (for_each f xs s) (for_each f ys)"
proof (induction xs arbitrary: s)
  case Nil
  then show ?case by simp
next
  case (Cons x xs)
  then show ?case by (cases "f x s") auto
qed

lemma for_each_Done:
  "(\<And>x s. x \<in> set xs \<Longrightarrow> f x s = Done (g x s)) \<Longrightarrow> for_each f xs s = Done (fold g xs s)"
  by (induction xs arbitrary: s) auto

text \<open>A state predicate kept by every iteration is kept by the loop, thrown or not.\<close>

lemma for_each_inv:
  assumes "P s" and "\<And>x s. x \<in> set xs \<Longrightarrow> P s \<Longrightarrow> P (state_of (f x s))"
  shows "P (state_of (for_each f xs s))"
  using assms
proof (induction xs arbitrary: s)
  case Nil
  then show ?case by simp
next
  case (Cons x xs)
  then have "P (state_of (f x s))" by simp
  with Cons show ?case by (cases "f x s") auto
qed

text \<open>A block of statements, each of which may throw.\<close>

fun run_steps :: "('s \<Rightarrow> 's outcome) list \<Rightarrow> 's \<Rightarrow> 's outcome" where
  "run_steps [] s = Done s"
| "run_steps (f # fs) s = and_then (f s) (run_steps fs)"

lemma run_steps_append: "run_steps (fs @ gs) s = and_then (run_steps fs s) (run_steps gs)"
proof (induction fs arbitrary: s)
  case Nil
  then show ?case by simp
next
  case (Cons f fs)
  then show ?case by (cases "f s") auto
qed

lemma run_steps_split:
  "run_steps (A @ f # C) s = and_then (run_steps A s) (\<lambda>s. and_then (f s) (run_steps C))"
proof -
  have "run_steps (f # C) = (\<lambda>s. and_then (f s) (run_steps C))" by (rule ext) simp
  then show ?thesis by (simp only: run_steps_append)
qed

section \<open>Objects filled in a loop\<close>

lemma fold_update_other:
  "i \<notin> k ` set rs \<Longrightarrow> fold (\<lambda>r S. S(k r \<mapsto> v r)) rs S i = S i"
  by (induction rs arbitrary: S) auto

lemma fold_update_at:
  assumes "distinct (map k rs)" and "r \<in> set rs"
  shows "fold (\<lambda>r S. S(k r \<mapsto> v r)) rs S (k r) = Some (v r)"
proof -
  obtain xs ys where rs: "rs = xs @ r # ys" using assms(2) by (meson split_list)
  with assms(1) have "k r \<notin> k ` set ys" by auto
  then show ?thesis by (simp add: rs fold_update_other del: fun_upd_apply) simp
qed

end
