(* ===== verification/Js_Float.thy ===== *)
theory Js_Float
  imports Complex_Main
begin

text \<open>
  Arithmetic on JavaScript numbers.  A finite number is a real; every operation of the code
  rounds its exact result with the rounding function of an \<open>fpu\<close>, whose \<open>Math.sin\<close>,
  \<open>Math.cos\<close>, \<open>Math.atan2\<close> and \<open>Math.PI\<close> are its own, because the language leaves those
  functions to the implementation.  \<open>round64\<close> is rounding to binary64, ties to even, with
  gradual underflow; \<open>exact_fpu\<close> computes without rounding and is the reading under which the
  geometric theorems are stated.  Infinities and NaN do not arise from the finite coordinates
  of the map payloads and are not represented.
\<close>

record fpu =
  fl :: "real \<Rightarrow> real"
  fsin :: "real \<Rightarrow> real"
  fcos :: "real \<Rightarrow> real"
  fatan2 :: "real \<Rightarrow> real \<Rightarrow> real"
  fpi :: real

definition fadd :: "fpu \<Rightarrow> real \<Rightarrow> real \<Rightarrow> real" where
  "fadd F x y = fl F (x + y)"

definition fsub :: "fpu \<Rightarrow> real \<Rightarrow> real \<Rightarrow> real" where
  "fsub F x y = fl F (x - y)"

definition fmul :: "fpu \<Rightarrow> real \<Rightarrow> real \<Rightarrow> real" where
  "fmul F x y = fl F (x * y)"

definition fdiv :: "fpu \<Rightarrow> real \<Rightarrow> real \<Rightarrow> real" where
  "fdiv F x y = fl F (x / y)"

text \<open>The operator \<open>%\<close>: the remainder has the sign of the dividend and is exact.\<close>

definition trunc :: "real \<Rightarrow> int" where
  "trunc x = (if 0 \<le> x then \<lfloor>x\<rfloor> else \<lceil>x\<rceil>)"

definition js_rem :: "real \<Rightarrow> real \<Rightarrow> real" where
  "js_rem x y = x - y * of_int (trunc (x / y))"

text \<open>\<open>Math.atan2\<close> without signed zeros.\<close>

definition atan2 :: "real \<Rightarrow> real \<Rightarrow> real" where
  "atan2 y x =
     (if 0 < x then arctan (y / x)
      else if x < 0 then (if 0 \<le> y then arctan (y / x) + pi else arctan (y / x) - pi)
      else if 0 < y then pi / 2
      else if y < 0 then - (pi / 2)
      else 0)"

definition exact_fpu :: fpu where
  "exact_fpu = \<lparr>fl = (\<lambda>x. x), fsin = sin, fcos = cos, fatan2 = atan2, fpi = pi\<rparr>"

lemma exact_fpu_simps [simp]:
  "fl exact_fpu x = x" "fsin exact_fpu = sin" "fcos exact_fpu = cos"
  "fatan2 exact_fpu = atan2" "fpi exact_fpu = pi"
  by (simp_all add: exact_fpu_def)

lemma exact_ops [simp]:
  "fadd exact_fpu x y = x + y" "fsub exact_fpu x y = x - y"
  "fmul exact_fpu x y = x * y" "fdiv exact_fpu x y = x / y"
  by (simp_all add: fadd_def fsub_def fmul_def fdiv_def)

section \<open>The remainder\<close>

lemma js_rem_abs_less:
  assumes "0 < y"
  shows "\<bar>js_rem x y\<bar> < y"
proof -
  define q where "q = x / y"
  have x: "x = y * q" using assms by (simp add: q_def)
  have "\<bar>q - of_int (trunc q)\<bar> < 1"
    unfolding trunc_def by (auto simp: abs_if) linarith+
  then have "y * \<bar>q - of_int (trunc q)\<bar> < y * 1"
    using assms by (intro mult_strict_left_mono) auto
  moreover have "js_rem x y = y * (q - of_int (trunc q))"
    by (simp add: js_rem_def q_def [symmetric] x algebra_simps)
  ultimately show ?thesis using assms by (simp add: abs_mult)
qed

lemma js_rem_nonneg:
  assumes "0 < y" and "0 \<le> x"
  shows "0 \<le> js_rem x y"
proof -
  have "y * of_int \<lfloor>x / y\<rfloor> \<le> y * (x / y)"
    using assms by (intro mult_left_mono) simp_all
  then have "y * of_int \<lfloor>x / y\<rfloor> \<le> x" using assms by simp
  with assms show ?thesis by (simp add: js_rem_def trunc_def)
qed

lemma js_rem_range: "0 < y \<Longrightarrow> 0 \<le> x \<Longrightarrow> 0 \<le> js_rem x y \<and> js_rem x y < y"
  using js_rem_abs_less [of y x] js_rem_nonneg [of y x] by linarith

lemma js_rem_multiple: "\<exists>k::int. js_rem x y = x - of_int k * y"
  by (auto simp: js_rem_def)

section \<open>Rounding\<close>

text \<open>
  What the range theorems use of a rounding: it is monotone and odd, and keeps one half and the
  integers up to \<open>2 ^ 53\<close>.
\<close>

locale rounding =
  fixes rnd :: "real \<Rightarrow> real"
  assumes rnd_mono: "x \<le> y \<Longrightarrow> rnd x \<le> rnd y"
    and rnd_int: "\<bar>n\<bar> \<le> 2 ^ 53 \<Longrightarrow> rnd (of_int n) = of_int n"
    and rnd_minus: "rnd (- x) = - rnd x"
    and rnd_half: "rnd (1 / 2) = 1 / 2"
begin

lemma rnd_half_bounds:
  assumes "\<bar>x\<bar> \<le> 1 / 2"
  shows "\<bar>rnd x\<bar> \<le> 1 / 2"
proof -
  from assms have "- (1 / 2) \<le> x" and "x \<le> 1 / 2" by linarith+
  then have "rnd (- (1 / 2)) \<le> rnd x" and "rnd x \<le> rnd (1 / 2)" by (auto intro: rnd_mono)
  then show ?thesis by (simp add: rnd_minus rnd_half abs_le_iff)
qed

lemma rnd_bounds:
  assumes "of_int a \<le> x" and "x \<le> of_int b" and "\<bar>a\<bar> \<le> 2 ^ 53" and "\<bar>b\<bar> \<le> 2 ^ 53"
  shows "of_int a \<le> rnd x \<and> rnd x \<le> of_int b"
  using rnd_mono [OF assms(1)] rnd_mono [OF assms(2)] assms(3,4) by (simp add: rnd_int)

lemma rnd_zero: "rnd 0 = 0"
  using rnd_int [of 0] by simp

lemma rnd_unit: "0 \<le> x \<Longrightarrow> x \<le> 1 \<Longrightarrow> 0 \<le> rnd x \<and> rnd x \<le> 1"
  using rnd_bounds [of 0 x 1] by simp

lemma rnd_nonneg: "0 \<le> x \<Longrightarrow> 0 \<le> rnd x"
  using rnd_mono [of 0 x] by (simp add: rnd_zero)

text \<open>\<open>((d % 360) + 360) % 360\<close> lies in \<open>[0, 360)\<close>.\<close>

lemma normalise_range:
  "0 \<le> js_rem (rnd (js_rem d 360 + 360)) 360 \<and> js_rem (rnd (js_rem d 360 + 360)) 360 < 360"
proof -
  have "\<bar>js_rem d 360\<bar> < 360" by (rule js_rem_abs_less) simp
  then have "0 \<le> js_rem d 360 + 360" by linarith
  then have "0 \<le> rnd (js_rem d 360 + 360)" by (rule rnd_nonneg)
  then show ?thesis by (intro js_rem_range) simp_all
qed

end

interpretation exact: rounding "fl exact_fpu"
  by unfold_locales auto

section \<open>Binary64\<close>

text \<open>Round to the nearest integer, ties to even.\<close>

definition rne :: "real \<Rightarrow> int" where
  "rne y =
     (let f = \<lfloor>y\<rfloor> in
      if y - of_int f < 1 / 2 then f
      else if y - of_int f > 1 / 2 then f + 1
      else if even f then f else f + 1)"

text \<open>The exponent of the last place of \<open>x\<close>; the least one is that of the subnormals.\<close>

definition ulp_exp :: "real \<Rightarrow> int" where
  "ulp_exp x = max (\<lfloor>log 2 \<bar>x\<bar>\<rfloor> - 52) (- 1074)"

definition round64 :: "real \<Rightarrow> real" where
  "round64 x =
     (if x = 0 then 0
      else of_int (rne (x / 2 powr of_int (ulp_exp x))) * 2 powr of_int (ulp_exp x))"

lemma rne_floor: "rne y = \<lfloor>y\<rfloor> \<or> rne y = \<lfloor>y\<rfloor> + 1"
  by (auto simp: rne_def Let_def)

lemma rne_int [simp]: "rne (of_int k) = k"
  by (simp add: rne_def)

lemma rne_mono:
  assumes "x \<le> y"
  shows "rne x \<le> rne y"
proof (cases "\<lfloor>x\<rfloor> = \<lfloor>y\<rfloor>")
  case True
  with assms show ?thesis by (auto simp: rne_def Let_def)
next
  case False
  with assms floor_mono [OF assms] have "\<lfloor>x\<rfloor> + 1 \<le> \<lfloor>y\<rfloor>" by linarith
  with rne_floor [of x] rne_floor [of y] show ?thesis by auto
qed

lemma rne_minus: "rne (- y) = - rne y"
proof (cases "y = of_int \<lfloor>y\<rfloor>")
  case True
  then obtain k where "y = of_int k" by blast
  then show ?thesis
    using rne_int [of k] rne_int [of "- k"] by simp
next
  case False
  then have "\<lfloor>- y\<rfloor> = - \<lfloor>y\<rfloor> - 1"
    by (metis ceiling_altdef floor_minus minus_diff_commute minus_diff_eq diff_minus_eq_add add.commute
        add_uminus_conv_diff)
  then show ?thesis by (auto simp: rne_def Let_def)
qed

lemma round64_minus: "round64 (- x) = - round64 x"
  by (simp add: round64_def ulp_exp_def rne_minus)

lemma round64_nonneg: "0 \<le> x \<Longrightarrow> 0 \<le> round64 x"
  using rne_mono [of 0 "x / 2 powr of_int (ulp_exp x)"] rne_int [of 0]
  by (simp add: round64_def)

lemma ulp_exp_mono:
  assumes "0 < x" and "x \<le> y"
  shows "ulp_exp x \<le> ulp_exp y"
proof -
  have "\<lfloor>log 2 x\<rfloor> \<le> \<lfloor>log 2 y\<rfloor>"
    using assms by (intro floor_mono) simp
  with assms show ?thesis by (simp add: ulp_exp_def)
qed

text \<open>A power of two not below the grid of \<open>x\<close> is on it, so rounding does not cross it.\<close>

lemma grid_power:
  assumes "a \<le> m"
  shows "(2::real) powr of_int m = of_int (2 ^ nat (m - a)) * 2 powr of_int a"
proof -
  have "(2::real) powr of_int m = 2 powr of_int (m - a) * 2 powr of_int a"
    by (simp add: powr_add [symmetric])
  also have "(2::real) powr of_int (m - a) = of_int (2 ^ nat (m - a))"
    using assms by (simp add: powr_realpow [symmetric])
  finally show ?thesis .
qed

lemma round_up_to_power:
  assumes "x \<le> 2 powr of_int m" and "a \<le> m"
  shows "of_int (rne (x / 2 powr of_int a)) * 2 powr of_int a \<le> (2::real) powr of_int m"
proof -
  have "x / 2 powr of_int a \<le> of_int (2 ^ nat (m - a))"
    using assms by (simp add: grid_power [of a m] pos_divide_le_eq)
  then have "rne (x / 2 powr of_int a) \<le> rne (of_int (2 ^ nat (m - a)))" by (rule rne_mono)
  then have "rne (x / 2 powr of_int a) \<le> 2 ^ nat (m - a)" by (simp only: rne_int)
  then have "real_of_int (rne (x / 2 powr of_int a)) \<le> of_int (2 ^ nat (m - a))"
    by (simp only: of_int_le_iff)
  then show ?thesis
    unfolding grid_power [OF assms(2)] by (intro mult_right_mono) simp_all
qed

lemma round_down_to_power:
  assumes "2 powr of_int m \<le> x" and "a \<le> m"
  shows "(2::real) powr of_int m \<le> of_int (rne (x / 2 powr of_int a)) * 2 powr of_int a"
proof -
  have "of_int (2 ^ nat (m - a)) \<le> x / 2 powr of_int a"
    using assms by (simp add: grid_power [of a m] pos_le_divide_eq)
  then have "rne (of_int (2 ^ nat (m - a))) \<le> rne (x / 2 powr of_int a)" by (rule rne_mono)
  then have "2 ^ nat (m - a) \<le> rne (x / 2 powr of_int a)" by (simp only: rne_int)
  then have "of_int (2 ^ nat (m - a)) \<le> real_of_int (rne (x / 2 powr of_int a))"
    by (simp only: of_int_le_iff)
  then show ?thesis
    unfolding grid_power [OF assms(2)] by (intro mult_right_mono) simp_all
qed

lemma round64_mono_pos:
  assumes "0 < x" and "x \<le> y"
  shows "round64 x \<le> round64 y"
proof (cases "ulp_exp x = ulp_exp y")
  case True
  then have "rne (x / 2 powr of_int (ulp_exp x)) \<le> rne (y / 2 powr of_int (ulp_exp y))"
    using assms by (intro rne_mono) (simp add: divide_right_mono)
  with True assms show ?thesis
    by (simp add: round64_def)
next
  case False
  define a b where "a = ulp_exp x" and "b = ulp_exp y"
  with False ulp_exp_mono [OF assms] have ab: "a < b" by simp
  have y0: "0 < y" using assms by linarith
  from ab have "b = \<lfloor>log 2 y\<rfloor> - 52" using y0 by (auto simp: a_def b_def ulp_exp_def)
  then have "of_int (b + 52) \<le> log 2 y" by linarith
  then have y: "2 powr of_int (b + 52) \<le> y" using y0 by (simp add: le_log_iff)
  have "\<lfloor>log 2 x\<rfloor> - 52 \<le> a" using assms by (simp add: a_def ulp_exp_def)
  with ab have "log 2 x < of_int (b + 52)" by linarith
  then have x: "x \<le> 2 powr of_int (b + 52)" using assms by (simp add: log_less_iff)
  have "round64 x \<le> 2 powr of_int (b + 52)"
    using assms round_up_to_power [OF x, of a] ab by (simp add: round64_def a_def)
  also have "\<dots> \<le> round64 y"
    using y0 round_down_to_power [OF y, of b] by (simp add: round64_def b_def)
  finally show ?thesis .
qed

lemma round64_mono:
  assumes "x \<le> y"
  shows "round64 x \<le> round64 y"
proof -
  consider "0 < x" | "x \<le> 0" "0 \<le> y" | "y < 0" by linarith
  then show ?thesis
  proof cases
    case 1
    then show ?thesis using assms by (rule round64_mono_pos)
  next
    case 2
    then show ?thesis
      using round64_nonneg [of y] round64_nonneg [of "- x"] by (simp add: round64_minus)
  next
    case 3
    then show ?thesis
      using round64_mono_pos [of "- y" "- x"] assms by (simp add: round64_minus)
  qed
qed

lemma round64_int:
  assumes "\<bar>n\<bar> \<le> 2 ^ 53"
  shows "round64 (of_int n) = of_int n"
proof (cases "n = 0")
  case True
  then show ?thesis by (simp add: round64_def)
next
  case False
  define e where "e = ulp_exp (of_int n)"
  have "\<exists>k::int. of_int n / 2 powr of_int e = real_of_int k"
  proof (cases "e \<le> 0")
    case True
    then have "of_int n / 2 powr of_int e = real_of_int (n * 2 ^ nat (- e))"
      by (simp add: powr_realpow [symmetric] powr_minus divide_inverse)
    then show ?thesis by blast
  next
    case False
    then have e: "e = \<lfloor>log 2 \<bar>of_int n\<bar>\<rfloor> - 52" by (auto simp: e_def ulp_exp_def)
    from e False have "of_int 53 \<le> log 2 \<bar>of_int n\<bar>" by linarith
    then have "2 ^ 53 \<le> \<bar>of_int n :: real\<bar>" using \<open>n \<noteq> 0\<close>
      by (simp add: le_log_iff powr_numeral)
    then have "2 ^ 53 \<le> \<bar>n\<bar>"
      by (metis of_int_abs of_int_le_iff of_int_numeral of_int_power)
    with assms have n: "\<bar>n\<bar> = 2 ^ 53" by simp
    then have abs: "\<bar>real_of_int n\<bar> = 2 powr 53" by (simp add: powr_numeral flip: of_int_abs)
    have "log 2 \<bar>real_of_int n\<bar> = 53" unfolding abs by (rule log_powr_cancel) simp_all
    then have "e = 1" using e by simp
    moreover have "2 dvd \<bar>n\<bar>" unfolding n by simp
    then have "n = 2 * (n div 2)" by simp
    then have "real_of_int n / 2 = of_int (n div 2)" by linarith
    ultimately show ?thesis by auto
  qed
  then obtain k :: int where k: "of_int n / 2 powr of_int e = real_of_int k" by blast
  have "round64 (of_int n) = of_int (rne (of_int n / 2 powr of_int e)) * 2 powr of_int e"
    using False by (simp add: round64_def e_def)
  also have "\<dots> = of_int k * 2 powr of_int e" by (simp only: k rne_int)
  also have "\<dots> = of_int n" by (simp flip: k)
  finally show ?thesis .
qed

lemma round64_half: "round64 (1 / 2) = 1 / 2"
proof -
  have "\<lfloor>log 2 \<bar>1 / 2\<bar>\<rfloor> = (- 1 :: int)"
    by (rule floor_unique) (simp_all add: log_divide)
  then have e: "ulp_exp (1 / 2) = - 53" by (simp add: ulp_exp_def)
  have "(1 / 2 :: real) / 2 powr of_int (- 53) = of_int (2 ^ 52)"
    by (simp add: powr_minus powr_numeral)
  then have "rne ((1 / 2) / 2 powr of_int (- 53)) = 2 ^ 52" by (simp only: rne_int)
  then show ?thesis by (simp add: round64_def e powr_minus powr_numeral)
qed

interpretation binary64: rounding round64
  by unfold_locales (simp_all add: round64_mono round64_int round64_minus round64_half)

text \<open>How far a rounded number is from the exact one.\<close>

lemma rne_near: "\<bar>real_of_int (rne y) - y\<bar> \<le> 1 / 2"
proof -
  have f: "of_int \<lfloor>y\<rfloor> \<le> y" "y < of_int \<lfloor>y\<rfloor> + 1" by linarith+
  consider "y - of_int \<lfloor>y\<rfloor> < 1 / 2" | "y - of_int \<lfloor>y\<rfloor> > 1 / 2" | "y - of_int \<lfloor>y\<rfloor> = 1 / 2" by linarith
  then show ?thesis
  proof cases
    case 1
    then have "rne y = \<lfloor>y\<rfloor>" by (simp add: rne_def)
    with 1 f show ?thesis by simp
  next
    case 2
    then have "rne y = \<lfloor>y\<rfloor> + 1" by (simp add: rne_def)
    with 2 f show ?thesis by simp
  next
    case 3
    define k where "k = \<lfloor>y\<rfloor>"
    have "y - of_int k = 1 / 2" "rne y = k \<or> rne y = k + 1" using 3 rne_floor [of y] by (simp_all add: k_def)
    then show ?thesis by (auto simp: abs_if)
  qed
qed

lemma round64_error: "\<bar>round64 x - x\<bar> \<le> (\<bar>x\<bar> + 1) / 2 ^ 53"
proof (cases "x = 0")
  case True
  then show ?thesis by (simp add: round64_def)
next
  case False
  define u :: real where "u = 2 powr of_int (ulp_exp x)"
  have u: "0 < u" by (simp add: u_def)
  have "round64 x - x = (of_int (rne (x / u)) - x / u) * u" using False u by (simp add: round64_def u_def left_diff_distrib)
  then have "\<bar>round64 x - x\<bar> = \<bar>of_int (rne (x / u)) - x / u\<bar> * u" using u by (simp add: abs_mult)
  also have "\<dots> \<le> 1 / 2 * u" using rne_near u by (intro mult_right_mono) simp_all
  also have "u \<le> (\<bar>x\<bar> + 1) * 2 powr (- 52)"
  proof (cases "\<lfloor>log 2 \<bar>x\<bar>\<rfloor> - 52 \<le> - 1074")
    case True
    then have "u = 2 powr (- 1074)" by (simp add: u_def ulp_exp_def max_def)
    also have "\<dots> \<le> 2 powr (- 52)" by (rule powr_mono) simp_all
    also have "\<dots> \<le> (\<bar>x\<bar> + 1) * 2 powr (- 52)" by simp
    finally show ?thesis .
  next
    case big: False
    then have "u = 2 powr (of_int \<lfloor>log 2 \<bar>x\<bar>\<rfloor> + - 52)" by (simp add: u_def ulp_exp_def max_def)
    also have "\<dots> = 2 powr of_int \<lfloor>log 2 \<bar>x\<bar>\<rfloor> * 2 powr (- 52)" by (rule powr_add)
    also have "2 powr of_int \<lfloor>log 2 \<bar>x\<bar>\<rfloor> \<le> 2 powr log 2 \<bar>x\<bar>" by (rule powr_mono) simp_all
    also have "2 powr log 2 \<bar>x\<bar> = \<bar>x\<bar>" using False by simp
    finally have "u \<le> \<bar>x\<bar> * 2 powr (- 52)" by simp
    moreover have "(0::real) \<le> 2 powr (- 52)" by simp
    ultimately show ?thesis unfolding distrib_right by linarith
  qed
  finally show ?thesis by (simp add: powr_minus powr_numeral field_simps)
qed

end
