(* ===== verification/Table_Sort.thy ===== *)
theory Table_Sort
  imports Js_Prelude Js_Float "HOL-Library.Multiset"
begin

text \<open>
  \<open>static/tablesort.js\<close>: sorting a table by a column and toggling the direction on header clicks.
  A JavaScript number read from text is \<open>NaN\<close>, an infinity or a finite value; \<open>rnd\<close> is the
  rounding of the engine.  \<open>Array.prototype.sort\<close> is used through the locale \<open>array_sort\<close>,
  the contract that the language gives; \<open>js_sort\<close>, a stable insertion sort, provides it.  Where the
  comparator is inconsistent, \<open>engine_sort\<close> says in which order the engine passes two elements.
\<close>

section \<open>Numbers in text\<close>

datatype jsnum = NaN | Inf bool | Fin real

definition is_digit :: "16 word \<Rightarrow> bool" where
  "is_digit u \<longleftrightarrow> 48 \<le> u \<and> u \<le> 57"

definition digit_value :: "16 word \<Rightarrow> nat" where
  "digit_value u = unat u - 48"

definition digits_value :: "jstring \<Rightarrow> nat" where
  "digits_value ds = fold (\<lambda>u n. 10 * n + digit_value u) ds 0"

definition take_digits :: "jstring \<Rightarrow> jstring \<times> jstring" where
  "take_digits s = (takeWhile is_digit s, dropWhile is_digit s)"

definition take_sign :: "jstring \<Rightarrow> bool \<times> jstring" where
  "take_sign s = (case s of
      [] \<Rightarrow> (False, [])
    | u # t \<Rightarrow> if u = 45 then (True, t) else if u = 43 then (False, t) else (False, s))"

text \<open>An exponent part, if a complete one is there: \<open>e\<close>, an optional sign and digits.\<close>

definition take_exponent :: "jstring \<Rightarrow> int \<times> jstring" where
  "take_exponent s = (case s of
      [] \<Rightarrow> (0, [])
    | u # t \<Rightarrow>
        if u = 101 \<or> u = 69 then
          (case take_sign t of (neg, t') \<Rightarrow>
             case take_digits t' of (ds, r) \<Rightarrow>
               if ds = [] then (0, s)
               else ((if neg then - int (digits_value ds) else int (digits_value ds)), r))
        else (0, s))"

definition take_fraction :: "jstring \<Rightarrow> jstring \<times> jstring" where
  "take_fraction s = (case s of
      [] \<Rightarrow> ([], [])
    | u # t \<Rightarrow> if u = 46 then take_digits t else ([], s))"

text \<open>
  The longest prefix that is a decimal literal: its exact value (\<open>None\<close> for \<open>Infinity\<close>), its sign
  and what follows.
\<close>

definition scan_decimal :: "jstring \<Rightarrow> (bool \<times> real option \<times> jstring) option" where
  "scan_decimal s =
     (case take_sign s of (neg, t) \<Rightarrow>
        if take 8 t = lit ''Infinity'' then Some (neg, None, drop 8 t)
        else case take_digits t of (ds, r) \<Rightarrow>
          case take_fraction r of (fs, r') \<Rightarrow>
            if ds = [] \<and> fs = [] then None
            else case take_exponent r' of (e, r'') \<Rightarrow>
              Some (neg, Some (real (digits_value (ds @ fs)) * 10 powr (of_int e - real (length fs))), r''))"

text \<open>Rounding a literal's value; from half an ulp above the largest double on it is infinite.\<close>

definition to_num :: "(real \<Rightarrow> real) \<Rightarrow> bool \<Rightarrow> real option \<Rightarrow> jsnum" where
  "to_num rnd neg v = (case v of
      None \<Rightarrow> Inf neg
    | Some x \<Rightarrow>
        if 2 ^ 1024 - 2 ^ 970 \<le> x then Inf neg
        else Fin (rnd (if neg then - x else x)))"

definition parseFloat :: "(real \<Rightarrow> real) \<Rightarrow> jstring \<Rightarrow> jsnum" where
  "parseFloat rnd s = (case scan_decimal (trim_start s) of
      None \<Rightarrow> NaN
    | Some (neg, v, r) \<Rightarrow> to_num rnd neg v)"

text \<open>\<open>isNaN\<close> of a string: whether \<open>Number\<close> rejects it.\<close>

definition radix_digit :: "nat \<Rightarrow> 16 word \<Rightarrow> bool" where
  "radix_digit b u \<longleftrightarrow>
     (is_digit u \<and> digit_value u < b)
   \<or> b = 16 \<and> (97 \<le> u \<and> u \<le> 102 \<or> 65 \<le> u \<and> u \<le> 70)"

definition radix_literal :: "jstring \<Rightarrow> bool" where
  "radix_literal s = (case s of
      z # x # d # ds \<Rightarrow> z = 48 \<and>
        (((x = 120 \<or> x = 88) \<and> list_all (radix_digit 16) (d # ds))
       \<or> ((x = 98 \<or> x = 66) \<and> list_all (radix_digit 2) (d # ds))
       \<or> ((x = 111 \<or> x = 79) \<and> list_all (radix_digit 8) (d # ds)))
    | _ \<Rightarrow> False)"

definition isNaN_text :: "jstring \<Rightarrow> bool" where
  "isNaN_text s =
     (let t = js_trim s in
      t \<noteq> [] \<and> \<not> radix_literal t
      \<and> (case scan_decimal t of None \<Rightarrow> True | Some (neg, v, r) \<Rightarrow> r \<noteq> []))"

section \<open>The comparator\<close>

datatype col_value = NumValue jsnum | TextValue jstring

text \<open>\<open>aColValue\<close>, from the trimmed text of the cell.\<close>

definition col_value :: "(real \<Rightarrow> real) \<Rightarrow> jstring \<Rightarrow> col_value" where
  "col_value rnd text =
     (if text = [] then NumValue (Fin 0)
      else if isNaN_text text then TextValue text
      else NumValue (parseFloat rnd text))"

text \<open>
  \<open>parseFloat\<close> of that value.  A number is first turned into text, and the language promises that
  the text reads back as the same number.
\<close>

definition parseFloat_value :: "(real \<Rightarrow> real) \<Rightarrow> col_value \<Rightarrow> jsnum" where
  "parseFloat_value rnd v = (case v of NumValue n \<Rightarrow> n | TextValue s \<Rightarrow> parseFloat rnd s)"

definition num_sub :: "(real \<Rightarrow> real) \<Rightarrow> jsnum \<Rightarrow> jsnum \<Rightarrow> jsnum" where
  "num_sub rnd a b = (case (a, b) of
      (NaN, _) \<Rightarrow> NaN
    | (_, NaN) \<Rightarrow> NaN
    | (Inf s, Inf t) \<Rightarrow> if s = t then NaN else Inf s
    | (Inf s, Fin y) \<Rightarrow> Inf s
    | (Fin x, Inf t) \<Rightarrow> Inf (\<not> t)
    | (Fin x, Fin y) \<Rightarrow>
        if 2 ^ 1024 - 2 ^ 970 \<le> \<bar>x - y\<bar> then Inf (x < y) else Fin (rnd (x - y)))"

text \<open>The sign of a comparator's result, as \<open>sort\<close> reads it: NaN counts as zero.\<close>

definition num_sign :: "jsnum \<Rightarrow> int" where
  "num_sign n = (case n of
      NaN \<Rightarrow> 0
    | Inf neg \<Rightarrow> if neg then - 1 else 1
    | Fin x \<Rightarrow> if x < 0 then - 1 else if 0 < x then 1 else 0)"

definition dirModifier :: "bool \<Rightarrow> int" where
  "dirModifier asc = (if asc then 1 else - 1)"

definition compare_texts :: "(real \<Rightarrow> real) \<Rightarrow> jstring \<Rightarrow> bool \<Rightarrow> jstring \<Rightarrow> jstring \<Rightarrow> int" where
  "compare_texts rnd type asc aColText bColText =
     (if type = lit ''number''
      then num_sign (num_sub rnd (parseFloat_value rnd (col_value rnd aColText))
                       (parseFloat_value rnd (col_value rnd bColText))) * dirModifier asc
      else if js_str_less bColText aColText then 1 * dirModifier asc
      else - 1 * dirModifier asc)"

section \<open>The table\<close>

text \<open>A header cell: its \<open>data-type\<close>, empty when absent, and its two classes.\<close>

record header =
  h_type :: jstring
  h_asc :: bool
  h_desc :: bool

text \<open>A row is the list of the text contents of its cells.\<close>

type_synonym row = "jstring list"

record table =
  headers :: "header list"
  rows :: "row list"

definition cell_text :: "nat \<Rightarrow> row \<Rightarrow> jstring" where
  "cell_text column r = js_trim (r ! column)"

definition column_type :: "header \<Rightarrow> jstring" where
  "column_type h = (if h_type h = [] then lit ''string'' else h_type h)"

definition mark_headers :: "nat \<Rightarrow> bool \<Rightarrow> header list \<Rightarrow> header list" where
  "mark_headers column asc hs =
     (map (\<lambda>h. h\<lparr>h_asc := False, h_desc := False\<rparr>) hs)
       [column := (hs ! column)\<lparr>h_asc := asc, h_desc := \<not> asc\<rparr>]"

text \<open>
  An \<open>Array.prototype.sort\<close>: each element is inserted into the sorted prefix before the first element
  that it is less than.
\<close>

fun ins :: "('a \<Rightarrow> 'a \<Rightarrow> int) \<Rightarrow> 'a \<Rightarrow> 'a list \<Rightarrow> 'a list" where
  "ins c x [] = [x]"
| "ins c x (y # ys) = (if c x y < 0 then x # y # ys else y # ins c x ys)"

definition js_sort :: "('a \<Rightarrow> 'a \<Rightarrow> int) \<Rightarrow> 'a list \<Rightarrow> 'a list" where
  "js_sort c xs = fold (ins c) xs []"

text \<open>
  A missing header cell, or a missing cell when two rows are compared, is a null dereference
  before anything is changed.
\<close>

definition sortTableByColumn ::
  "((row \<Rightarrow> row \<Rightarrow> int) \<Rightarrow> row list \<Rightarrow> row list) \<Rightarrow> (real \<Rightarrow> real) \<Rightarrow> nat \<Rightarrow> bool \<Rightarrow> table \<Rightarrow> table outcome" where
  "sortTableByColumn srt rnd column asc t =
     (if length (headers t) \<le> column then Thrown (TypeError ''null'') t
      else if 2 \<le> length (rows t) \<and> (\<exists>r \<in> set (rows t). length r \<le> column)
      then Thrown (TypeError ''null'') t
      else let type = column_type (headers t ! column);
               sortedRows = srt (\<lambda>a b. compare_texts rnd type asc (cell_text column a) (cell_text column b))
                              (rows t)
           in Done (t\<lparr>rows := sortedRows, headers := mark_headers column asc (headers t)\<rparr>))"

text \<open>The click listener of a header cell, and a click when \<open>k\<close> copies of it are registered.\<close>

definition on_header_click ::
  "((row \<Rightarrow> row \<Rightarrow> int) \<Rightarrow> row list \<Rightarrow> row list) \<Rightarrow> (real \<Rightarrow> real) \<Rightarrow> nat \<Rightarrow> table \<Rightarrow> table outcome" where
  "on_header_click srt rnd headerIndex t =
     (let currentIsAscending = h_asc (headers t ! headerIndex)
      in sortTableByColumn srt rnd headerIndex (\<not> currentIsAscending) t)"

fun click_header ::
  "((row \<Rightarrow> row \<Rightarrow> int) \<Rightarrow> row list \<Rightarrow> row list) \<Rightarrow> (real \<Rightarrow> real) \<Rightarrow> nat \<Rightarrow> nat \<Rightarrow> table \<Rightarrow> table" where
  "click_header srt rnd 0 i t = t"
| "click_header srt rnd (Suc k) i t =
     click_header srt rnd k i (state_of (on_header_click srt rnd i t))"

section \<open>The contract of sort\<close>

definition consistent :: "('a \<Rightarrow> 'a \<Rightarrow> int) \<Rightarrow> 'a set \<Rightarrow> bool" where
  "consistent c S \<longleftrightarrow>
     (\<forall>a \<in> S. \<forall>b \<in> S. c a b < 0 \<longleftrightarrow> 0 < c b a)
   \<and> (\<forall>a \<in> S. \<forall>b \<in> S. \<forall>d \<in> S. c a b \<le> 0 \<longrightarrow> c b d \<le> 0 \<longrightarrow> c a d \<le> 0)"

text \<open>
  What ECMA-262 promises: the result is a permutation whatever the comparator does, and for a
  comparator that is consistent on the elements it is sorted and stable.
\<close>

locale array_sort =
  fixes srt :: "('a \<Rightarrow> 'a \<Rightarrow> int) \<Rightarrow> 'a list \<Rightarrow> 'a list"
  assumes sort_perm: "mset (srt c xs) = mset xs"
    and sort_sorted: "consistent c (set xs) \<Longrightarrow> sorted_wrt (\<lambda>a b. c a b \<le> 0) (srt c xs)"
    and sort_stable: "consistent c (set xs) \<Longrightarrow> a \<in> set xs \<Longrightarrow>
      filter (\<lambda>b. c a b = 0) (srt c xs) = filter (\<lambda>b. c a b = 0) xs"
begin

lemma sort_set: "set (srt c xs) = set xs"
  using sort_perm [of c xs] by (metis set_mset_mset)

lemma sort_length: "length (srt c xs) = length xs"
  using sort_perm [of c xs] by (metis size_mset)

end

lemma mset_ins: "mset (ins c x ys) = add_mset x (mset ys)"
  by (induction ys) auto

lemma set_ins: "set (ins c x ys) = insert x (set ys)"
  by (induction ys) auto

lemma sorted_ins:
  assumes "consistent c S" and "x \<in> S" and "set ys \<subseteq> S" and "sorted_wrt (\<lambda>a b. c a b \<le> 0) ys"
  shows "sorted_wrt (\<lambda>a b. c a b \<le> 0) (ins c x ys)"
  using assms(3,4)
proof (induction ys)
  case Nil
  then show ?case by simp
next
  case (Cons y ys)
  show ?case
  proof (cases "c x y < 0")
    case True
    have "c x z \<le> 0" if "z \<in> set ys" for z
    proof -
      from Cons.prems that have "c y z \<le> 0" "y \<in> S" "z \<in> S" by auto
      with True assms(1,2) show ?thesis unfolding consistent_def by (meson less_imp_le)
    qed
    with True Cons.prems show ?thesis by auto
  next
    case False
    with assms Cons.prems have "c y x \<le> 0" by (simp add: consistent_def)
    with False Cons show ?thesis by (auto simp: set_ins)
  qed
qed

lemma consistent_refl: "consistent c S \<Longrightarrow> a \<in> S \<Longrightarrow> c a a = 0"
  unfolding consistent_def by (meson less_asym linorder_neqE_linordered_idom)

lemma consistent_eq:
  assumes "consistent c S" and "a \<in> S" "b \<in> S" "d \<in> S" and "c a b = 0"
  shows "c a d = 0 \<longleftrightarrow> c b d = 0" and "c b a = 0" and "c a d < 0 \<longleftrightarrow> c b d < 0"
proof -
  have sym: "\<And>u v. u \<in> S \<Longrightarrow> v \<in> S \<Longrightarrow> (c u v < 0) = (0 < c v u)"
    and tr: "\<And>u v w. u \<in> S \<Longrightarrow> v \<in> S \<Longrightarrow> w \<in> S \<Longrightarrow> c u v \<le> 0 \<Longrightarrow> c v w \<le> 0 \<Longrightarrow> c u w \<le> 0"
    using assms(1) unfolding consistent_def by blast+
  show ba: "c b a = 0" using sym [of a b] sym [of b a] assms by force
  have le: "c a d \<le> 0 \<longleftrightarrow> c b d \<le> 0" "c d a \<le> 0 \<longleftrightarrow> c d b \<le> 0"
    using tr [of b a d] tr [of a b d] tr [of d a b] tr [of d b a] assms ba by auto
  show "c a d = 0 \<longleftrightarrow> c b d = 0" and "c a d < 0 \<longleftrightarrow> c b d < 0"
    using le sym [of a d] sym [of d a] sym [of b d] sym [of d b] assms(2-4) by force+
qed

lemma filter_ins:
  assumes "consistent c S" and "a \<in> S" and "x \<in> S" and "set ys \<subseteq> S"
    and "sorted_wrt (\<lambda>u v. c u v \<le> 0) ys"
  shows "filter (\<lambda>b. c a b = 0) (ins c x ys) = filter (\<lambda>b. c a b = 0) (ys @ [x])"
  using assms(4,5)
proof (induction ys)
  case Nil
  then show ?case by simp
next
  case (Cons y ys)
  show ?case
  proof (cases "c x y < 0")
    case False
    with Cons show ?thesis by simp
  next
    case True
    have "filter (\<lambda>b. c a b = 0) (y # ys) = []" if "c a x = 0"
    proof -
      have "c a z \<noteq> 0" if z: "z \<in> set (y # ys)" for z
      proof
        assume "c a z = 0"
        from z Cons.prems have zS: "z \<in> S" "y \<in> S" and yz: "c y z \<le> 0"
          using consistent_refl [OF assms(1), of y] by auto
        have "c x z = 0" using consistent_eq(1) [OF assms(1,2,3) zS(1) \<open>c a x = 0\<close>] \<open>c a z = 0\<close> by simp
        then have "c z x = 0" by (rule consistent_eq(2) [OF assms(1,3) zS(1) zS(1)])
        with yz zS assms(1,3) have "c y x \<le> 0" unfolding consistent_def by (metis order_refl)
        moreover have "0 < c y x" using True assms(1,3) zS(2) by (simp add: consistent_def)
        ultimately show False by simp
      qed
      then show ?thesis by (simp add: filter_empty_conv)
    qed
    with True show ?thesis by auto
  qed
qed

lemma fold_ins:
  assumes "consistent c S" and "set xs \<subseteq> S" and "set ys \<subseteq> S"
    and "sorted_wrt (\<lambda>u v. c u v \<le> 0) ys"
  shows "sorted_wrt (\<lambda>u v. c u v \<le> 0) (fold (ins c) xs ys)
     \<and> (\<forall>a \<in> S. filter (\<lambda>b. c a b = 0) (fold (ins c) xs ys) = filter (\<lambda>b. c a b = 0) (ys @ xs))"
  using assms(2-4)
proof (induction xs arbitrary: ys)
  case Nil
  then show ?case by simp
next
  case (Cons x xs)
  then have "sorted_wrt (\<lambda>u v. c u v \<le> 0) (ins c x ys)" and "set (ins c x ys) \<subseteq> S"
    using sorted_ins [OF assms(1)] by (simp_all add: set_ins)
  with Cons.IH Cons.prems have IH: "sorted_wrt (\<lambda>u v. c u v \<le> 0) (fold (ins c) xs (ins c x ys))"
    "\<forall>a \<in> S. filter (\<lambda>b. c a b = 0) (fold (ins c) xs (ins c x ys))
       = filter (\<lambda>b. c a b = 0) (ins c x ys) @ filter (\<lambda>b. c a b = 0) xs" by simp_all
  have "\<forall>a \<in> S. filter (\<lambda>b. c a b = 0) (ins c x ys) = filter (\<lambda>b. c a b = 0) (ys @ [x])"
    using filter_ins [OF assms(1)] Cons.prems by simp
  with IH show ?case by simp
qed

interpretation js: array_sort js_sort
proof unfold_locales
  fix c :: "'a \<Rightarrow> 'a \<Rightarrow> int" and xs
  have "mset (fold (ins c) xs ys) = mset xs + mset ys" for ys
    by (induction xs arbitrary: ys) (simp_all add: mset_ins)
  then show "mset (js_sort c xs) = mset xs" by (simp add: js_sort_def)
next
  fix c :: "'a \<Rightarrow> 'a \<Rightarrow> int" and xs
  assume "consistent c (set xs)"
  from fold_ins [OF this, of xs "[]"] show "sorted_wrt (\<lambda>a b. c a b \<le> 0) (js_sort c xs)"
    by (simp add: js_sort_def)
next
  fix c :: "'a \<Rightarrow> 'a \<Rightarrow> int" and xs a
  assume "consistent c (set xs)" and "a \<in> set xs"
  with fold_ins [OF this(1), of xs "[]"]
  show "filter (\<lambda>b. c a b = 0) (js_sort c xs) = filter (\<lambda>b. c a b = 0) xs"
    by (simp add: js_sort_def)
qed

section \<open>Subtraction keeps order\<close>

text \<open>Gradual underflow: the rounded difference of two representable numbers is 0 only if they are equal.\<close>

locale gradual = rounding +
  assumes rnd_diff_zero: "rnd (rnd x - rnd y) = 0 \<Longrightarrow> rnd x = rnd y"
begin

lemma rnd_diff_sign:
  shows "rnd x < rnd y \<Longrightarrow> rnd (rnd x - rnd y) < 0" and "rnd y < rnd x \<Longrightarrow> 0 < rnd (rnd x - rnd y)"
proof -
  show "rnd (rnd x - rnd y) < 0" if "rnd x < rnd y"
  proof -
    have "rnd (rnd x - rnd y) \<le> rnd 0" using that by (intro rnd_mono) simp
    with that rnd_diff_zero [of x y] show ?thesis by (force simp: rnd_zero)
  qed
  show "0 < rnd (rnd x - rnd y)" if "rnd y < rnd x"
  proof -
    have "rnd 0 \<le> rnd (rnd x - rnd y)" using that by (intro rnd_mono) simp
    with that rnd_diff_zero [of x y] show ?thesis by (force simp: rnd_zero)
  qed
qed

end

interpretation exact_gradual: gradual "fl exact_fpu"
  by unfold_locales simp

text \<open>Every rounded number is a multiple of the least positive one, \<open>2 powr - 1074\<close>.\<close>

definition tiny :: real where
  "tiny = 2 powr (- 1074)"

lemma tiny_pos: "0 < tiny"
  by (simp add: tiny_def)

lemma round64_multiple: "\<exists>k::int. round64 x = of_int k * tiny"
proof (cases "x = 0")
  case True
  then show ?thesis by (intro exI [of _ 0]) (simp add: round64_def)
next
  case False
  let ?e = "ulp_exp x"
  have e: "- 1074 \<le> ?e" by (simp add: ulp_exp_def)
  then have "2 powr of_int ?e = of_int (2 ^ nat (?e + 1074)) * tiny"
    by (simp add: tiny_def powr_realpow [symmetric] powr_add [symmetric])
  then have "round64 x = of_int (rne (x / 2 powr of_int ?e) * 2 ^ nat (?e + 1074)) * tiny"
    using False by (simp add: round64_def)
  then show ?thesis by blast
qed

lemma round64_tiny: "round64 tiny = tiny"
proof -
  have "ulp_exp tiny = - 1074" by (simp add: ulp_exp_def tiny_def log_powr)
  then have "round64 tiny = of_int (rne (tiny / tiny)) * tiny"
    by (simp add: round64_def tiny_def)
  also have "tiny / tiny = of_int 1" by (simp add: tiny_def)
  also have "rne (of_int 1) = 1" by (rule rne_int)
  finally show ?thesis by simp
qed

lemma round64_zero_only:
  assumes "round64 (of_int k * tiny) = 0"
  shows "k = 0"
proof (rule ccontr)
  assume "k \<noteq> 0"
  then have "tiny \<le> of_int \<bar>k\<bar> * tiny" using tiny_pos by simp
  then have "tiny \<le> round64 (of_int \<bar>k\<bar> * tiny)"
    using binary64.rnd_mono [of tiny "of_int \<bar>k\<bar> * tiny"] by (simp add: round64_tiny)
  moreover have "round64 (of_int \<bar>k\<bar> * tiny) = 0"
    using assms binary64.rnd_minus [of "of_int k * tiny"] by (cases "0 \<le> k") simp_all
  ultimately show False using tiny_pos by simp
qed

interpretation binary64_gradual: gradual round64
proof unfold_locales
  fix x y :: real
  assume z: "round64 (round64 x - round64 y) = 0"
  obtain a b :: int where "round64 x = of_int a * tiny" and "round64 y = of_int b * tiny"
    using round64_multiple by meson
  then have "round64 x - round64 y = of_int (a - b) * tiny" by (simp add: left_diff_distrib)
  with z round64_zero_only [of "a - b"] show "round64 x = round64 y" by simp
qed

section \<open>The number comparator is a consistent one\<close>

fun num_less :: "jsnum \<Rightarrow> jsnum \<Rightarrow> bool" where
  "num_less (Inf s) (Inf t) = (s \<and> \<not> t)"
| "num_less (Inf s) (Fin y) = s"
| "num_less (Fin x) (Inf t) = (\<not> t)"
| "num_less (Fin x) (Fin y) = (x < y)"
| "num_less _ _ = False"

fun representable :: "(real \<Rightarrow> real) \<Rightarrow> jsnum \<Rightarrow> bool" where
  "representable rnd NaN = False"
| "representable rnd (Inf s) = True"
| "representable rnd (Fin x) = (\<exists>z. x = rnd z)"

lemma num_sign_sub:
  assumes "gradual rnd" and "representable rnd a" and "representable rnd b"
  shows "num_sign (num_sub rnd a b) = (if num_less a b then - 1 else if num_less b a then 1 else 0)"
proof (cases a)
  case NaN
  with assms show ?thesis by simp
next
  case (Inf s)
  with assms show ?thesis by (cases b) (auto simp: num_sub_def num_sign_def)
next
  case (Fin x)
  show ?thesis
  proof (cases b)
    case (Fin y)
    from assms \<open>a = Fin x\<close> Fin obtain u v where "x = rnd u" and "y = rnd v" by auto
    with \<open>a = Fin x\<close> Fin gradual.rnd_diff_sign [OF assms(1), of u v] gradual.rnd_diff_sign [OF assms(1), of v u] show ?thesis
      by (cases x y rule: linorder_cases)
        (auto simp: num_sub_def num_sign_def rounding.rnd_zero [OF gradual.axioms(1) [OF assms(1)]])
  qed (use \<open>a = Fin x\<close> assms in \<open>auto simp: num_sub_def num_sign_def\<close>)
qed

lemma num_less_asym: "num_less a b \<Longrightarrow> \<not> num_less b a"
  by (cases a; cases b) simp_all

lemma num_less_total:
  "a \<noteq> NaN \<Longrightarrow> b \<noteq> NaN \<Longrightarrow> \<not> num_less a b \<Longrightarrow> \<not> num_less b a \<Longrightarrow> a = b"
  by (cases a; cases b) auto

lemma num_less_trans: "num_less a b \<Longrightarrow> num_less b d \<Longrightarrow> num_less a d"
  by (cases a; cases b; cases d) simp_all

text \<open>A comparator that reads a strict order of keys, in either direction, is consistent.\<close>

definition key_compare :: "('k \<Rightarrow> 'k \<Rightarrow> bool) \<Rightarrow> ('a \<Rightarrow> 'k) \<Rightarrow> bool \<Rightarrow> 'a \<Rightarrow> 'a \<Rightarrow> int" where
  "key_compare lt k asc a b = (if lt (k a) (k b) then - 1 else if lt (k b) (k a) then 1 else 0) * dirModifier asc"

lemma key_compare_consistent:
  assumes "\<And>x y. lt x y \<Longrightarrow> \<not> lt y x" and "\<And>x y z. lt x y \<Longrightarrow> lt y z \<Longrightarrow> lt x z"
    and "\<And>a b. a \<in> S \<Longrightarrow> b \<in> S \<Longrightarrow> \<not> lt (k a) (k b) \<Longrightarrow> \<not> lt (k b) (k a) \<Longrightarrow> k a = k b"
  shows "consistent (key_compare lt k asc) S"
proof -
  have sgn: "key_compare lt k asc a b < 0 \<longleftrightarrow> (if asc then lt (k a) (k b) else lt (k b) (k a))"
    "key_compare lt k asc a b \<le> 0 \<longleftrightarrow> (if asc then \<not> lt (k b) (k a) else \<not> lt (k a) (k b))"
    "0 < key_compare lt k asc a b \<longleftrightarrow> (if asc then lt (k b) (k a) else lt (k a) (k b))" for a b
    using assms(1) [of "k a" "k b"] by (auto simp: key_compare_def dirModifier_def)
  have tr: "\<not> lt (k d) (k a)"
    if "a \<in> S" "b \<in> S" "d \<in> S" "\<not> lt (k b) (k a)" "\<not> lt (k d) (k b)" for a b d
  proof
    assume "lt (k d) (k a)"
    moreover have "lt (k a) (k b) \<or> k a = k b" using that assms(3) by blast
    ultimately have "lt (k d) (k b)" using assms(2) by metis
    with that(5) show False by simp
  qed
  show ?thesis
    unfolding consistent_def sgn
    by (cases asc; simp only: if_True if_False simp_thms; use tr in blast)
qed

text \<open>The number of a cell.\<close>

definition cell_number :: "(real \<Rightarrow> real) \<Rightarrow> jstring \<Rightarrow> jsnum" where
  "cell_number rnd s = (if s = [] then Fin 0 else parseFloat rnd s)"

lemma parseFloat_col_value: "parseFloat_value rnd (col_value rnd s) = cell_number rnd s"
  by (simp add: parseFloat_value_def col_value_def cell_number_def)

lemma cell_number_representable:
  assumes "rounding rnd" and "cell_number rnd s \<noteq> NaN"
  shows "representable rnd (cell_number rnd s)"
proof (cases "s = []")
  case True
  then show ?thesis
    using rounding.rnd_zero [OF assms(1)] by (auto simp: cell_number_def intro: exI [of _ 0])
next
  case False
  with assms show ?thesis
    by (auto simp: cell_number_def parseFloat_def to_num_def split: option.splits)
qed

lemma compare_numbers:
  assumes "gradual rnd" and "cell_number rnd s \<noteq> NaN" and "cell_number rnd t \<noteq> NaN"
  shows "compare_texts rnd (lit ''number'') asc s t = key_compare num_less (cell_number rnd) asc s t"
  using cell_number_representable [OF gradual.axioms(1) [OF assms(1)]] assms
  by (simp add: compare_texts_def parseFloat_col_value num_sign_sub key_compare_def)

section \<open>Engines\<close>

text \<open>
  For an inconsistent comparator the language leaves the order to the engine.  An engine that compares
  two elements asks for them in one order: V8 passes the one that came later in the array first,
  SpiderMonkey passes it second.  \<open>asks\<close> is the comparison of elements with their positions that such
  an engine sees, \<open>engine_sort\<close> a sort by it.
\<close>

definition asks :: "bool \<Rightarrow> ('a \<Rightarrow> 'a \<Rightarrow> int) \<Rightarrow> nat \<times> 'a \<Rightarrow> nat \<times> 'a \<Rightarrow> int" where
  "asks later_first c p q = (if fst p = fst q then 0
     else if (fst p < fst q) = later_first then - c (snd q) (snd p) else c (snd p) (snd q))"

definition engine_sort ::
  "((nat \<times> 'a \<Rightarrow> nat \<times> 'a \<Rightarrow> int) \<Rightarrow> (nat \<times> 'a) list \<Rightarrow> (nat \<times> 'a) list)
    \<Rightarrow> bool \<Rightarrow> ('a \<Rightarrow> 'a \<Rightarrow> int) \<Rightarrow> 'a list \<Rightarrow> 'a list" where
  "engine_sort srt later_first c xs = map snd (srt (asks later_first c) (enumerate 0 xs))"

lemma in_enumerate: "p \<in> set (enumerate 0 xs) \<longleftrightarrow> fst p < length xs \<and> snd p = xs ! fst p"
  by (cases p) (auto simp: in_set_enumerate_eq)

lemma asks_signs:
  assumes "consistent c (set xs)" and "p \<in> set (enumerate 0 xs)" and "q \<in> set (enumerate 0 xs)"
  shows "asks b c p q < 0 \<longleftrightarrow> c (snd p) (snd q) < 0" and "asks b c p q = 0 \<longleftrightarrow> c (snd p) (snd q) = 0"
proof -
  have m: "snd p \<in> set xs" "snd q \<in> set xs" using assms(2,3) by (auto simp: in_enumerate)
  have anti: "c u v < 0 \<longleftrightarrow> 0 < c v u" if "u \<in> set xs" "v \<in> set xs" for u v
    using assms(1) that by (simp add: consistent_def)
  have refl: "c (snd p) (snd q) = 0" if "fst p = fst q"
    using that assms(2,3) consistent_refl [OF assms(1) m(1)] by (simp add: in_enumerate)
  show "asks b c p q < 0 \<longleftrightarrow> c (snd p) (snd q) < 0" "asks b c p q = 0 \<longleftrightarrow> c (snd p) (snd q) = 0"
    using refl anti [OF m] anti [OF m(2) m(1)] by (auto simp: asks_def)
qed

lemma asks_consistent:
  assumes "consistent c (set xs)"
  shows "consistent (asks b c) (set (enumerate 0 xs))"
proof -
  have m: "snd p \<in> set xs" if "p \<in> set (enumerate 0 xs)" for p using that by (auto simp: in_enumerate)
  have lt: "asks b c p q < 0 \<longleftrightarrow> c (snd p) (snd q) < 0" and gt: "0 < asks b c p q \<longleftrightarrow> 0 < c (snd p) (snd q)"
    and le: "asks b c p q \<le> 0 \<longleftrightarrow> c (snd p) (snd q) \<le> 0" if "p \<in> set (enumerate 0 xs)" "q \<in> set (enumerate 0 xs)" for p q
    using asks_signs [OF assms that, of b] by linarith+
  have "asks b c p q < 0 \<longleftrightarrow> 0 < asks b c q p" if e: "p \<in> set (enumerate 0 xs)" "q \<in> set (enumerate 0 xs)" for p q
    unfolding lt [OF e] gt [OF e(2,1)] using assms m [OF e(1)] m [OF e(2)] by (simp add: consistent_def)
  moreover have "asks b c p r \<le> 0"
    if "p \<in> set (enumerate 0 xs)" "q \<in> set (enumerate 0 xs)" "r \<in> set (enumerate 0 xs)" "asks b c p q \<le> 0" "asks b c q r \<le> 0" for p q r
  proof -
    have "c (snd p) (snd q) \<le> 0" "c (snd q) (snd r) \<le> 0" using that le by blast+
    then have "c (snd p) (snd r) \<le> 0" using assms m that(1-3) unfolding consistent_def by blast
    then show ?thesis using le [OF that(1,3)] by blast
  qed
  ultimately show ?thesis unfolding consistent_def by blast
qed

text \<open>Either order of asking meets the contract.\<close>

lemma engine_array_sort:
  assumes "array_sort srt"
  shows "array_sort (engine_sort srt b)"
proof
  fix c :: "'a \<Rightarrow> 'a \<Rightarrow> int" and xs
  have "mset (map snd (srt (asks b c) (enumerate 0 xs))) = mset (map snd (enumerate 0 xs))"
    by (simp only: mset_map array_sort.sort_perm [OF assms])
  then show "mset (engine_sort srt b c xs) = mset xs" by (simp add: engine_sort_def)
next
  fix c :: "'a \<Rightarrow> 'a \<Rightarrow> int" and xs
  assume c: "consistent c (set xs)"
  note mem = array_sort.sort_set [OF assms, of "asks b c" "enumerate 0 xs"]
  have le: "c (snd p) (snd q) \<le> 0" if "p \<in> set (enumerate 0 xs)" "q \<in> set (enumerate 0 xs)" "asks b c p q \<le> 0" for p q
    using asks_signs [OF c that(1,2), of b] that(3) by linarith
  have "sorted_wrt (\<lambda>p q. c (snd p) (snd q) \<le> 0) (srt (asks b c) (enumerate 0 xs))"
    by (rule sorted_wrt_mono_rel [OF le array_sort.sort_sorted [OF assms asks_consistent [OF c]]])
      (simp_all only: mem)
  then show "sorted_wrt (\<lambda>a b. c a b \<le> 0) (engine_sort srt b c xs)" by (simp add: engine_sort_def sorted_wrt_map)
next
  fix c :: "'a \<Rightarrow> 'a \<Rightarrow> int" and xs a
  assume c: "consistent c (set xs)" and "a \<in> set xs"
  then obtain i where "i < length xs" "a = xs ! i" by (auto simp: in_set_conv_nth)
  then have i: "(i, a) \<in> set (enumerate 0 xs)" by (simp add: in_enumerate)
  note mem = array_sort.sort_set [OF assms, of "asks b c" "enumerate 0 xs"]
  have zero: "filter (\<lambda>p. c a (snd p) = 0) ys = filter (\<lambda>p. asks b c (i, a) p = 0) ys" if "set ys = set (enumerate 0 xs)" for ys
    using asks_signs(2) [OF c i, of _ b] that by (intro filter_cong) simp_all
  have f: "filter (\<lambda>q. c a q = 0) (map snd ys) = map snd (filter (\<lambda>p. c a (snd p) = 0) ys)" for ys :: "(nat \<times> 'a) list"
    by (simp add: filter_map comp_def)
  have "filter (\<lambda>q. c a q = 0) (engine_sort srt b c xs) = map snd (filter (\<lambda>p. asks b c (i, a) p = 0) (srt (asks b c) (enumerate 0 xs)))"
    unfolding engine_sort_def f zero [OF mem] ..
  also have "\<dots> = map snd (filter (\<lambda>p. c a (snd p) = 0) (enumerate 0 xs))"
    unfolding array_sort.sort_stable [OF assms asks_consistent [OF c] i] zero [OF refl] ..
  also have "\<dots> = filter (\<lambda>q. c a q = 0) xs" unfolding f [symmetric] by simp
  finally show "filter (\<lambda>q. c a q = 0) (engine_sort srt b c xs) = filter (\<lambda>q. c a q = 0) xs" .
qed

interpretation engine: array_sort "engine_sort js_sort b"
  by (rule engine_array_sort [OF js.array_sort_axioms])

text \<open>The insertion sort is an engine that passes the later element first.\<close>

lemma ins_asks:
  "\<forall>p \<in> set ps. fst p < i \<Longrightarrow> map snd (ins (asks True c) (i, x) ps) = ins c x (map snd ps)"
  by (induction ps) (auto simp: asks_def)

lemma js_sort_asks_later: "engine_sort js_sort True c xs = js_sort c xs"
proof -
  have "\<forall>p \<in> set ps. fst p < n \<Longrightarrow> map snd (fold (ins (asks True c)) (enumerate n xs) ps) = fold (ins c) xs (map snd ps)" for n ps
  proof (induction xs arbitrary: n ps)
    case (Cons x xs)
    then have "\<forall>p \<in> set (ins (asks True c) (n, x) ps). fst p < Suc n" by (auto simp: set_ins less_Suc_eq)
    with Cons ins_asks show ?case by (simp add: ins_asks)
  qed simp
  from this [of "[]" 0] show ?thesis by (simp add: engine_sort_def js_sort_def)
qed

section \<open>The text comparator\<close>

lemma js_str_less_linear: "\<not> js_str_less b a \<Longrightarrow> \<not> js_str_less c b \<Longrightarrow> \<not> js_str_less c a"
  using js_str_less_total js_str_less_trans by metis

text \<open>It never returns 0: an engine sees texts ordered by their code units, equal ones by position.\<close>

definition text_before :: "bool \<Rightarrow> jstring \<times> nat \<Rightarrow> jstring \<times> nat \<Rightarrow> bool" where
  "text_before later_first p q \<longleftrightarrow> js_str_less (fst p) (fst q)
     \<or> fst p = fst q \<and> (if later_first then snd q < snd p else snd p < snd q)"

lemma text_before_order:
  "text_before b p q \<Longrightarrow> \<not> text_before b q p" "text_before b p q \<Longrightarrow> text_before b q r \<Longrightarrow> text_before b p r"
  "\<not> text_before b p q \<Longrightarrow> \<not> text_before b q p \<Longrightarrow> p = q"
proof -
  show "text_before b p q \<Longrightarrow> \<not> text_before b q p"
    unfolding text_before_def using js_str_less_asym by (metis order_less_asym)
  show "text_before b p q \<Longrightarrow> text_before b q r \<Longrightarrow> text_before b p r"
    unfolding text_before_def using js_str_less_trans [of "fst p" "fst q" "fst r"] by (cases b) auto
  show "\<not> text_before b p q \<Longrightarrow> \<not> text_before b q p \<Longrightarrow> p = q"
    unfolding text_before_def using js_str_less_total by (metis linorder_neqE_nat prod.collapse)
qed

section \<open>Clicks\<close>

lemma sort_outcome:
  "sortTableByColumn srt rnd column asc t = Done t' \<Longrightarrow>
   column < length (headers t) \<and> headers t' = mark_headers column asc (headers t)
   \<and> rows t' = srt (\<lambda>a b. compare_texts rnd (column_type (headers t ! column)) asc
        (cell_text column a) (cell_text column b)) (rows t)"
  by (auto simp: sortTableByColumn_def Let_def split: if_splits)

lemma mark_headers_nth:
  "i < length hs \<Longrightarrow> column < length hs \<Longrightarrow> mark_headers column asc hs ! i =
     (hs ! i)\<lparr>h_asc := (i = column \<and> asc), h_desc := (i = column \<and> \<not> asc)\<rparr>"
  by (auto simp: mark_headers_def nth_list_update)

lemma length_mark_headers [simp]: "length (mark_headers column asc hs) = length hs"
  by (simp add: mark_headers_def)

definition sortable :: "nat \<Rightarrow> table \<Rightarrow> bool" where
  "sortable i t \<longleftrightarrow> i < length (headers t) \<and> (\<forall>r \<in> set (rows t). i < length r)"

lemma click_step:
  assumes "array_sort srt" and "sortable i t" and "t' = state_of (on_header_click srt rnd i t)"
  shows "sortable i t' \<and> length (headers t') = length (headers t)
     \<and> headers t' = mark_headers i (\<not> h_asc (headers t ! i)) (headers t)"
proof -
  have "on_header_click srt rnd i t = Done t'"
    using assms(2,3)
    by (auto simp: on_header_click_def sortTableByColumn_def sortable_def Let_def)
  from sort_outcome [OF this [unfolded on_header_click_def Let_def]] show ?thesis
    using assms(2) array_sort.sort_set [OF assms(1)] by (simp add: sortable_def)
qed

lemma click_many:
  assumes "array_sort srt" and "sortable i t"
  shows "sortable i (click_header srt rnd k i t)
     \<and> length (headers (click_header srt rnd k i t)) = length (headers t)
     \<and> h_asc (headers (click_header srt rnd k i t) ! i) = (h_asc (headers t ! i) \<noteq> odd k)"
  using assms(2)
proof (induction k arbitrary: t)
  case 0
  then show ?case by simp
next
  case (Suc k)
  let ?t = "state_of (on_header_click srt rnd i t)"
  note c = click_step [OF assms(1) Suc.prems refl, of rnd]
  then have "h_asc (headers ?t ! i) = (\<not> h_asc (headers t ! i))"
    using Suc.prems by (simp add: mark_headers_nth sortable_def)
  with Suc.IH [of ?t] c show ?case by auto
qed

section \<open>Sorting by a key\<close>

lemma key_compare_signs:
  assumes "\<And>x y. lt x y \<Longrightarrow> \<not> lt y x"
  shows "key_compare lt k asc a b \<le> 0 \<longleftrightarrow> (if asc then \<not> lt (k b) (k a) else \<not> lt (k a) (k b))"
    and "key_compare lt k asc a b = 0 \<longleftrightarrow> \<not> lt (k a) (k b) \<and> \<not> lt (k b) (k a)"
  using assms [of "k a" "k b"] by (auto simp: key_compare_def dirModifier_def)

lemma consistent_cong:
  assumes "\<And>a b. a \<in> S \<Longrightarrow> b \<in> S \<Longrightarrow> c a b = d a b"
  shows "consistent c S = consistent d S"
  unfolding consistent_def using assms by (simp cong: ball_cong)

lemma sort_by_key:
  assumes "array_sort srt"
    and asym: "\<And>x y. lt x y \<Longrightarrow> \<not> lt y x" and trans: "\<And>x y z. lt x y \<Longrightarrow> lt y z \<Longrightarrow> lt x z"
    and total: "\<And>a b. a \<in> set xs \<Longrightarrow> b \<in> set xs \<Longrightarrow> \<not> lt (k a) (k b) \<Longrightarrow> \<not> lt (k b) (k a) \<Longrightarrow> k a = k b"
    and eq: "\<And>a b. a \<in> set xs \<Longrightarrow> b \<in> set xs \<Longrightarrow> c a b = key_compare lt k asc a b"
  shows "sorted_wrt (\<lambda>a b. if asc then \<not> lt (k b) (k a) else \<not> lt (k a) (k b)) (srt c xs)"
    and "filter (\<lambda>r. k r = v) (srt c xs) = filter (\<lambda>r. k r = v) xs"
proof -
  have "consistent (key_compare lt k asc) (set xs)"
    using asym trans total by (rule key_compare_consistent)
  then have c: "consistent c (set xs)" using consistent_cong [of "set xs" c "key_compare lt k asc"] eq by simp
  have mem: "set (srt c xs) = set xs" by (rule array_sort.sort_set [OF assms(1)])
  have le: "if asc then \<not> lt (k b) (k a) else \<not> lt (k a) (k b)"
    if "a \<in> set xs" "b \<in> set xs" "c a b \<le> 0" for a b
    using key_compare_signs(1) [of lt k asc a b, OF asym] eq [OF that(1,2)] that(3) by (simp only:)
  show "sorted_wrt (\<lambda>a b. if asc then \<not> lt (k b) (k a) else \<not> lt (k a) (k b)) (srt c xs)"
    by (rule sorted_wrt_mono_rel [OF le array_sort.sort_sorted [OF assms(1) c]])
      (simp_all only: mem)
  show "filter (\<lambda>r. k r = v) (srt c xs) = filter (\<lambda>r. k r = v) xs"
  proof (cases "\<exists>a \<in> set xs. k a = v")
    case True
    then obtain a where a: "a \<in> set xs" "k a = v" by blast
    have zero: "k b = v \<longleftrightarrow> c a b = 0" if "b \<in> set xs" for b
      using key_compare_signs(2) [of lt k asc a b, OF asym] eq [OF a(1) that] total [OF a(1) that]
        asym [of v v] a(2) by metis
    have "filter (\<lambda>r. k r = v) ys = filter (\<lambda>b. c a b = 0) ys" if "set ys = set xs" for ys
      using zero that by (intro filter_cong) auto
    with array_sort.sort_stable [OF assms(1) c a(1)] mem show ?thesis by simp
  next
    case False
    then show ?thesis using mem by (simp add: filter_False)
  qed
qed

lemma asks_text:
  assumes "type \<noteq> lit ''number''" and "p \<in> set (enumerate 0 xs)" and "q \<in> set (enumerate 0 xs)"
  shows "asks b (\<lambda>x y. compare_texts rnd type asc (g x) (g y)) p q
    = key_compare (text_before b) (\<lambda>p. (g (snd p), fst p)) asc p q"
proof -
  have same: "g (snd p) = g (snd q)" if "fst p = fst q" using that assms(2,3) by (simp add: in_enumerate)
  consider "js_str_less (g (snd p)) (g (snd q))" | "g (snd p) = g (snd q)" | "js_str_less (g (snd q)) (g (snd p))"
    using js_str_less_total by blast
  then show ?thesis
  proof cases
    case 2
    then show ?thesis using assms(1) js_str_less_irrefl
      by (auto simp: asks_def compare_texts_def key_compare_def text_before_def dirModifier_def)
  qed (use assms(1) same js_str_less_asym js_str_less_irrefl in
      \<open>auto simp: asks_def compare_texts_def key_compare_def text_before_def dirModifier_def\<close>)
qed

text \<open>A list of numbers sorted strictly, and one with the same elements sorted the other way.\<close>

lemma ordered_unique:
  fixes xs ys :: "nat list"
  assumes "mset xs = mset ys" and "sorted ys" and "sorted_wrt (\<lambda>i j. if up then i \<le> j else j \<le> i) xs"
  shows "xs = (if up then ys else rev ys)"
proof (cases up)
  case True
  with assms show ?thesis using properties_for_sort [of xs ys] by (simp add: sort_key_id_if_sorted)
next
  case False
  with assms(3) have "sorted (rev xs)" by (simp add: sorted_wrt_rev)
  with assms(1,2) have "rev xs = ys" using properties_for_sort [of "rev xs" ys] by (simp add: sort_key_id_if_sorted)
  with False show ?thesis by auto
qed

lemma engine_texts:
  assumes "array_sort srt" and "type \<noteq> lit ''number''"
    and "c = (\<lambda>x y. compare_texts rnd type asc (g x) (g y))"
  shows "sorted_wrt (\<lambda>x y. if asc then \<not> js_str_less (g y) (g x) else \<not> js_str_less (g x) (g y)) (engine_sort srt b c xs)"
    and "filter (\<lambda>x. g x = s) (engine_sort srt b c xs) =
      (if asc = b then rev (filter (\<lambda>x. g x = s) xs) else filter (\<lambda>x. g x = s) xs)"
proof -
  let ?E = "enumerate 0 xs" and ?k = "\<lambda>p. (g (snd p), fst p)"
  let ?ys = "srt (asks b c) ?E"
  have mem: "set ?ys = set ?E" by (rule array_sort.sort_set [OF assms(1)])
  have ord: "sorted_wrt (\<lambda>p q. if asc then \<not> text_before b (?k q) (?k p) else \<not> text_before b (?k p) (?k q)) ?ys"
    unfolding assms(3)
    by (rule sort_by_key(1) [where k = ?k and lt = "text_before b" and asc = asc, OF assms(1) text_before_order
          asks_text [OF assms(2)]])
  then have "sorted_wrt (\<lambda>p q. if asc then \<not> js_str_less (g (snd q)) (g (snd p)) else \<not> js_str_less (g (snd p)) (g (snd q))) ?ys"
    by (rule sorted_wrt_mono_rel [rotated]) (auto simp: text_before_def split: if_splits)
  then show "sorted_wrt (\<lambda>x y. if asc then \<not> js_str_less (g y) (g x) else \<not> js_str_less (g x) (g y)) (engine_sort srt b c xs)"
    by (simp add: engine_sort_def sorted_wrt_map)
  let ?zs = "filter (\<lambda>p. g (snd p) = s) ?ys" and ?ws = "filter (\<lambda>p. g (snd p) = s) ?E"
  have "sorted_wrt (\<lambda>p q. if asc \<noteq> b then fst p \<le> fst q else fst q \<le> fst p) ?zs"
    by (rule sorted_wrt_mono_rel [OF _ sorted_wrt_filter [OF ord]]) (auto simp: text_before_def split: if_splits)
  then have z: "sorted_wrt (\<lambda>i j. if asc \<noteq> b then i \<le> j else j \<le> i) (map fst ?zs)" by (simp only: sorted_wrt_map)
  have "mset ?zs = mset ?ws" using array_sort.sort_perm [OF assms(1)] by (simp only: mset_filter)
  then have m: "mset (map fst ?zs) = mset (map fst ?ws)" by (simp only: mset_map)
  have "sorted (map fst ?E)" by simp
  then have "sorted_wrt (\<lambda>p q. fst p \<le> fst q) ?E" by (simp only: sorted_wrt_map)
  then have w: "sorted (map fst ?ws)" unfolding sorted_wrt_map by (rule sorted_wrt_filter)
  have row: "map snd ps = map (\<lambda>i. xs ! i) (map fst ps)" if "set ps \<subseteq> set ?E" for ps
    using that by (induction ps) (simp_all add: in_enumerate)
  have rows: "map snd ?zs = map (\<lambda>i. xs ! i) (map fst ?zs)" "map snd ?ws = map (\<lambda>i. xs ! i) (map fst ?ws)"
    by (rule row; use mem in \<open>simp add: subset_iff\<close>)+
  have f: "filter (\<lambda>x. g x = s) (map snd ps) = map snd (filter (\<lambda>p. g (snd p) = s) ps)" for ps :: "(nat \<times> 'a) list"
    by (simp add: filter_map comp_def)
  have "filter (\<lambda>x. g x = s) (engine_sort srt b c xs) = map snd ?zs" unfolding engine_sort_def by (rule f)
  also have "\<dots> = (if asc = b then rev (map snd ?ws) else map snd ?ws)"
    unfolding rows ordered_unique [OF m w z] by (simp only: rev_map if_not_P if_P split: if_split) simp
  also have "map snd ?ws = filter (\<lambda>x. g x = s) xs" unfolding f [symmetric] by simp
  finally show "filter (\<lambda>x. g x = s) (engine_sort srt b c xs) =
      (if asc = b then rev (filter (\<lambda>x. g x = s) xs) else filter (\<lambda>x. g x = s) xs)" .
qed

section \<open>Properties\<close>

text \<open>
  C32: Sorting never loses, adds or changes a row, whatever the cells hold and whatever the
  comparator does: with any \<open>sort\<close> that meets the language's contract the rows are a permutation
  of the old ones, exactly the sorted column is marked, in the direction sorted, and when the
  code throws the table is untouched.
\<close>

theorem sort_permutes_rows:
  assumes "array_sort srt"
  shows "case sortTableByColumn srt rnd column asc t of
      Thrown e t' \<Rightarrow> t' = t
    | Done t' \<Rightarrow> mset (rows t') = mset (rows t) \<and> length (headers t') = length (headers t)
        \<and> (\<forall>i < length (headers t).
             (h_asc (headers t' ! i) \<longleftrightarrow> i = column \<and> asc)
           \<and> (h_desc (headers t' ! i) \<longleftrightarrow> i = column \<and> \<not> asc))"
proof (cases "sortTableByColumn srt rnd column asc t")
  case (Done t')
  with sort_outcome [OF Done] array_sort.sort_perm [OF assms] show ?thesis
    by (simp add: mark_headers_nth)
next
  case (Thrown e t')
  then show ?thesis by (auto simp: sortTableByColumn_def Let_def split: if_splits)
qed

definition table_w :: table where
  "table_w = \<lparr>headers = [\<lparr>h_type = lit ''number'', h_asc = False, h_desc = False\<rparr>],
     rows = [[lit ''12%''], [lit ''7%'']]\<rparr>"

lemma sort_permutes_rows_witness:
  "case sortTableByColumn js_sort round64 0 True table_w of
      Thrown e t' \<Rightarrow> t' = table_w
    | Done t' \<Rightarrow> mset (rows t') = mset (rows table_w)"
  using sort_permutes_rows [OF js.array_sort_axioms, where rnd = round64 and column = 0 and asc = True and t = table_w]
  by (simp split: outcome.splits)

text \<open>
  C11: A number column without NaN cells is sorted by value, in binary64, and rows of equal value
  keep their order, in both directions: the comparator is consistent although it subtracts in
  floating point.
\<close>

theorem number_column_sorted:
  assumes "array_sort srt" and "sortTableByColumn srt round64 column asc t = Done t'"
    and "column_type (headers t ! column) = lit ''number''"
    and "\<forall>r \<in> set (rows t). cell_number round64 (cell_text column r) \<noteq> NaN"
  shows "let value = (\<lambda>r. cell_number round64 (cell_text column r)) in
     sorted_wrt (\<lambda>a b. if asc then \<not> num_less (value b) (value a) else \<not> num_less (value a) (value b)) (rows t')
     \<and> (\<forall>v. filter (\<lambda>r. value r = v) (rows t') = filter (\<lambda>r. value r = v) (rows t))"
proof -
  let ?v = "\<lambda>r. cell_number round64 (cell_text column r)"
  let ?c = "\<lambda>a b. compare_texts round64 (lit ''number'') asc (cell_text column a) (cell_text column b)"
  have r: "rows t' = srt ?c (rows t)" using sort_outcome [OF assms(2)] assms(3) by simp
  have eq: "?c a b = key_compare num_less ?v asc a b" if "a \<in> set (rows t)" "b \<in> set (rows t)" for a b
    using compare_numbers [OF binary64_gradual.gradual_axioms] assms(4) that
    by (simp add: key_compare_def)
  have total: "?v a = ?v b" if "a \<in> set (rows t)" "b \<in> set (rows t)"
      "\<not> num_less (?v a) (?v b)" "\<not> num_less (?v b) (?v a)" for a b
    using that assms(4) num_less_total by blast
  have "sorted_wrt (\<lambda>a b. if asc then \<not> num_less (?v b) (?v a) else \<not> num_less (?v a) (?v b)) (srt ?c (rows t))"
    by (rule sort_by_key(1) [where lt = num_less and k = ?v and asc = asc, OF assms(1)])
      (fact num_less_asym num_less_trans total eq)+
  moreover have "filter (\<lambda>r. ?v r = v) (srt ?c (rows t)) = filter (\<lambda>r. ?v r = v) (rows t)" for v
    by (rule sort_by_key(2) [where lt = num_less and k = ?v and asc = asc, OF assms(1)])
      (fact num_less_asym num_less_trans total eq)+
  ultimately show ?thesis unfolding r Let_def by blast
qed

lemma table_w_numbers: "cell_number round64 (cell_text 0 [lit ''12%'']) \<noteq> NaN"
  "cell_number round64 (cell_text 0 [lit ''7%'']) \<noteq> NaN"
  by (simp_all add: cell_number_def cell_text_def js_trim_def trim_start_def lit_def js_space_def
      parseFloat_def scan_decimal_def take_sign_def take_digits_def is_digit_def take_fraction_def
      take_exponent_def to_num_def digits_value_def digit_value_def)

lemma number_column_sorted_witness:
  "\<exists>t'. sortTableByColumn js_sort round64 0 True table_w = Done t'
     \<and> sorted_wrt (\<lambda>a b. \<not> num_less (cell_number round64 (cell_text 0 b)) (cell_number round64 (cell_text 0 a))) (rows t')"
proof -
  obtain t' where t': "sortTableByColumn js_sort round64 0 True table_w = Done t'"
    by (auto simp: sortTableByColumn_def table_w_def)
  have "column_type (headers table_w ! 0) = lit ''number''"
    by (simp add: table_w_def column_type_def lit_def)
  moreover have "\<forall>r \<in> set (rows table_w). cell_number round64 (cell_text 0 r) \<noteq> NaN"
    using table_w_numbers by (simp add: table_w_def)
  ultimately show ?thesis
    using number_column_sorted [OF js.array_sort_axioms t'] t' by (simp add: Let_def)
qed

text \<open>
  C33: A text column (any type but \<open>number\<close>) is sorted by code units, but not stably.  The comparator
  never answers 0, so the language leaves the order to the engine: in one that always passes the later
  row first (V8) an ascending sort reverses the rows of equal text and a descending one keeps their
  order, in one that always passes it second (SpiderMonkey) it is the other way round.  Whatever sort the engine
  uses, in exactly one of the two directions repeating the same sort moves rows.
\<close>

theorem text_column_sorted:
  assumes "array_sort srt" and "sortTableByColumn (engine_sort srt later_first) rnd column asc t = Done t'"
    and "column_type (headers t ! column) \<noteq> lit ''number''"
  shows "sorted_wrt (\<lambda>a b. if asc then \<not> js_str_less (cell_text column b) (cell_text column a)
                         else \<not> js_str_less (cell_text column a) (cell_text column b)) (rows t')
     \<and> (\<forall>s. filter (\<lambda>r. cell_text column r = s) (rows t') =
           (if asc = later_first then rev (filter (\<lambda>r. cell_text column r = s) (rows t))
            else filter (\<lambda>r. cell_text column r = s) (rows t)))"
proof -
  let ?c = "\<lambda>a b. compare_texts rnd (column_type (headers t ! column)) asc (cell_text column a) (cell_text column b)"
  have "rows t' = engine_sort srt later_first ?c (rows t)" using sort_outcome [OF assms(2)] by simp
  with engine_texts [OF assms(1,3) refl] show ?thesis by simp
qed

lemma text_column_sorted_witness:
  "let t = \<lparr>headers = [\<lparr>h_type = [], h_asc = False, h_desc = False\<rparr>],
            rows = [[lit ''a'', lit ''1''], [lit ''a'', lit ''2'']]\<rparr>
   in \<exists>t' t''. sortTableByColumn (engine_sort js_sort True) round64 0 True t = Done t'
        \<and> filter (\<lambda>r. cell_text 0 r = lit ''a'') (rows t') = [[lit ''a'', lit ''2''], [lit ''a'', lit ''1'']]
        \<and> sortTableByColumn (engine_sort js_sort False) round64 0 True t = Done t''
        \<and> filter (\<lambda>r. cell_text 0 r = lit ''a'') (rows t'') = [[lit ''a'', lit ''1''], [lit ''a'', lit ''2'']]"
proof -
  let ?t = "\<lparr>headers = [\<lparr>h_type = [], h_asc = False, h_desc = False\<rparr>],
            rows = [[lit ''a'', lit ''1''], [lit ''a'', lit ''2'']]\<rparr>"
  obtain t' t'' where t: "sortTableByColumn (engine_sort js_sort True) round64 0 True ?t = Done t'"
      "sortTableByColumn (engine_sort js_sort False) round64 0 True ?t = Done t''"
    by (auto simp: sortTableByColumn_def)
  have a: "cell_text 0 [lit ''a'', x] = lit ''a''" for x
    by (simp add: cell_text_def js_trim_def trim_start_def lit_def js_space_def)
  have n: "column_type (headers ?t ! 0) \<noteq> lit ''number''" by (simp add: column_type_def lit_def)
  note js = js.array_sort_axioms
  have "filter (\<lambda>r. cell_text 0 r = lit ''a'') (rows t') = rev (filter (\<lambda>r. cell_text 0 r = lit ''a'') (rows ?t))"
    "filter (\<lambda>r. cell_text 0 r = lit ''a'') (rows t'') = filter (\<lambda>r. cell_text 0 r = lit ''a'') (rows ?t)"
    using text_column_sorted [OF js t(1) n] text_column_sorted [OF js t(2) n] by (simp_all only: if_True if_False simp_thms)
  with t show ?thesis by (simp add: Let_def a)
qed

text \<open>
  The text comparator is inconsistent: it calls an element less than its equal, and even than
  itself, in one direction and greater in the other, so the language leaves the order of the
  rows to the engine as soon as the table is not empty.
\<close>

theorem text_comparator_inconsistent:
  assumes "type \<noteq> lit ''number''" and "cell_text column r = s" and "r \<in> S"
  shows "compare_texts rnd type asc s s = - dirModifier asc
     \<and> \<not> consistent (\<lambda>a b. compare_texts rnd type asc (cell_text column a) (cell_text column b)) S"
proof -
  have "compare_texts rnd type asc s s = - dirModifier asc"
    using assms(1) by (simp add: compare_texts_def)
  moreover have "- dirModifier asc \<noteq> 0" by (simp add: dirModifier_def)
  ultimately show ?thesis
    using consistent_refl [of "\<lambda>a b. compare_texts rnd type asc (cell_text column a) (cell_text column b)" S r]
      assms(2,3) by auto
qed

lemma text_comparator_inconsistent_witness:
  "\<not> consistent (\<lambda>a b. compare_texts round64 (lit ''string'') True (cell_text 0 a) (cell_text 0 b)) {[lit ''x'']}"
  using text_comparator_inconsistent [of "lit ''string''" 0 "[lit ''x'']" _ "{[lit ''x'']}" round64 True]
  by (simp add: lit_def)

text \<open>
  One click on a header turns its direction over; but with \<open>k\<close> copies of the listener, which
  the page gets when fragments with the same script are swapped in, a click turns it over \<open>k\<close>
  times: with an even number of copies a column that is not ascending never becomes so.
\<close>

theorem header_click_parity:
  assumes "array_sort srt" and "sortable i t"
  shows "h_asc (headers (click_header srt rnd k i t) ! i) = (h_asc (headers t ! i) \<noteq> odd k)"
  using click_many [OF assms] by blast

lemma header_click_parity_witness:
  "\<not> h_asc (headers (click_header js_sort round64 2 0 table_w) ! 0)
   \<and> h_asc (headers (click_header js_sort round64 3 0 table_w) ! 0)"
proof -
  have "sortable 0 table_w" by (simp add: sortable_def table_w_def)
  from header_click_parity [OF js.array_sort_axioms this, of round64 2]
    header_click_parity [OF js.array_sort_axioms this, of round64 3]
  show ?thesis by (simp add: table_w_def)
qed

end
