(* ===== verification/Js_Digits.thy ===== *)
theory Js_Digits
  imports Table_Sort
begin

text \<open>
  Decimal numerals as texts: what \<open>nat_str\<close> writes consists of digits, and the scanner of \<open>Table_Sort\<close>
  reads the same number back.
\<close>

lemma digit_unit: "n < 10 \<Longrightarrow> is_digit (48 + of_nat n) \<and> digit_value (48 + of_nat n) = n"
proof -
  assume "n < 10"
  then have "n \<in> {0, 1, 2, 3, 4, 5, 6, 7, 8, 9}" by auto
  then show ?thesis by (elim insertE) (simp_all add: is_digit_def digit_value_def)
qed

lemma nat_str_digits: "list_all is_digit (nat_str n) \<and> digits_value (nat_str n) = n"
proof (induction n rule: nat_str.induct)
  case (1 n)
  show ?case
  proof (cases "n < 10")
    case True
    then show ?thesis using digit_unit [of n] by (subst (1 2) nat_str.simps) (simp add: digits_value_def)
  next
    case False
    then have IH: "list_all is_digit (nat_str (n div 10))" "digits_value (nat_str (n div 10)) = n div 10" using 1 by simp_all
    have "digits_value (xs @ [u]) = 10 * digits_value xs + digit_value u" for xs u by (simp add: digits_value_def)
    then show ?thesis
      using False IH digit_unit [of "n mod 10"] by (subst (1 2) nat_str.simps) simp
  qed
qed

lemma digit_not_space: "is_digit u \<Longrightarrow> \<not> js_space u"
  by (auto simp: is_digit_def js_space_def word_le_nat_alt)

lemma trim_digits:
  assumes "list_all is_digit s"
  shows "js_trim s = s"
proof -
  have "dropWhile js_space s = s" if "list_all is_digit s" for s
    using that digit_not_space by (cases s) simp_all
  with assms show ?thesis by (simp add: js_trim_def trim_start_def)
qed

lemma digits_all: "list_all is_digit s \<Longrightarrow> takeWhile is_digit s = s \<and> dropWhile is_digit s = []"
  by (simp add: takeWhile_eq_all_conv dropWhile_eq_Nil_conv list_all_iff)

lemma scan_digits:
  assumes "list_all is_digit s" and "s \<noteq> []"
  shows "scan_decimal s = Some (False, Some (real (digits_value s)), [])"
proof -
  obtain u t where s: "s = u # t" using assms(2) by (cases s) auto
  then have "is_digit u" using assms(1) by simp
  then have "u \<noteq> 45" "u \<noteq> 43" "u \<noteq> 73" by (auto simp: is_digit_def)
  then have "take_sign s = (False, s)" "take 8 s \<noteq> lit ''Infinity''" by (simp_all add: s take_sign_def lit_def)
  with assms(2) show ?thesis
    by (simp add: scan_decimal_def take_digits_def take_fraction_def take_exponent_def
        digits_all [OF assms(1), THEN conjunct1] digits_all [OF assms(1), THEN conjunct2])
qed

lemma not_radix: "list_all is_digit s \<Longrightarrow> \<not> radix_literal s"
  by (auto simp: radix_literal_def is_digit_def split: list.split)

lemma nat_str_free: "\<not> is_digit u \<Longrightarrow> u \<notin> set (nat_str n)"
  using nat_str_digits [of n] by (auto simp: list_all_iff)

end
