(* ===== verification/Event_Machine.thy ===== *)
theory Event_Machine
  imports Main
begin

text \<open>
  Components that react to events: a step function from an event and a state to a state, run over
  a list of events with \<open>fold\<close>.  \<open>kept\<close> is the contract of an invariant, \<open>simulation\<close> that of a
  detailed machine which behaves like an abstract one.
\<close>

locale kept =
  fixes step :: "'e \<Rightarrow> 's \<Rightarrow> 's"
    and inv :: "'s \<Rightarrow> bool"
  assumes step_inv: "inv s \<Longrightarrow> inv (step e s)"
begin

lemma run_inv: "inv s \<Longrightarrow> inv (fold step es s)"
  by (induction es arbitrary: s) (simp_all add: step_inv)

end

text \<open>\<open>obs e s\<close> are the events of the abstract machine that the step \<open>e\<close> from \<open>s\<close> performs.\<close>

locale simulation = kept step inv
  for step :: "'e \<Rightarrow> 's \<Rightarrow> 's" and inv :: "'s \<Rightarrow> bool" +
  fixes astep :: "'f \<Rightarrow> 'a \<Rightarrow> 'a"
    and abs :: "'s \<Rightarrow> 'a"
    and obs :: "'e \<Rightarrow> 's \<Rightarrow> 'f list"
  assumes step_abs: "inv s \<Longrightarrow> abs (step e s) = fold astep (obs e s) (abs s)"
begin

primrec trace :: "'e list \<Rightarrow> 's \<Rightarrow> 'f list" where
  "trace [] s = []"
| "trace (e # es) s = obs e s @ trace es (step e s)"

lemma run_abs: "inv s \<Longrightarrow> abs (fold step es s) = fold astep (trace es s) (abs s)"
  by (induction es arbitrary: s) (simp_all add: step_inv step_abs)

lemma run_reaches: "inv s \<Longrightarrow> \<exists>fs. abs (fold step es s) = fold astep fs (abs s)"
  using run_abs by blast

end

end
