(* ===== verification/Access_Renewal.thy ===== *)
theory Access_Renewal
  imports Js_Digits Event_Machine
begin

text \<open>
  The inline script of \<open>templates/base.html\<close> that keeps the access cookie of an open page alive, with
  the cookies that \<open>lib/auth.py\<close> sets: the server issues a token together with a readable cookie
  that says when to renew it, and the page asks for a new one at that time.  Times are milliseconds
  since the epoch.
\<close>

section \<open>The server's cookies\<close>

text \<open>
  \<open>issue_access_token\<close>: the token's end, in whole seconds as a JWT holds it, and
  \<open>renew_at_cookie_header_value\<close>: the name and value of the readable cookie.  The two read the clock
  apart: \<open>issued\<close> is before the page is made, \<open>w\<close> when its answer starts.
\<close>

definition token_expiry :: "int \<Rightarrow> int \<Rightarrow> int" where
  "token_expiry ttl issued = (issued div 1000 + ttl) * 1000"

definition renew_at :: "int \<Rightarrow> int \<Rightarrow> int" where
  "renew_at ttl w = w div 1000 + ttl div 2"

definition cookieName :: jstring where
  "cookieName = lit ''st_access_renew_at''"

definition renew_at_cookie :: "int \<Rightarrow> int \<Rightarrow> jstring" where
  "renew_at_cookie ttl w = cookieName @ lit ''='' @ int_str (renew_at ttl w)"

text \<open>\<open>access_cookie_needs_renewal\<close> of a cookie whose token was issued at \<open>issued\<close>.\<close>

definition needs_renewal :: "int \<Rightarrow> int option \<Rightarrow> int \<Rightarrow> bool" where
  "needs_renewal ttl issued t = (case issued of
      None \<Rightarrow> True
    | Some i \<Rightarrow> token_expiry ttl i \<le> t \<or> 2 * (token_expiry ttl i - t) \<le> ttl * 1000)"

section \<open>The script\<close>

text \<open>\<open>document.cookie.split("; ")\<close>.\<close>

fun split_cookies :: "jstring \<Rightarrow> jstring list" where
  "split_cookies [] = [[]]"
| "split_cookies [u] = [[u]]"
| "split_cookies (u # v # s) =
     (if u = 59 \<and> v = 32 then [] # split_cookies s
      else case split_cookies (v # s) of p # ps \<Rightarrow> (u # p) # ps | [] \<Rightarrow> [[u]])"

text \<open>\<open>Number\<close> of a string.\<close>

definition radix_value :: "int \<Rightarrow> jstring \<Rightarrow> int" where
  "radix_value b ds = fold (\<lambda>u n. b * n + (if is_digit u then int (digit_value u)
     else if 97 \<le> u then uint u - 87 else uint u - 55)) ds 0"

definition js_Number :: "(real \<Rightarrow> real) \<Rightarrow> jstring \<Rightarrow> jsnum" where
  "js_Number rnd s =
     (let t = js_trim s in
      if t = [] then Fin 0
      else if radix_literal t
      then to_num rnd False (Some (of_int (radix_value
             (if t ! 1 = 120 \<or> t ! 1 = 88 then 16 else if t ! 1 = 98 \<or> t ! 1 = 66 then 2 else 8) (drop 2 t))))
      else case scan_decimal t of
             Some (neg, v, []) \<Rightarrow> to_num rnd neg v
           | _ \<Rightarrow> NaN)"

definition is_renew_cookie :: "jstring \<Rightarrow> bool" where
  "is_renew_cookie part \<longleftrightarrow> take (Suc (length cookieName)) part = cookieName @ lit ''=''"

definition renewAtSeconds :: "(real \<Rightarrow> real) \<Rightarrow> jstring \<Rightarrow> jsnum option" where
  "renewAtSeconds rnd cookie =
     (let parts = (if cookie \<noteq> [] then split_cookies cookie else [])
      in map_option (\<lambda>p. js_Number rnd (drop (length cookieName + 1) p)) (List.find is_renew_cookie parts))"

text \<open>
  The delay handed to \<open>setTimeout\<close>, \<open>None\<close> when nothing is scheduled, and what the browser makes of
  it: a signed 32-bit number, negative ones being zero, infinity and NaN too.
\<close>

definition renewal_delay :: "(real \<Rightarrow> real) \<Rightarrow> jstring \<Rightarrow> int \<Rightarrow> jsnum option" where
  "renewal_delay rnd cookie t =
     (case renewAtSeconds rnd cookie of
        None \<Rightarrow> None
      | Some NaN \<Rightarrow> None
      | Some (Inf neg) \<Rightarrow> Some (if neg then Fin 1000 else Inf False)
      | Some (Fin r) \<Rightarrow> Some (Fin (max (rnd (rnd (r * 1000) - of_int t)) 1000)))"

definition timeout_ms :: "jsnum \<Rightarrow> int" where
  "timeout_ms n = (case n of Fin x \<Rightarrow> max 0 (signed_take_bit 31 \<lfloor>x\<rfloor>) | _ \<Rightarrow> 0)"

text \<open>\<open>rn_timers\<close>: when the pending timers are due; \<open>rn_fetching\<close>: the requests under way.\<close>

definition without :: "nat \<Rightarrow> 'a list \<Rightarrow> 'a list" where
  "without k xs = take k xs @ drop (Suc k) xs"

record renewal =
  rn_timers :: "int list"
  rn_fetching :: nat

definition scheduleAccessRenewal :: "(real \<Rightarrow> real) \<Rightarrow> jstring \<Rightarrow> int \<Rightarrow> renewal \<Rightarrow> renewal" where
  "scheduleAccessRenewal rnd cookie t s =
     (case renewal_delay rnd cookie t of
        None \<Rightarrow> s
      | Some d \<Rightarrow> s\<lparr>rn_timers := rn_timers s @ [t + timeout_ms d]\<rparr>)"

text \<open>\<open>Settled\<close>: the request was answered or failed; \<open>finally\<close> schedules again.\<close>

datatype renewal_event = TimerDue nat | Settled jstring int

fun on_renewal :: "(real \<Rightarrow> real) \<Rightarrow> renewal_event \<Rightarrow> renewal \<Rightarrow> renewal" where
  "on_renewal rnd (TimerDue k) s =
     (if k < length (rn_timers s)
      then s\<lparr>rn_timers := without k (rn_timers s), rn_fetching := Suc (rn_fetching s)\<rparr>
      else s)"
| "on_renewal rnd (Settled cookie t) s =
     (if rn_fetching s = 0 then s
      else scheduleAccessRenewal rnd cookie t (s\<lparr>rn_fetching := rn_fetching s - 1\<rparr>))"


lemma length_without: "k < length xs \<Longrightarrow> Suc (length (without k xs)) = length xs"
  by (simp add: without_def)

lemma set_without_sub: "set (without k xs) \<subseteq> set xs"
  by (auto simp: without_def dest: in_set_takeD in_set_dropD)

lemma set_without: "k < length xs \<Longrightarrow> set xs = insert (xs ! k) (set (without k xs))"
  by (subst id_take_nth_drop [of k xs]) (auto simp: without_def)

section \<open>Reading the cookie back\<close>

lemma Number_nat_str:
  assumes "real n < 2 ^ 1023"
  shows "js_Number rnd (nat_str n) = Fin (rnd (real n))"
proof -
  note d = nat_str_digits [of n]
  have "real n < 2 ^ 1024 - 2 ^ 970" using assms by simp
  then have "to_num rnd False (Some (real n)) = Fin (rnd (real n))" by (simp add: to_num_def)
  with d show ?thesis
    by (simp add: js_Number_def trim_digits not_radix scan_digits)
qed

lemma split_single: "59 \<notin> set s \<Longrightarrow> s \<noteq> [] \<Longrightarrow> split_cookies s = [s]"
  by (induction s rule: split_cookies.induct) auto

lemma split_cookies_nonempty [simp]: "split_cookies s \<noteq> []"
  by (induction s rule: split_cookies.induct) (auto split: list.split)

lemma split_append: "59 \<notin> set s \<Longrightarrow> split_cookies (s @ 59 # 32 # r) = s # split_cookies r"
proof (induction s)
  case (Cons u s)
  then show ?case by (cases s) auto
qed simp


lemma split_joined:
  "cs \<noteq> [] \<Longrightarrow> \<forall>c \<in> set cs. 59 \<notin> set c \<and> c \<noteq> [] \<Longrightarrow> split_cookies (js_join (lit ''; '') cs) = cs"
proof (induction cs rule: induct_list012)
  case (2 c)
  then show ?case by (simp add: split_single)
next
  case (3 c d cs)
  then have "split_cookies (js_join (lit ''; '') (d # cs)) = d # cs" by simp
  moreover have "js_join (lit ''; '') (c # d # cs) = c @ 59 # 32 # js_join (lit ''; '') (d # cs)" by (simp add: lit_def)
  ultimately show ?case using 3(4) split_append by simp
qed simp

lemma find_after: "\<forall>x \<in> set xs. \<not> P x \<Longrightarrow> P y \<Longrightarrow> List.find P (xs @ y # ys) = Some y"
  by (induction xs) auto

text \<open>\<open>document.cookie\<close> with the server's cookie among others.\<close>

definition cookie_jar :: "jstring list \<Rightarrow> jstring list \<Rightarrow> int \<Rightarrow> int \<Rightarrow> jstring" where
  "cookie_jar before after ttl issued = js_join (lit ''; '') (before @ renew_at_cookie ttl issued # after)"

definition other_cookies :: "jstring list \<Rightarrow> bool" where
  "other_cookies cs \<longleftrightarrow> (\<forall>c \<in> set cs. 59 \<notin> set c \<and> c \<noteq> [] \<and> \<not> is_renew_cookie c)"

lemma jar_reads_back:
  assumes "other_cookies before" and "other_cookies after" and "0 \<le> renew_at ttl issued" and "renew_at ttl issued \<le> 2 ^ 53"
  shows "renewAtSeconds round64 (cookie_jar before after ttl issued) = Some (Fin (of_int (renew_at ttl issued)))"
proof -
  let ?R = "nat (renew_at ttl issued)" and ?c = "renew_at_cookie ttl issued"
  have c: "?c = cookieName @ lit ''='' @ nat_str ?R" using assms(3) by (simp add: renew_at_cookie_def int_str_def)
  have p: "is_renew_cookie ?c" "59 \<notin> set ?c" "?c \<noteq> []"
    using nat_str_free [of 59] by (simp_all add: is_digit_def c is_renew_cookie_def cookieName_def lit_def)
  let ?cs = "before @ ?c # after"
  have all: "\<forall>c \<in> set ?cs. 59 \<notin> set c \<and> c \<noteq> []" using assms(1,2) p by (auto simp: other_cookies_def)
  have s: "split_cookies (cookie_jar before after ttl issued) = ?cs"
    unfolding cookie_jar_def by (rule split_joined) (use all in simp_all)
  moreover have "cookie_jar before after ttl issued \<noteq> []"
  proof
    assume "cookie_jar before after ttl issued = []"
    with s have "?cs = [[]]" by simp
    then have "[] \<in> set ?cs" by simp
    with all show False by blast
  qed
  moreover have "List.find is_renew_cookie ?cs = Some ?c"
    using assms(1) p(1) by (intro find_after) (auto simp: other_cookies_def)
  moreover have "js_Number round64 (drop (length cookieName + 1) ?c) = Fin (of_int (renew_at ttl issued))"
  proof -
    have "real ?R \<le> 2 ^ 53" using assms(3,4)
      by (metis (mono_tags) int_nat_eq numeral_power_eq_of_int_cancel_iff of_int_le_iff of_int_of_nat_eq)
    also have "(2::real) ^ 53 < 2 ^ 1023" by simp
    finally have "js_Number round64 (nat_str ?R) = Fin (round64 (real ?R))" by (rule Number_nat_str)
    moreover have "round64 (real ?R) = of_int (renew_at ttl issued)"
      using round64_int [of "renew_at ttl issued"] assms(3,4) by simp
    moreover have "drop (length cookieName + 1) ?c = nat_str ?R" by (simp add: c lit_def)
    ultimately show ?thesis by simp
  qed
  ultimately show ?thesis by (simp add: renewAtSeconds_def Let_def)
qed

text \<open>
  C38: The page reads back the time that the server wrote: whatever other cookies there are, the number
  that the script takes from \<open>document.cookie\<close> is exactly \<open>renew_at\<close>, in binary64.
\<close>

theorem renewal_time_read_back:
  assumes "other_cookies before" and "other_cookies after" and "0 \<le> renew_at ttl issued" and "renew_at ttl issued \<le> 2 ^ 53"
  shows "renewAtSeconds round64 (cookie_jar before after ttl issued) = Some (Fin (of_int (renew_at ttl issued)))"
  using assms by (rule jar_reads_back)

lemma renewal_time_read_back_witness:
  "renewAtSeconds round64 (cookie_jar [lit ''theme=dark''] [] 3600 1700000000000) = Some (Fin 1700001800)"
proof -
  have o: "other_cookies [lit ''theme=dark'']" "other_cookies []"
    by (simp_all add: other_cookies_def is_renew_cookie_def cookieName_def lit_def)
  show ?thesis using renewal_time_read_back [OF o, of 3600 1700000000000] by (simp add: renew_at_def)
qed


section \<open>One timer or one request\<close>

definition one_at_a_time :: "renewal \<Rightarrow> bool" where
  "one_at_a_time s \<longleftrightarrow> length (rn_timers s) + rn_fetching s \<le> 1"

lemma renewal_step: "one_at_a_time s \<Longrightarrow> one_at_a_time (on_renewal rnd e s)"
proof (cases e)
  case (Settled cookie t)
  moreover assume "one_at_a_time s"
  ultimately show ?thesis
    by (cases "rn_fetching s") (auto simp: one_at_a_time_def scheduleAccessRenewal_def split: option.split)
qed (auto simp: one_at_a_time_def without_def)

interpretation renewal: kept "on_renewal rnd" one_at_a_time
  by unfold_locales (rule renewal_step)

text \<open>
  The renewals of one run of the script never pile up: from its first call on there is never more than one timer or
  request, whatever the cookies hold and however the requests end.
\<close>

lemma renewals_one_at_a_time:
  "one_at_a_time (fold (on_renewal rnd) es (scheduleAccessRenewal rnd cookie t \<lparr>rn_timers = [], rn_fetching = 0\<rparr>))"
  by (rule renewal.run_inv) (simp add: one_at_a_time_def scheduleAccessRenewal_def split: option.split)

section \<open>A page and its server in time\<close>

text \<open>
  \<open>se_time\<close> is the server's clock.  \<open>se_issued\<close> is when the token in the browser was issued and
  \<open>se_stamp\<close> the second reading of the clock, from which the readable cookie set with it was computed.
  \<open>se_sent\<close> says when each request under way was sent, \<open>se_failed\<close> counts the requests that failed since
  the last one that did not, and \<open>se_runs\<close> how often the script has run: each run starts a chain of
  timers and requests of its own.
\<close>

record session =
  se_time :: int
  se_issued :: int
  se_stamp :: int
  se_sent :: "int list"
  se_failed :: nat
  se_runs :: nat
  se_renewal :: renewal

text \<open>
  The page's clock is \<open>d\<close> ahead of the server's, a timer fires up to \<open>g\<close> late, an answer comes at most
  \<open>l\<close> after its request, and at most \<open>n\<close> requests fail in a row.  Time passes within these bounds; a due
  timer fires; an answer brings a token issued, and a cookie written, after its request was sent; a
  request that fails leaves the cookies as they are; any other request of the browser may bring a
  token, too, and answers may overtake each other, so that an older token replaces a newer one.
  \<open>Rerun\<close>: HTMX swaps a page into the body, as the rows of \<open>realtime/route.html\<close> do, which runs the
  script of \<open>base.html\<close> again while the timers of its earlier runs are still there.
\<close>

inductive session_step :: "(int \<Rightarrow> jstring) \<Rightarrow> nat \<Rightarrow> int \<Rightarrow> int \<Rightarrow> int \<Rightarrow> session \<Rightarrow> session \<Rightarrow> bool" for jar n l g d where
  Pass: "0 \<le> dt \<Longrightarrow> se_time s + dt \<le> 2 ^ 52 \<Longrightarrow> \<forall>due \<in> set (rn_timers (se_renewal s)). se_time s + dt + d \<le> due + g \<Longrightarrow>
     \<forall>sent \<in> set (se_sent s). se_time s + dt \<le> sent + l \<Longrightarrow>
     session_step jar n l g d s (s\<lparr>se_time := se_time s + dt\<rparr>)"
| Fire: "k < length (rn_timers (se_renewal s)) \<Longrightarrow> rn_timers (se_renewal s) ! k \<le> se_time s + d \<Longrightarrow>
     session_step jar n l g d s (s\<lparr>se_sent := se_sent s @ [se_time s],
       se_renewal := on_renewal round64 (TimerDue k) (se_renewal s)\<rparr>)"
| Renewed: "k < length (se_sent s) \<Longrightarrow> se_sent s ! k \<le> i \<Longrightarrow> i \<le> w \<Longrightarrow> w \<le> se_time s \<Longrightarrow>
     session_step jar n l g d s (s\<lparr>se_issued := i, se_stamp := w, se_sent := without k (se_sent s), se_failed := 0,
       se_renewal := on_renewal round64 (Settled (jar w) (se_time s + d)) (se_renewal s)\<rparr>)"
| Failed: "k < length (se_sent s) \<Longrightarrow> se_failed s < n \<Longrightarrow>
     session_step jar n l g d s (s\<lparr>se_sent := without k (se_sent s), se_failed := Suc (se_failed s),
       se_renewal := on_renewal round64 (Settled (jar (se_stamp s)) (se_time s + d)) (se_renewal s)\<rparr>)"
| Elsewhere: "0 \<le> i \<Longrightarrow> se_time s - l \<le> i \<Longrightarrow> i \<le> w \<Longrightarrow> w \<le> se_time s \<Longrightarrow>
     session_step jar n l g d s (s\<lparr>se_issued := i, se_stamp := w\<rparr>)"
| Rerun: "session_step jar n l g d s (s\<lparr>se_runs := Suc (se_runs s),
     se_renewal := scheduleAccessRenewal round64 (jar (se_stamp s)) (se_time s + d) (se_renewal s)\<rparr>)"

text \<open>The page was served at \<open>v\<close>, with a new token unless the old one was fresh enough; its script runs at \<open>t\<close>.\<close>

definition opened :: "(int \<Rightarrow> jstring) \<Rightarrow> int \<Rightarrow> int \<Rightarrow> int \<Rightarrow> session \<Rightarrow> bool" where
  "opened jar ttl l d s \<longleftrightarrow> (\<exists>i w v t. 0 \<le> i \<and> i \<le> w \<and> w \<le> i + l \<and> w \<le> t \<and> i \<le> v \<and> v \<le> t \<and> t \<le> v + l \<and> t \<le> 2 ^ 52
     \<and> \<not> needs_renewal ttl (Some i) v
     \<and> s = \<lparr>se_time = t, se_issued = i, se_stamp = w, se_sent = [], se_failed = 0, se_runs = 1,
            se_renewal = scheduleAccessRenewal round64 (jar w) (t + d) \<lparr>rn_timers = [], rn_fetching = 0\<rparr>\<rparr>)"

text \<open>How long after the issue of the token the timer of some chain is due, after \<open>f\<close> failures.\<close>

definition renewal_bound :: "int \<Rightarrow> int \<Rightarrow> int \<Rightarrow> int \<Rightarrow> nat \<Rightarrow> int" where
  "renewal_bound ttl l g d f = ttl * 500 + l + max (- d) 1000 + int f * (g + l + 1000)"

text \<open>
  Some chain is in time for a token issued at \<open>m\<close>: its timer is due early enough, or its request was sent
  early enough.  Chains started later may be late, but then do no harm.
\<close>

definition in_time :: "int \<Rightarrow> int \<Rightarrow> int \<Rightarrow> int \<Rightarrow> int \<Rightarrow> nat \<Rightarrow> int list \<Rightarrow> int list \<Rightarrow> bool" where
  "in_time ttl l g d m f timers sent \<longleftrightarrow>
     (\<exists>due \<in> set timers. due - d \<le> m + renewal_bound ttl l g d f)
     \<or> (\<exists>t \<in> set sent. t \<le> m + renewal_bound ttl l g d f + g)"

definition session_ok :: "int \<Rightarrow> nat \<Rightarrow> int \<Rightarrow> int \<Rightarrow> int \<Rightarrow> session \<Rightarrow> bool" where
  "session_ok ttl n l g d s \<longleftrightarrow> 0 \<le> se_issued s \<and> se_issued s \<le> se_stamp s \<and> se_stamp s \<le> se_issued s + l
     \<and> se_stamp s \<le> se_time s \<and> se_time s \<le> 2 ^ 52 \<and> se_failed s \<le> n
     \<and> rn_fetching (se_renewal s) = length (se_sent s)
     \<and> length (rn_timers (se_renewal s)) + length (se_sent s) = se_runs s
     \<and> (\<forall>due \<in> set (rn_timers (se_renewal s)). se_time s + d \<le> due + g)
     \<and> (\<forall>t \<in> set (se_sent s). 0 \<le> t \<and> t \<le> se_time s \<and> se_time s \<le> t + l)
     \<and> (\<exists>m. se_issued s \<le> m \<and> m \<le> se_issued s + l \<and> m \<le> se_time s
            \<and> in_time ttl l g d m (se_failed s) (rn_timers (se_renewal s)) (se_sent s))"

text \<open>The script's delay, in exact integers.\<close>

lemma delay_exact:
  assumes "renewAtSeconds round64 jar = Some (Fin (of_int r))" and "0 \<le> r" and "r * 1000 \<le> 2 ^ 53"
    and "0 \<le> t + 2 ^ 52" and "t \<le> 2 ^ 53" and "r * 1000 - t < 2 ^ 31" and "- (2 ^ 53) \<le> r * 1000 - t"
  shows "scheduleAccessRenewal round64 jar t s = s\<lparr>rn_timers := rn_timers s @ [max (r * 1000) (t + 1000)]\<rparr>"
proof -
  have "round64 (of_int r * 1000) = of_int (r * 1000)"
    using round64_int [of "r * 1000"] assms(2,3) by simp
  moreover have "round64 (of_int (r * 1000 - t)) = of_int (r * 1000 - t)"
    using assms(6,7) by (intro round64_int) auto
  ultimately have "renewal_delay round64 jar t = Some (Fin (of_int (max (r * 1000 - t) 1000)))"
    using assms(1) by (simp add: renewal_delay_def of_int_max)
  moreover have "timeout_ms (Fin (of_int (max (r * 1000 - t) 1000))) = max (r * 1000 - t) 1000"
    using assms(6) by (simp add: timeout_ms_def signed_take_bit_int_eq_self)
  moreover have "t + max (r * 1000 - t) 1000 = max (r * 1000) (t + 1000)" by simp
  ultimately show ?thesis by (simp add: scheduleAccessRenewal_def)
qed

text \<open>
  The settings under which the renewals are in time: the clock's error and half the token's life fit
  a browser's timer, and the bound, one more late timer and two latencies end before the token does.
\<close>

definition clocks_fit :: "int \<Rightarrow> nat \<Rightarrow> int \<Rightarrow> int \<Rightarrow> int \<Rightarrow> bool" where
  "clocks_fit ttl n l g d \<longleftrightarrow> 0 < ttl \<and> 0 \<le> l \<and> 0 \<le> g \<and> \<bar>d\<bar> < 2 ^ 31 \<and> ttl * 500 - d < 2 ^ 31
     \<and> renewal_bound ttl l g d n + g + 2 * l + 999 < ttl * 1000"

lemma clocks_fit_pos: "clocks_fit ttl n l g d \<Longrightarrow> 0 < ttl \<and> 0 < ttl * 500 \<and> 0 \<le> l \<and> 0 \<le> g"
  by (simp add: clocks_fit_def)

definition good_jar :: "int \<Rightarrow> (int \<Rightarrow> jstring) \<Rightarrow> bool" where
  "good_jar ttl jar \<longleftrightarrow> (\<forall>i. 0 \<le> i \<and> i \<le> 2 ^ 52 \<longrightarrow> renewAtSeconds round64 (jar i) = Some (Fin (of_int (renew_at ttl i))))"

lemma renew_at_bounds:
  assumes "0 < ttl" and "0 \<le> i"
  shows "0 \<le> renew_at ttl i" "renew_at ttl i * 1000 \<le> i + ttl * 500"
  using assms by (simp_all add: renew_at_def)

lemma schedule_jar:
  assumes j: "good_jar ttl jar" and c: "clocks_fit ttl n l g d" and i: "0 \<le> i" "i \<le> t" and t: "t \<le> 2 ^ 52"
  shows "scheduleAccessRenewal round64 (jar i) (t + d) s
    = s\<lparr>rn_timers := rn_timers s @ [max (renew_at ttl i * 1000) (t + d + 1000)]\<rparr>"
proof -
  note b = renew_at_bounds [of ttl i]
  have c': "0 < ttl" "d < 2 ^ 31" "- d < 2 ^ 31" "ttl * 500 - d < 2 ^ 31" using c by (auto simp: clocks_fit_def)
  have "renewAtSeconds round64 (jar i) = Some (Fin (of_int (renew_at ttl i)))" using j i t by (simp add: good_jar_def)
  moreover have "renew_at ttl i * 1000 \<le> i + ttl * 500" "0 \<le> renew_at ttl i" using b c' i by simp_all
  ultimately show ?thesis using c' i t by (intro delay_exact) simp_all
qed

lemma renewal_bound_props:
  assumes "clocks_fit ttl n l g d"
  shows "renewal_bound ttl l g d f + g + l + 1000 = renewal_bound ttl l g d (Suc f)"
    and "ttl * 500 + l - d \<le> renewal_bound ttl l g d f" and "ttl * 500 + l + 1000 \<le> renewal_bound ttl l g d f"
    and "f \<le> f' \<Longrightarrow> renewal_bound ttl l g d f \<le> renewal_bound ttl l g d f'"
proof -
  have l: "0 \<le> g + l + 1000" using assms by (simp add: clocks_fit_def)
  show "renewal_bound ttl l g d f + g + l + 1000 = renewal_bound ttl l g d (Suc f)"
    by (simp add: renewal_bound_def algebra_simps)
  have "0 \<le> int f * (g + l + 1000)" using l by simp
  then show "ttl * 500 + l - d \<le> renewal_bound ttl l g d f" "ttl * 500 + l + 1000 \<le> renewal_bound ttl l g d f"
    unfolding renewal_bound_def by linarith+
  show "renewal_bound ttl l g d f \<le> renewal_bound ttl l g d f'" if "f \<le> f'"
    using mult_right_mono [OF _ l, of "int f" "int f'"] that by (simp add: renewal_bound_def)
qed

text \<open>A timer set from a cookie of the current token is in time if it was set early enough.\<close>

lemma new_timer_in_time:
  assumes c: "clocks_fit ttl n l g d" and w: "0 \<le> w" "w \<le> m + l" and t: "t + 1000 \<le> m + renewal_bound ttl l g d f"
  shows "max (renew_at ttl w * 1000) (t + d + 1000) - d \<le> m + renewal_bound ttl l g d f"
proof -
  have "renew_at ttl w * 1000 \<le> w + ttl * 500" using renew_at_bounds(2) clocks_fit_pos [OF c] w(1) by simp
  moreover have "ttl * 500 + l - d \<le> renewal_bound ttl l g d f" by (rule renewal_bound_props(2) [OF c])
  ultimately show ?thesis using w(2) t by (simp add: max_def)
qed

lemma new_timer_later: "clocks_fit ttl n l g d \<Longrightarrow> t + d \<le> max r (t + d + 1000) + g"
  by (simp add: clocks_fit_def max_def)

lemma in_time_mono:
  "in_time ttl l g d m f ts qs \<Longrightarrow> set ts \<subseteq> set ts' \<Longrightarrow> set qs \<subseteq> set qs' \<Longrightarrow> m \<le> m' \<Longrightarrow> f \<le> f' \<Longrightarrow>
   clocks_fit ttl n l g d \<Longrightarrow> in_time ttl l g d m' f' ts' qs'"
  unfolding in_time_def using renewal_bound_props(4) [of ttl n l g d f f'] by fastforce

lemma opened_ok:
  assumes "good_jar ttl jar" and c: "clocks_fit ttl n l g d" and "opened jar ttl l d s"
  shows "session_ok ttl n l g d s"
proof -
  obtain i w v t where s: "s = \<lparr>se_time = t, se_issued = i, se_stamp = w, se_sent = [], se_failed = 0, se_runs = 1,
            se_renewal = scheduleAccessRenewal round64 (jar w) (t + d) \<lparr>rn_timers = [], rn_fetching = 0\<rparr>\<rparr>"
    and h: "0 \<le> i" "i \<le> w" "w \<le> i + l" "w \<le> t" "i \<le> v" "v \<le> t" "t \<le> v + l" "t \<le> 2 ^ 52" "\<not> needs_renewal ttl (Some i) v"
    using assms(3) by (auto simp: opened_def)
  have "i div 1000 * 1000 \<le> i" by simp
  moreover have "2 * v < 2 * (i div 1000 * 1000) + ttl * 1000"
    using h(9) by (simp add: needs_renewal_def token_expiry_def algebra_simps)
  ultimately have v: "v \<le> i + ttl * 500" by linarith
  let ?due = "max (renew_at ttl w * 1000) (t + d + 1000)"
  have sch: "se_renewal s = \<lparr>rn_timers = [?due], rn_fetching = 0\<rparr>"
    using schedule_jar [OF assms(1) c _ h(4,8)] h(1,2) by (simp add: s)
  have "?due - d \<le> i + renewal_bound ttl l g d 0"
    using h v renewal_bound_props(3) [OF c, of 0] by (intro new_timer_in_time [OF c]) linarith+
  moreover have "t + d \<le> ?due + g" by (rule new_timer_later [OF c])
  ultimately show ?thesis using h sch clocks_fit_pos [OF c]
    by (auto simp: session_ok_def s in_time_def intro!: exI [of _ i])
qed

text \<open>After a request is settled, the chain's new timer is one of the timers.\<close>

lemma settled_timers:
  assumes "good_jar ttl jar" and "clocks_fit ttl n l g d" and "0 \<le> w" and "w \<le> t" and "t \<le> 2 ^ 52" and "0 < rn_fetching r"
  shows "on_renewal round64 (Settled (jar w) (t + d)) r
    = \<lparr>rn_timers = rn_timers r @ [max (renew_at ttl w * 1000) (t + d + 1000)], rn_fetching = rn_fetching r - 1\<rparr>"
  using assms schedule_jar [OF assms(1-5)] by simp

lemma pass_ok:
  assumes "session_ok ttl n l g d s" and "0 \<le> dt" and "se_time s + dt \<le> 2 ^ 52"
    and "\<forall>due \<in> set (rn_timers (se_renewal s)). se_time s + dt + d \<le> due + g" and "\<forall>t \<in> set (se_sent s). se_time s + dt \<le> t + l"
  shows "session_ok ttl n l g d (s\<lparr>se_time := se_time s + dt\<rparr>)"
proof -
  obtain m where "se_issued s \<le> m" "m \<le> se_issued s + l" "m \<le> se_time s"
    "in_time ttl l g d m (se_failed s) (rn_timers (se_renewal s)) (se_sent s)" using assms(1) by (auto simp: session_ok_def)
  then show ?thesis using assms by (force simp: session_ok_def intro!: exI [of _ m])
qed

lemma fire_ok:
  assumes ok: "session_ok ttl n l g d s" and c: "clocks_fit ttl n l g d" and k: "k < length (rn_timers (se_renewal s))"
  shows "session_ok ttl n l g d (s\<lparr>se_sent := se_sent s @ [se_time s], se_renewal := on_renewal round64 (TimerDue k) (se_renewal s)\<rparr>)"
proof -
  let ?ts = "rn_timers (se_renewal s)"
  obtain m where m: "se_issued s \<le> m" "m \<le> se_issued s + l" "m \<le> se_time s"
    "in_time ttl l g d m (se_failed s) ?ts (se_sent s)" using ok by (auto simp: session_ok_def)
  have late: "\<forall>due \<in> set ?ts. se_time s + d \<le> due + g" using ok by (simp add: session_ok_def)
  have "in_time ttl l g d m (se_failed s) (without k ?ts) (se_sent s @ [se_time s])"
    using m(4) late set_without [OF k] unfolding in_time_def by fastforce
  then show ?thesis
    using ok m k clocks_fit_pos [OF c] length_without [OF k] set_without_sub [of k ?ts]
    by (auto simp: session_ok_def intro!: exI [of _ m])
qed

lemma renewed_ok:
  assumes ok: "session_ok ttl n l g d s" and j: "good_jar ttl jar" and c: "clocks_fit ttl n l g d" and k: "k < length (se_sent s)"
    and i: "se_sent s ! k \<le> i" "i \<le> w" "w \<le> se_time s"
  shows "session_ok ttl n l g d (s\<lparr>se_issued := i, se_stamp := w, se_sent := without k (se_sent s), se_failed := 0,
       se_renewal := on_renewal round64 (Settled (jar w) (se_time s + d)) (se_renewal s)\<rparr>)"
proof -
  let ?due = "max (renew_at ttl w * 1000) (se_time s + d + 1000)"
  obtain m where m: "se_issued s \<le> m" "m \<le> se_time s" using ok by (auto simp: session_ok_def)
  have "0 \<le> se_sent s ! k \<and> se_time s \<le> se_sent s ! k + l" using ok nth_mem [OF k] by (simp add: session_ok_def)
  then have st: "0 \<le> i" "se_time s \<le> i + l" using i(1) by linarith+
  have st': "se_time s \<le> 2 ^ 52" "0 < rn_fetching (se_renewal s)" using ok k by (auto simp: session_ok_def)
  have w: "0 \<le> w" "w \<le> i + l" using st i by linarith+
  have sch: "on_renewal round64 (Settled (jar w) (se_time s + d)) (se_renewal s)
      = \<lparr>rn_timers = rn_timers (se_renewal s) @ [?due], rn_fetching = rn_fetching (se_renewal s) - 1\<rparr>"
    by (rule settled_timers [OF j c w(1) i(3) st'])
  have "?due - d \<le> max m i + renewal_bound ttl l g d 0"
    using w st(2) renewal_bound_props(3) [OF c, of 0] clocks_fit_pos [OF c] by (intro new_timer_in_time [OF c]) linarith+
  then have "in_time ttl l g d (max m i) 0 (rn_timers (se_renewal s) @ [?due]) (without k (se_sent s))"
    by (simp add: in_time_def)
  moreover have "i \<le> max m i \<and> max m i \<le> i + l \<and> max m i \<le> se_time s" using m st i clocks_fit_pos [OF c] by auto
  moreover have "se_time s + d \<le> ?due + g" by (rule new_timer_later [OF c])
  ultimately show ?thesis
    using ok st w i sch k length_without [OF k] set_without_sub [of k "se_sent s"]
    by (auto simp: session_ok_def simp del: on_renewal.simps intro!: exI [of _ "max m i"])
qed

lemma failed_ok:
  assumes ok: "session_ok ttl n l g d s" and j: "good_jar ttl jar" and c: "clocks_fit ttl n l g d" and k: "k < length (se_sent s)"
    and f: "se_failed s < n"
  shows "session_ok ttl n l g d (s\<lparr>se_sent := without k (se_sent s), se_failed := Suc (se_failed s),
       se_renewal := on_renewal round64 (Settled (jar (se_stamp s)) (se_time s + d)) (se_renewal s)\<rparr>)"
proof -
  let ?due = "max (renew_at ttl (se_stamp s) * 1000) (se_time s + d + 1000)" and ?ts = "rn_timers (se_renewal s)"
    and ?q = "se_sent s ! k"
  obtain m where m: "se_issued s \<le> m" "m \<le> se_issued s + l" "m \<le> se_time s"
    "in_time ttl l g d m (se_failed s) ?ts (se_sent s)" using ok by (auto simp: session_ok_def)
  have st: "se_time s \<le> ?q + l" "se_time s \<le> 2 ^ 52" "0 < rn_fetching (se_renewal s)" "0 \<le> se_stamp s" "se_stamp s \<le> m + l" "se_stamp s \<le> se_time s"
    using ok nth_mem [OF k] m(1) k by (force simp: session_ok_def)+
  have sch: "on_renewal round64 (Settled (jar (se_stamp s)) (se_time s + d)) (se_renewal s)
      = \<lparr>rn_timers = ?ts @ [?due], rn_fetching = rn_fetching (se_renewal s) - 1\<rparr>"
    by (rule settled_timers [OF j c st(4,6,2,3)])
  have good: "in_time ttl l g d m (Suc (se_failed s)) (?ts @ [?due]) (without k (se_sent s))"
  proof (cases "?q \<le> m + renewal_bound ttl l g d (se_failed s) + g")
    case True
    then have "se_time s + 1000 \<le> m + renewal_bound ttl l g d (Suc (se_failed s))"
      using st(1) renewal_bound_props(1) [OF c, of "se_failed s"] by linarith
    then have "?due - d \<le> m + renewal_bound ttl l g d (Suc (se_failed s))" by (rule new_timer_in_time [OF c st(4,5)])
    then show ?thesis by (simp add: in_time_def)
  next
    case False
    then have "in_time ttl l g d m (se_failed s) ?ts (without k (se_sent s))"
      using m(4) set_without [OF k] unfolding in_time_def by auto
    then show ?thesis by (rule in_time_mono) (use c in auto)
  qed
  moreover have "se_time s + d \<le> ?due + g" by (rule new_timer_later [OF c])
  ultimately show ?thesis
    using ok m f sch k length_without [OF k] set_without_sub [of k "se_sent s"]
    by (auto simp: session_ok_def simp del: on_renewal.simps intro!: exI [of _ m])
qed

lemma rerun_ok:
  assumes ok: "session_ok ttl n l g d s" and j: "good_jar ttl jar" and c: "clocks_fit ttl n l g d"
  shows "session_ok ttl n l g d (s\<lparr>se_runs := Suc (se_runs s),
     se_renewal := scheduleAccessRenewal round64 (jar (se_stamp s)) (se_time s + d) (se_renewal s)\<rparr>)"
proof -
  let ?due = "max (renew_at ttl (se_stamp s) * 1000) (se_time s + d + 1000)" and ?ts = "rn_timers (se_renewal s)"
  obtain m where m: "se_issued s \<le> m" "m \<le> se_issued s + l" "m \<le> se_time s"
    "in_time ttl l g d m (se_failed s) ?ts (se_sent s)" using ok by (auto simp: session_ok_def)
  have st: "0 \<le> se_stamp s" "se_stamp s \<le> se_time s" "se_time s \<le> 2 ^ 52" using ok by (auto simp: session_ok_def)
  have "in_time ttl l g d m (se_failed s) (?ts @ [?due]) (se_sent s)" by (rule in_time_mono [OF m(4)]) (use c in auto)
  moreover have "se_time s + d \<le> ?due + g" by (rule new_timer_later [OF c])
  ultimately show ?thesis using ok m schedule_jar [OF j c st]
    by (auto simp: session_ok_def intro!: exI [of _ m])
qed

lemma elsewhere_ok:
  assumes ok: "session_ok ttl n l g d s" and c: "clocks_fit ttl n l g d"
    and i: "0 \<le> i" "se_time s - l \<le> i" "i \<le> w" "w \<le> se_time s"
  shows "session_ok ttl n l g d (s\<lparr>se_issued := i, se_stamp := w\<rparr>)"
proof -
  obtain m where m: "m \<le> se_time s"
    "in_time ttl l g d m (se_failed s) (rn_timers (se_renewal s)) (se_sent s)" using ok by (auto simp: session_ok_def)
  have "in_time ttl l g d (max m i) (se_failed s) (rn_timers (se_renewal s)) (se_sent s)"
    by (rule in_time_mono [OF m(2)]) (use c in auto)
  then show ?thesis using ok m(1) i clocks_fit_pos [OF c] by (auto simp: session_ok_def intro!: exI [of _ "max m i"])
qed

lemma step_ok:
  assumes "session_step jar n l g d s s'" and "good_jar ttl jar" and "clocks_fit ttl n l g d" and "session_ok ttl n l g d s"
  shows "session_ok ttl n l g d s'"
  using assms(1)
proof cases
  case (Pass dt) then show ?thesis using pass_ok [OF assms(4)] by simp
next
  case (Fire k) then show ?thesis using fire_ok [OF assms(4,3)] by simp
next
  case (Renewed k i w) then show ?thesis using renewed_ok [OF assms(4,2,3)] by simp
next
  case (Failed k) then show ?thesis using failed_ok [OF assms(4,2,3)] by simp
next
  case (Elsewhere i w) then show ?thesis using elsewhere_ok [OF assms(4,3)] by simp
next
  case Rerun then show ?thesis using rerun_ok [OF assms(4,2,3)] by simp
qed

lemma reachable_ok:
  assumes "(session_step jar n l g d)\<^sup>*\<^sup>* s s'" and "good_jar ttl jar" and "clocks_fit ttl n l g d" and "session_ok ttl n l g d s"
  shows "session_ok ttl n l g d s'"
  using assms(1,4) by (induction rule: rtranclp_induct) (use assms(2,3) step_ok in blast)+

lemma jar_good:
  assumes "other_cookies before" "other_cookies after" and c: "clocks_fit ttl n l g d"
  shows "good_jar ttl (cookie_jar before after ttl)"
  unfolding good_jar_def
proof (intro allI impI)
  fix i :: int
  assume i: "0 \<le> i \<and> i \<le> 2 ^ 52"
  have "ttl * 500 < 2 ^ 32" "0 < ttl" using c by (auto simp: clocks_fit_def)
  moreover have "i div 1000 \<le> i" "0 \<le> i div 1000" using i by linarith+
  ultimately have "0 \<le> renew_at ttl i" "renew_at ttl i \<le> 2 ^ 53" using i by (simp_all add: renew_at_def)
  then show "renewAtSeconds round64 (cookie_jar before after ttl i) = Some (Fin (of_int (renew_at ttl i)))"
    by (rule jar_reads_back [OF assms(1,2)])
qed

text \<open>A state that meets the invariant has a token that is still valid.\<close>

lemma session_ok_valid:
  assumes ok: "session_ok ttl n l g d s" and c: "clocks_fit ttl n l g d"
  shows "se_time s < token_expiry ttl (se_issued s)"
proof -
  let ?B = "renewal_bound ttl l g d"
  obtain m where m: "m \<le> se_issued s + l"
    "in_time ttl l g d m (se_failed s) (rn_timers (se_renewal s)) (se_sent s)" using ok by (auto simp: session_ok_def)
  have "se_time s \<le> m + ?B (se_failed s) + g + l"
    using m(2) ok clocks_fit_pos [OF c] unfolding in_time_def session_ok_def by fastforce
  moreover have "?B (se_failed s) \<le> ?B n" using ok by (intro renewal_bound_props(4) [OF c]) (simp add: session_ok_def)
  moreover have "?B n + g + 2 * l + 999 < ttl * 1000" using c by (simp add: clocks_fit_def)
  moreover have "se_issued s \<le> se_issued s div 1000 * 1000 + 999" by simp
  ultimately show ?thesis using m(1) unfolding token_expiry_def distrib_right by linarith
qed

text \<open>
  A token of an hour, a clock two seconds fast: the timer fires half a minute late, its first request
  fails, the second is answered, HTMX runs the script again, and both chains' timers are overdue.
\<close>

abbreviation session_at :: "int \<Rightarrow> int \<Rightarrow> int \<Rightarrow> int list \<Rightarrow> nat \<Rightarrow> nat \<Rightarrow> int list \<Rightarrow> session" where
  "session_at t i w sent f runs timers \<equiv> \<lparr>se_time = t, se_issued = i, se_stamp = w, se_sent = sent, se_failed = f,
     se_runs = runs, se_renewal = \<lparr>rn_timers = timers, rn_fetching = length sent\<rparr>\<rparr>"

abbreviation theme_jar :: "int \<Rightarrow> jstring" where
  "theme_jar \<equiv> cookie_jar [lit ''theme=dark''] [] 3600"

lemma theme_only: "other_cookies [lit ''theme=dark'']" "other_cookies []"
  by (simp_all add: other_cookies_def is_renew_cookie_def cookieName_def lit_def)

lemma theme_clocks: "clocks_fit 3600 10 5000 60000 2000"
  by (simp add: clocks_fit_def renewal_bound_def)

lemmas theme_schedule = schedule_jar [OF jar_good [OF theme_only theme_clocks] theme_clocks]

lemma theme_opened:
  "opened theme_jar 3600 5000 2000 (session_at 1700000000100 1700000000000 1700000000040 [] 0 1 [1700001800000])"
proof -
  have "scheduleAccessRenewal round64 (theme_jar 1700000000040) (1700000000100 + 2000) \<lparr>rn_timers = [], rn_fetching = 0\<rparr>
    = \<lparr>rn_timers = [1700001800000], rn_fetching = 0\<rparr>"
    by (subst theme_schedule) (simp_all add: renew_at_def)
  then show ?thesis unfolding opened_def
    by (intro exI [of _ 1700000000000] exI [of _ 1700000000040] exI [of _ 1700000000060] exI [of _ 1700000000100])
      (simp add: needs_renewal_def token_expiry_def)
qed

lemma theme_steps:
  "(session_step theme_jar 10 5000 60000 2000)\<^sup>*\<^sup>*
    (session_at 1700000000100 1700000000000 1700000000040 [] 0 1 [1700001800000])
    (session_at 1700003680000 1700001831000 1700001831200 [] 0 2 [1700003631000, 1700003631000])"
proof -
  let ?step = "session_step theme_jar 10 5000 60000 2000" and ?i = "1700000000000 :: int" and ?w = "1700000000040 :: int"
  let ?i' = "1700001831000 :: int" and ?w' = "1700001831200 :: int"
  note trans = converse_rtranclp_into_rtranclp [of ?step]
  have 1: "?step (session_at 1700000000100 ?i ?w [] 0 1 [1700001800000]) (session_at 1700001830000 ?i ?w [] 0 1 [1700001800000])"
    using session_step.Pass [of 1829900 "session_at 1700000000100 ?i ?w [] 0 1 [1700001800000]" 2000 60000 5000 theme_jar 10] by simp
  have 2: "?step (session_at 1700001830000 ?i ?w [] 0 1 [1700001800000]) (session_at 1700001830000 ?i ?w [1700001830000] 0 1 [])"
    using session_step.Fire [of 0 "session_at 1700001830000 ?i ?w [] 0 1 [1700001800000]" 2000 theme_jar 10 5000 60000]
    by (simp add: without_def)
  have 3: "?step (session_at 1700001830000 ?i ?w [1700001830000] 0 1 []) (session_at 1700001830000 ?i ?w [] 1 1 [1700001833000])"
    using session_step.Failed [of 0 "session_at 1700001830000 ?i ?w [1700001830000] 0 1 []" 10 theme_jar 5000 60000 2000]
      theme_schedule [of ?w 1700001830000 "\<lparr>rn_timers = [], rn_fetching = 0\<rparr>"]
    by (simp add: without_def renew_at_def)
  have 4: "?step (session_at 1700001830000 ?i ?w [] 1 1 [1700001833000]) (session_at 1700001831000 ?i ?w [] 1 1 [1700001833000])"
    using session_step.Pass [of 1000 "session_at 1700001830000 ?i ?w [] 1 1 [1700001833000]" 2000 60000 5000 theme_jar 10] by simp
  have 5: "?step (session_at 1700001831000 ?i ?w [] 1 1 [1700001833000]) (session_at 1700001831000 ?i ?w [1700001831000] 1 1 [])"
    using session_step.Fire [of 0 "session_at 1700001831000 ?i ?w [] 1 1 [1700001833000]" 2000 theme_jar 10 5000 60000]
    by (simp add: without_def)
  have 6: "?step (session_at 1700001831000 ?i ?w [1700001831000] 1 1 []) (session_at 1700001831300 ?i ?w [1700001831000] 1 1 [])"
    using session_step.Pass [of 300 "session_at 1700001831000 ?i ?w [1700001831000] 1 1 []" 2000 60000 5000 theme_jar 10] by simp
  have 7: "?step (session_at 1700001831300 ?i ?w [1700001831000] 1 1 []) (session_at 1700001831300 ?i' ?w' [] 0 1 [1700003631000])"
    using session_step.Renewed [of 0 "session_at 1700001831300 ?i ?w [1700001831000] 1 1 []" ?i' ?w' theme_jar 10 5000 60000 2000]
      theme_schedule [of ?w' 1700001831300 "\<lparr>rn_timers = [], rn_fetching = 0\<rparr>"]
    by (simp add: without_def renew_at_def)
  have 8: "?step (session_at 1700001831300 ?i' ?w' [] 0 1 [1700003631000]) (session_at 1700001831300 ?i' ?w' [] 0 2 [1700003631000, 1700003631000])"
    using session_step.Rerun [of theme_jar 10 5000 60000 2000 "session_at 1700001831300 ?i' ?w' [] 0 1 [1700003631000]"]
      theme_schedule [of ?w' 1700001831300 "\<lparr>rn_timers = [1700003631000], rn_fetching = 0\<rparr>"]
    by (simp add: renew_at_def numeral_2_eq_2)
  have 9: "?step (session_at 1700001831300 ?i' ?w' [] 0 2 [1700003631000, 1700003631000])
      (session_at 1700003680000 ?i' ?w' [] 0 2 [1700003631000, 1700003631000])"
    using session_step.Pass [of 1848700 "session_at 1700001831300 ?i' ?w' [] 0 2 [1700003631000, 1700003631000]" 2000 60000 5000 theme_jar 10]
    by simp
  note last = r_into_rtranclp [of ?step, OF 9]
  show ?thesis
    by (rule trans [OF 1], rule trans [OF 2], rule trans [OF 3], rule trans [OF 4], rule trans [OF 5], rule trans [OF 6],
        rule trans [OF 7], rule trans [OF 8]) (rule last)
qed

text \<open>
  C7: The access token of an open page never runs out.  Whatever other cookies there are, whenever other
  requests of the browser renew it, however often HTMX swaps a page into the body and runs the script
  again, and however timers and answers interleave: with a page's clock \<open>d\<close> ahead of the server's, timers
  at most \<open>g\<close> late, answers within \<open>l\<close> milliseconds and at most \<open>n\<close> failures in a row (\<open>clocks_fit\<close>: the
  tab is not put to sleep for longer), every state that an opened page reaches has a token that is still
  valid, and as many timers and requests as the script has run.
\<close>

theorem access_token_never_expires:
  assumes "other_cookies before" and "other_cookies after" and "clocks_fit ttl n l g d"
    and "opened (cookie_jar before after ttl) ttl l d s"
    and "(session_step (cookie_jar before after ttl) n l g d)\<^sup>*\<^sup>* s s'"
  shows "se_time s' < token_expiry ttl (se_issued s')
    \<and> length (rn_timers (se_renewal s')) + rn_fetching (se_renewal s') = se_runs s'"
proof -
  note j = jar_good [OF assms(1-3)]
  have ok: "session_ok ttl n l g d s'" using reachable_ok [OF assms(5) j assms(3) opened_ok [OF j assms(3,4)]] .
  then show ?thesis using session_ok_valid [OF ok assms(3)] by (auto simp: session_ok_def)
qed

lemma access_token_never_expires_witness:
  "1700003680000 < token_expiry 3600 1700001831000 \<and> length [1700003631000 :: int, 1700003631000] + 0 = 2"
  using access_token_never_expires [OF theme_only theme_clocks theme_opened theme_steps] by simp

section \<open>A fast clock\<close>

text \<open>
  A page whose clock is half a token's life ahead asks again every second: the time the server
  writes has always passed on that clock.
\<close>

lemma fast_clock_polls:
  assumes "other_cookies before" and "other_cookies after" and "clocks_fit ttl n l g d" and "0 \<le> w" and "w \<le> t" and "t \<le> 2 ^ 52"
    and "ttl * 500 \<le> d"
  shows "scheduleAccessRenewal round64 (cookie_jar before after ttl w) (t + d) s
    = s\<lparr>rn_timers := rn_timers s @ [t + d + 1000]\<rparr>"
proof -
  have "renew_at ttl w * 1000 \<le> w + ttl * 500" using assms(4) renew_at_bounds(2) clocks_fit_pos [OF assms(3)] by simp
  then have "max (renew_at ttl w * 1000) (t + d + 1000) = t + d + 1000" using assms(5,7) by simp
  then show ?thesis using schedule_jar [OF jar_good [OF assms(1-3)] assms(3-6)] by simp
qed

end
