(* ===== verification/Delay_Cell.thy ===== *)
theory Delay_Cell
  imports Js_Prelude Event_Machine
begin

text \<open>
  \<open>templates/widgets/delays_specific.html\<close>: the last cell of each row of a trip's table.  Hovering over
  it for 200 ms or clicking it fetches the historical delays of the stop; the answer replaces the icon
  by the average and a button, which opens and closes a row with the details below the cell's row.
\<close>

section \<open>The cell\<close>

text \<open>\<open>IconView loading\<close>: the \<open>img\<close> is there; \<open>AverageView n\<close>: the button that the \<open>n\<close>-th answer made.\<close>

datatype cell_view = IconView bool | NoDataView | AverageView nat

text \<open>
  \<open>dc_arrow\<close>: the button shows that the details are open.  \<open>dc_detail\<close> is the variable \<open>detailRow\<close>,
  \<open>dc_rows\<close> are the detail rows in the table below the cell's row, from the top.  \<open>dc_closing\<close> counts
  the pending removals, \<open>dc_fetching\<close> the requests under way, \<open>dc_thrown\<close> uncaught exceptions.
\<close>

record delay_cell =
  dc_loaded :: bool
  dc_view :: cell_view
  dc_arrow :: bool
  dc_inside :: bool
  dc_hover :: bool
  dc_fetching :: nat
  dc_title :: bool
  dc_detail :: "nat option"
  dc_rows :: "nat list"
  dc_closing :: nat
  dc_thrown :: nat
  dc_next :: nat

definition new_delay_cell :: delay_cell where
  "new_delay_cell = \<lparr>dc_loaded = False, dc_view = IconView False, dc_arrow = False, dc_inside = False, dc_hover = False,
     dc_fetching = 0, dc_title = False, dc_detail = None, dc_rows = [], dc_closing = 0, dc_thrown = 0, dc_next = 0\<rparr>"

text \<open>The \<open>catch\<close> block; \<open>imgElement\<close> may have left the cell.\<close>

definition fetch_failed :: "delay_cell \<Rightarrow> delay_cell" where
  "fetch_failed s = (case dc_view s of
      IconView l \<Rightarrow> s\<lparr>dc_view := IconView False, dc_title := True\<rparr>
    | _ \<Rightarrow> s\<lparr>dc_title := True\<rparr>)"

text \<open>\<open>url_ok\<close>: the route code and the scheduled time can be encoded; otherwise the block throws at once.\<close>

definition fetchData :: "bool \<Rightarrow> delay_cell \<Rightarrow> delay_cell" where
  "fetchData url_ok s =
     (if dc_loaded s then s
      else case dc_view s of
        IconView l \<Rightarrow>
          let s = s\<lparr>dc_view := IconView True\<rparr>
          in if url_ok then s\<lparr>dc_fetching := Suc (dc_fetching s)\<rparr> else fetch_failed s
      | _ \<Rightarrow> s)"

datatype delay_answer = NotFound | Broken | Delays

text \<open>A new button starts with the closed arrow.\<close>

definition delay_answered :: "delay_answer \<Rightarrow> delay_cell \<Rightarrow> delay_cell" where
  "delay_answered r s =
     (if dc_fetching s = 0 then s
      else let s = s\<lparr>dc_fetching := dc_fetching s - 1\<rparr>
           in case r of
                NotFound \<Rightarrow> s\<lparr>dc_view := NoDataView, dc_loaded := True\<rparr>
              | Broken \<Rightarrow> fetch_failed s
              | Delays \<Rightarrow> s\<lparr>dc_view := AverageView (dc_next s), dc_next := Suc (dc_next s), dc_arrow := False,
                   dc_loaded := True\<rparr>)"

definition attached :: "delay_cell \<Rightarrow> bool" where
  "attached s = (case dc_detail s of None \<Rightarrow> False | Some d \<Rightarrow> d \<in> set (dc_rows s))"

text \<open>The click listener of the button, which stops the click from reaching the cell.\<close>

definition toggle_details :: "delay_cell \<Rightarrow> delay_cell" where
  "toggle_details s =
     (case dc_view s of
        AverageView n \<Rightarrow>
          if attached s
          then s\<lparr>dc_closing := Suc (dc_closing s), dc_arrow := False\<rparr>
          else s\<lparr>dc_detail := Some (dc_next s), dc_rows := dc_next s # dc_rows s, dc_next := Suc (dc_next s),
                 dc_arrow := True\<rparr>
      | _ \<Rightarrow> s)"

text \<open>
  200 ms after a closing click: \<open>detailRow\<close>, whatever it is by then, is removed; \<open>null\<close>, or a row that
  is not in the table, is a \<open>TypeError\<close>.
\<close>

definition remove_details :: "delay_cell \<Rightarrow> delay_cell outcome" where
  "remove_details s =
     (case dc_detail s of
        None \<Rightarrow> Thrown (TypeError ''null'') s
      | Some d \<Rightarrow> if d \<in> set (dc_rows s) then Done (s\<lparr>dc_rows := removeAll d (dc_rows s), dc_detail := None\<rparr>)
                  else Thrown (TypeError ''null'') s)"

datatype cell_event = CellClick | MouseEnter | MouseLeave | HoverFires | Answered delay_answer | ButtonClick | CloseFires

text \<open>A click on the cell beside the button; the browser sends \<open>mouseenter\<close> and \<open>mouseleave\<close> in turn.\<close>

fun on_cell_event :: "bool \<Rightarrow> cell_event \<Rightarrow> delay_cell \<Rightarrow> delay_cell" where
  "on_cell_event u CellClick s = fetchData u s"
| "on_cell_event u MouseEnter s = (if dc_inside s then s else s\<lparr>dc_inside := True, dc_hover := True\<rparr>)"
| "on_cell_event u MouseLeave s = s\<lparr>dc_inside := False, dc_hover := False\<rparr>"
| "on_cell_event u HoverFires s = (if dc_hover s then fetchData u (s\<lparr>dc_hover := False\<rparr>) else s)"
| "on_cell_event u (Answered r) s = delay_answered r s"
| "on_cell_event u ButtonClick s = toggle_details s"
| "on_cell_event u CloseFires s =
     (if dc_closing s = 0 then s
      else case remove_details (s\<lparr>dc_closing := dc_closing s - 1\<rparr>) of
             Done t \<Rightarrow> t | Thrown e t \<Rightarrow> t\<lparr>dc_thrown := Suc (dc_thrown t)\<rparr>)"

section \<open>The invariant\<close>

fun is_icon :: "cell_view \<Rightarrow> bool" where
  "is_icon (IconView l) \<longleftrightarrow> True"
| "is_icon _ \<longleftrightarrow> False"

text \<open>There is at most one detail row, the one in \<open>detailRow\<close>.\<close>

definition cell_ok :: "delay_cell \<Rightarrow> bool" where
  "cell_ok s \<longleftrightarrow> dc_rows s = (case dc_detail s of None \<Rightarrow> [] | Some d \<Rightarrow> [d])
     \<and> (dc_loaded s \<longleftrightarrow> \<not> is_icon (dc_view s))
     \<and> (dc_hover s \<longrightarrow> dc_inside s)
     \<and> ((\<exists>d. dc_detail s = Some d) \<or> 0 < dc_closing s \<or> dc_arrow s \<longrightarrow> dc_loaded s)"

lemma attached_ok: "cell_ok s \<Longrightarrow> attached s \<longleftrightarrow> dc_detail s \<noteq> None"
  by (auto simp: attached_def cell_ok_def split: option.splits)

lemma fetch_failed_ok [simp]:
  "cell_ok (fetch_failed s) = cell_ok s" "dc_rows (fetch_failed s) = dc_rows s" "dc_detail (fetch_failed s) = dc_detail s"
  "dc_closing (fetch_failed s) = dc_closing s" "dc_arrow (fetch_failed s) = dc_arrow s"
  "dc_thrown (fetch_failed s) = dc_thrown s" "dc_fetching (fetch_failed s) = dc_fetching s"
  by (cases "dc_view s"; auto simp: fetch_failed_def cell_ok_def)+

lemma fetchData_ok: "cell_ok s \<Longrightarrow> cell_ok (fetchData u s)"
  by (auto simp: fetchData_def Let_def split: cell_view.split) (auto simp: cell_ok_def)

lemma answered_ok:
  assumes "cell_ok s"
  shows "cell_ok (s\<lparr>dc_fetching := n\<rparr>)" "cell_ok (s\<lparr>dc_view := NoDataView, dc_loaded := True\<rparr>)"
    and "cell_ok (s\<lparr>dc_view := AverageView k, dc_next := j, dc_arrow := False, dc_loaded := True\<rparr>)"
  using assms by (auto simp: cell_ok_def)

lemma cell_event_ok:
  assumes "cell_ok s"
  shows "cell_ok (on_cell_event u e s)"
proof (cases e)
  case CellClick
  then show ?thesis using assms fetchData_ok by simp
next
  case HoverFires
  have "cell_ok (s\<lparr>dc_hover := False\<rparr>)" using assms by (auto simp: cell_ok_def)
  then show ?thesis using assms fetchData_ok by (simp add: HoverFires)
next
  case (Answered r)
  note a = answered_ok(2,3) [OF answered_ok(1) [OF assms]]
  show ?thesis
    using assms a answered_ok(1) [OF assms]
    by (cases r) (simp_all add: Answered delay_answered_def Let_def)
next
  case ButtonClick
  then show ?thesis
    using assms attached_ok [OF assms] by (auto simp: toggle_details_def split: cell_view.split) (auto simp: cell_ok_def)
next
  case CloseFires
  then show ?thesis
    using assms by (auto simp: remove_details_def cell_ok_def split: option.splits outcome.splits if_splits)
qed (use assms in \<open>auto simp: cell_ok_def\<close>)

interpretation delay_cell: kept "on_cell_event u" cell_ok
  by unfold_locales (rule cell_event_ok)

lemma new_cell_ok: "cell_ok new_delay_cell"
  by (auto simp: cell_ok_def new_delay_cell_def)


section \<open>Calm use\<close>

text \<open>No click on the button while the details are closing, and no second request.\<close>

fun calm_cell_event :: "bool \<Rightarrow> cell_event \<Rightarrow> delay_cell \<Rightarrow> delay_cell" where
  "calm_cell_event u ButtonClick s = (if 0 < dc_closing s then s else on_cell_event u ButtonClick s)"
| "calm_cell_event u CellClick s = (if 0 < dc_fetching s then s else on_cell_event u CellClick s)"
| "calm_cell_event u HoverFires s = (if 0 < dc_fetching s then s\<lparr>dc_hover := False\<rparr> else on_cell_event u HoverFires s)"
| "calm_cell_event u e s = on_cell_event u e s"

definition in_step :: "delay_cell \<Rightarrow> bool" where
  "in_step s \<longleftrightarrow> dc_thrown s = 0 \<and> dc_fetching s \<le> 1 \<and> (dc_loaded s \<longrightarrow> dc_fetching s = 0)
     \<and> (if dc_closing s = 0 then dc_arrow s \<longleftrightarrow> dc_detail s \<noteq> None
        else dc_closing s = 1 \<and> \<not> dc_arrow s \<and> dc_detail s \<noteq> None)"

definition calm_cell :: "delay_cell \<Rightarrow> bool" where
  "calm_cell s \<longleftrightarrow> cell_ok s \<and> in_step s"

lemma in_step_hover [simp]: "in_step (s\<lparr>dc_hover := b\<rparr>) = in_step s" "in_step (s\<lparr>dc_inside := a\<rparr>) = in_step s"
  by (simp_all add: in_step_def)

lemma fetch_failed_step [simp]: "in_step (fetch_failed s) = in_step s" "dc_loaded (fetch_failed s) = dc_loaded s"
  by (cases "dc_view s"; simp add: fetch_failed_def in_step_def)+

lemma fetchData_step: "in_step s \<Longrightarrow> dc_fetching s = 0 \<Longrightarrow> in_step (fetchData u s)"
  by (cases "dc_view s") (simp_all add: fetchData_def Let_def, auto simp: in_step_def split: if_splits)

lemma answered_step:
  assumes "calm_cell s"
  shows "in_step (delay_answered r s)"
proof (cases "dc_fetching s = 0")
  case False
  with assms have n: "dc_detail s = None" "dc_closing s = 0" "\<not> dc_arrow s" "dc_fetching s = 1" "dc_thrown s = 0"
    by (auto simp: calm_cell_def cell_ok_def in_step_def)
  then show ?thesis by (cases r) (simp_all add: delay_answered_def, simp_all add: in_step_def)
qed (use assms in \<open>simp add: delay_answered_def calm_cell_def\<close>)

lemma toggle_step:
  assumes "calm_cell s" and "dc_closing s = 0"
  shows "in_step (toggle_details s)"
proof (cases "dc_view s")
  case (AverageView n)
  have "dc_loaded s" using assms(1) by (auto simp: calm_cell_def cell_ok_def AverageView)
  with assms attached_ok [of s] show ?thesis
    by (cases "dc_detail s") (simp_all add: toggle_details_def AverageView calm_cell_def in_step_def)
qed (use assms in \<open>simp_all add: toggle_details_def calm_cell_def\<close>)

lemma close_step:
  assumes "calm_cell s"
  shows "in_step (on_cell_event u CloseFires s)"
proof (cases "dc_closing s = 0")
  case False
  with assms obtain d where "dc_detail s = Some d" "dc_rows s = [d]" "dc_closing s = 1" "\<not> dc_arrow s"
    by (auto simp: calm_cell_def cell_ok_def in_step_def)
  then show ?thesis using assms by (simp add: remove_details_def calm_cell_def in_step_def)
qed (use assms in \<open>simp add: calm_cell_def\<close>)

lemma calm_cell_step:
  assumes "calm_cell s"
  shows "calm_cell (calm_cell_event u e s)"
proof -
  have ok: "cell_ok s" "in_step s" using assms by (simp_all add: calm_cell_def)
  have "cell_ok (s\<lparr>dc_hover := False\<rparr>)" using cell_event_ok [OF ok(1), of u HoverFires] ok(1)
    by (auto simp: cell_ok_def)
  moreover have "calm_cell_event u e s \<in> {s, s\<lparr>dc_hover := False\<rparr>, on_cell_event u e s}"
    by (cases e) (simp_all del: on_cell_event.simps)
  ultimately have "cell_ok (calm_cell_event u e s)" using cell_event_ok [OF ok(1), of u e] ok(1) by auto
  moreover have "in_step (calm_cell_event u e s)"
    using ok(2) fetchData_step answered_step [OF assms] toggle_step [OF assms] close_step [OF assms]
    by (cases e) (simp_all del: on_cell_event.simps(7))
  ultimately show ?thesis by (simp add: calm_cell_def)
qed

interpretation calm_cell: kept "calm_cell_event u" calm_cell
  by unfold_locales (rule calm_cell_step)

section \<open>Properties\<close>

text \<open>
  C22: As long as nobody clicks the button while the details are closing and no second request is sent,
  the button tells the truth: it shows the open arrow exactly when the detail row is in the table
  and not about to be removed, there is at most one detail row, at most one request, and nothing
  throws.
\<close>

theorem delay_button_in_step:
  assumes "s = fold (calm_cell_event u) es new_delay_cell"
  shows "(dc_arrow s \<longleftrightarrow> dc_rows s \<noteq> [] \<and> dc_closing s = 0) \<and> length (dc_rows s) \<le> 1
     \<and> dc_closing s \<le> 1 \<and> dc_fetching s \<le> 1 \<and> dc_thrown s = 0"
proof -
  have "calm_cell new_delay_cell" using new_cell_ok by (simp add: calm_cell_def in_step_def new_delay_cell_def)
  then have "calm_cell s" unfolding assms by (rule calm_cell.run_inv)
  then show ?thesis by (auto simp: calm_cell_def in_step_def cell_ok_def split: option.splits if_splits)
qed

lemma delay_button_in_step_witness:
  "let s = fold (calm_cell_event True) [MouseEnter, HoverFires, CellClick, Answered Delays, ButtonClick] new_delay_cell
   in dc_arrow s \<and> dc_rows s \<noteq> []"
proof -
  let ?es = "[MouseEnter, HoverFires, CellClick, Answered Delays, ButtonClick]"
  have "dc_arrow (fold (calm_cell_event True) ?es new_delay_cell)" by code_simp
  then show ?thesis using delay_button_in_step [of _ True ?es] by (simp only: Let_def) blast
qed

text \<open>
  The removal after a closing click takes whatever \<open>detailRow\<close> holds 200 ms later.  Whatever
  happened before, when the details are open, a second click on the button while they are closing
  schedules a second removal: reopened in between, the details vanish again although the button
  shows the open arrow, and otherwise the second removal throws.
\<close>

theorem double_close_loses_details:
  assumes "s = fold (on_cell_event u) es new_delay_cell" and "dc_rows s \<noteq> []" and "dc_closing s = 0"
    and "dc_view s = AverageView n"
    and "t = fold (on_cell_event u) [ButtonClick, ButtonClick, CloseFires, ButtonClick, CloseFires] s"
    and "v = fold (on_cell_event u) [ButtonClick, ButtonClick, CloseFires, CloseFires] s"
  shows "dc_arrow t \<and> dc_rows t = [] \<and> dc_closing t = 0 \<and> dc_thrown t = dc_thrown s
     \<and> dc_thrown v = Suc (dc_thrown s) \<and> dc_rows v = []"
proof -
  have "cell_ok s" unfolding assms(1) by (rule delay_cell.run_inv [OF new_cell_ok])
  with assms(2) obtain d where d: "dc_detail s = Some d" "dc_rows s = [d]"
    by (auto simp: cell_ok_def split: option.splits)
  then show ?thesis
    using assms(3,4) by (simp add: assms(5,6) toggle_details_def attached_def remove_details_def)
qed

lemma double_close_loses_details_witness:
  "let s = fold (on_cell_event True) [CellClick, Answered Delays, ButtonClick] new_delay_cell;
       t = fold (on_cell_event True) [ButtonClick, ButtonClick, CloseFires, ButtonClick, CloseFires] s
   in dc_arrow t \<and> dc_rows t = []"
proof -
  let ?es = "[CellClick, Answered Delays, ButtonClick]"
  let ?s = "fold (on_cell_event True) ?es new_delay_cell"
  have s: "dc_rows ?s \<noteq> []" "dc_closing ?s = 0" "dc_view ?s = AverageView 0" by code_simp+
  from double_close_loses_details [OF refl s refl refl] show ?thesis by (simp only: Let_def)
qed

text \<open>
  Hovering and then clicking sends two requests, since the icon stays until the first answer.
  If the details are opened between the two answers, the second answer replaces the button: with
  data, the new button shows the closed arrow above the open details; a 404 leaves no button, and
  then the details can never be closed.
\<close>

theorem second_answer_orphans_details:
  assumes "s = fold (on_cell_event True) [MouseEnter, HoverFires, CellClick, Answered Delays, ButtonClick] new_delay_cell"
    and "t = on_cell_event True (Answered Delays) s" and "v = on_cell_event True (Answered NotFound) s"
  shows "dc_rows s \<noteq> [] \<and> dc_arrow s \<and> dc_rows t \<noteq> [] \<and> \<not> dc_arrow t
     \<and> (\<forall>es. dc_rows (fold (on_cell_event True) es v) = dc_rows v) \<and> dc_rows v \<noteq> []"
proof -
  have s: "dc_rows s = [1]" "dc_arrow s" "dc_rows t = [1]" "\<not> dc_arrow t" "dc_rows v = [1]" "dc_closing v = 0"
    "dc_loaded v" "dc_view v = NoDataView" "dc_fetching v = 0" unfolding assms(2,3) assms(1) by code_simp+
  have "dc_rows (fold (on_cell_event True) es w) = dc_rows w"
    if "dc_closing w = 0" "dc_loaded w" "dc_view w = NoDataView" "dc_fetching w = 0" for w es
    using that
  proof (induction es arbitrary: w)
    case (Cons e es)
    from Cons.prems have "dc_rows (on_cell_event True e w) = dc_rows w \<and> dc_closing (on_cell_event True e w) = 0
      \<and> dc_loaded (on_cell_event True e w) \<and> dc_view (on_cell_event True e w) = NoDataView
      \<and> dc_fetching (on_cell_event True e w) = 0"
      by (cases e) (simp_all add: fetchData_def delay_answered_def toggle_details_def)
    with Cons.IH [of "on_cell_event True e w"] show ?case by simp
  qed simp
  from this [OF s(6-9)] s show ?thesis by simp
qed

lemma second_answer_orphans_details_witness:
  "let s = fold (on_cell_event True) [MouseEnter, HoverFires, CellClick, Answered Delays, ButtonClick] new_delay_cell
   in dc_rows (on_cell_event True (Answered NotFound) s) \<noteq> []"
  unfolding Let_def using second_answer_orphans_details [OF refl refl refl] by blast

end
