(* ===== verification/Delay_Chart.thy ===== *)
theory Delay_Chart
  imports Js_Digits Delay_Cell "HOL-Library.Multiset"
begin

text \<open>
  The rest of \<open>templates/widgets/delays_specific.html\<close>: the texts of the details, and \<open>loadDelayChart\<close>,
  which 500 ms after the details open asks for the single delays and has them drawn by the vendored
  chart library.  A chart is its points; the library puts it into the element it is given.
\<close>

section \<open>Texts\<close>

text \<open>
  \<open>x.toFixed(1)\<close> for \<open>|x| < 10^21\<close>: the integer nearest to ten times the exact value, the larger of two,
  for the absolute value.
\<close>

definition tenths :: "real \<Rightarrow> nat" where
  "tenths x = nat \<lfloor>\<bar>x\<bar> * 10 + 1 / 2\<rfloor>"

definition toFixed1 :: "real \<Rightarrow> jstring" where
  "toFixed1 x = (if x < 0 then [45] else []) @ nat_str (tenths x div 10) @ [46] @ nat_str (tenths x mod 10)"

text \<open>The answer's numbers are seconds.\<close>

record delay_stats =
  dl_avg :: real
  dl_min :: real
  dl_max :: real
  dl_sd :: real
  dl_p50 :: real
  dl_p75 :: real
  dl_p90 :: real
  dl_samples :: jsval

definition minutes_text :: "(real \<Rightarrow> real) \<Rightarrow> real \<Rightarrow> jstring" where
  "minutes_text rnd v = toFixed1 (rnd (v / 60))"

definition average_text :: "(real \<Rightarrow> real) \<Rightarrow> delay_stats \<Rightarrow> jstring" where
  "average_text rnd d = minutes_text rnd (dl_avg d) @ lit '' min''"

definition detail_texts :: "(real \<Rightarrow> real) \<Rightarrow> delay_stats \<Rightarrow> jstring list" where
  "detail_texts rnd d =
     map (\<lambda>(name, v). name @ lit '': '' @ minutes_text rnd v @ lit '' min'')
       [(lit ''Avg'', dl_avg d), (lit ''Min'', dl_min d), (lit ''Max'', dl_max d), (lit ''Std Dev'', dl_sd d),
        (lit ''P50'', dl_p50 d), (lit ''P75'', dl_p75 d), (lit ''P90'', dl_p90 d)]
     @ [lit ''Samples: '' @ to_str (dl_samples d)]"

definition graphContainerId :: "jstring \<Rightarrow> jstring \<Rightarrow> jstring \<Rightarrow> jstring" where
  "graphContainerId stopId routeCode scheduledTime =
     lit ''graph-container-'' @ stopId @ lit ''-'' @ routeCode @ lit ''-'' @ replace_all 58 (lit ''-'') scheduledTime"

section \<open>The points\<close>

text \<open>A sample of the answer: its timestamp and \<open>delay_in_minutes\<close>.\<close>

type_synonym sample = "jsval \<times> real"

type_synonym chart_point = "jsnum \<times> real"

definition point_time :: "(real \<Rightarrow> real) \<Rightarrow> date_env \<Rightarrow> jsval \<Rightarrow> jsnum" where
  "point_time rnd env ts = (case date_value env ts of None \<Rightarrow> NaN | Some ms \<Rightarrow> Fin (rnd (of_int ms / 1000)))"

definition chartData :: "(real \<Rightarrow> real) \<Rightarrow> date_env \<Rightarrow> sample list \<Rightarrow> chart_point list" where
  "chartData rnd env data =
     js_sort (\<lambda>a b. num_sign (num_sub rnd (fst a) (fst b))) (map (\<lambda>(ts, v). (point_time rnd env ts, v)) data)"

text \<open>The value of the line \<open>Avg\<close>.\<close>

definition average :: "(real \<Rightarrow> real) \<Rightarrow> chart_point list \<Rightarrow> real" where
  "average rnd points = rnd (fold (\<lambda>point sum. rnd (sum + snd point)) points 0 / real (length points))"

section \<open>The container\<close>

datatype chart_item = LoadingText | NoDataText | ErrorText | Chart "chart_point list"

datatype chart_answer = ChartBroken | ChartData "sample list"

text \<open>
  \<open>cc_boxes d\<close>: what is in the container of the detail row \<open>d\<close>; \<open>cc_timers\<close>: the pending timers that open
  clicks have set; \<open>cc_loads\<close>: for each request under way, the row whose container it was sent for.
\<close>

record chart_cell =
  cc_cell :: delay_cell
  cc_boxes :: "nat \<Rightarrow> chart_item list"
  cc_timers :: nat
  cc_loads :: "nat list"

definition new_chart_cell :: chart_cell where
  "new_chart_cell = \<lparr>cc_cell = new_delay_cell, cc_boxes = (\<lambda>d. []), cc_timers = 0, cc_loads = []\<rparr>"

text \<open>\<open>document.getElementById(containerId)\<close>: the container of the first detail row in the table.\<close>

definition container_row :: "chart_cell \<Rightarrow> nat option" where
  "container_row s = (case dc_rows (cc_cell s) of [] \<Rightarrow> None | d # ds \<Rightarrow> Some d)"

definition loadDelayChart :: "chart_cell \<Rightarrow> chart_cell" where
  "loadDelayChart s =
     (case container_row s of
        None \<Rightarrow> s
      | Some d \<Rightarrow> s\<lparr>cc_boxes := (cc_boxes s)(d := [LoadingText]), cc_loads := cc_loads s @ [d]\<rparr>)"

text \<open>
  The answer empties the container it was asked for, and then hands the library the element that has
  the id now; without one, \<open>createChart\<close> throws.
\<close>

definition chart_answered :: "(real \<Rightarrow> real) \<Rightarrow> date_env \<Rightarrow> nat \<Rightarrow> chart_answer \<Rightarrow> chart_cell \<Rightarrow> chart_cell" where
  "chart_answered rnd env i r s =
     (if length (cc_loads s) \<le> i then s
      else let d = cc_loads s ! i;
               s = s\<lparr>cc_loads := take i (cc_loads s) @ drop (Suc i) (cc_loads s)\<rparr>
           in case r of
                ChartBroken \<Rightarrow> s\<lparr>cc_boxes := (cc_boxes s)(d := [ErrorText])\<rparr>
              | ChartData data \<Rightarrow>
                  let s = s\<lparr>cc_boxes := (cc_boxes s)(d := [])\<rparr>;
                      points = chartData rnd env data
                  in if points = [] then s\<lparr>cc_boxes := (cc_boxes s)(d := [NoDataText])\<rparr>
                     else case container_row s of
                            None \<Rightarrow> s\<lparr>cc_boxes := (cc_boxes s)(d := [ErrorText])\<rparr>
                          | Some e \<Rightarrow> s\<lparr>cc_boxes := (cc_boxes s)(e := cc_boxes s e @ [Chart points])\<rparr>)"

text \<open>A click that opens the details sets a timer.\<close>

definition click_details :: "chart_cell \<Rightarrow> chart_cell" where
  "click_details s =
     (let c = toggle_details (cc_cell s)
      in s\<lparr>cc_cell := c, cc_timers := (if dc_rows c = dc_rows (cc_cell s) then cc_timers s else Suc (cc_timers s))\<rparr>)"

datatype chart_event = Cell cell_event | ChartTimer | ChartAnswered nat chart_answer

fun on_chart_event :: "(real \<Rightarrow> real) \<Rightarrow> date_env \<Rightarrow> chart_event \<Rightarrow> chart_cell \<Rightarrow> chart_cell" where
  "on_chart_event rnd env (Cell ButtonClick) s = click_details s"
| "on_chart_event rnd env (Cell e) s = s\<lparr>cc_cell := on_cell_event True e (cc_cell s)\<rparr>"
| "on_chart_event rnd env ChartTimer s =
     (if cc_timers s = 0 then s else loadDelayChart (s\<lparr>cc_timers := cc_timers s - 1\<rparr>))"
| "on_chart_event rnd env (ChartAnswered i r) s = chart_answered rnd env i r s"


section \<open>Numbers and identifiers\<close>

lemma tenths_near: "\<bar>real (tenths x) / 10 - \<bar>x\<bar>\<bar> \<le> 1 / 20"
proof -
  let ?f = "\<lfloor>\<bar>x\<bar> * 10 + 1 / 2\<rfloor>"
  have "0 \<le> ?f" by simp
  then have "real (tenths x) = of_int ?f" by (simp add: tenths_def)
  moreover have "of_int ?f \<le> \<bar>x\<bar> * 10 + 1 / 2" "\<bar>x\<bar> * 10 + 1 / 2 < of_int ?f + 1" by linarith+
  ultimately show ?thesis by linarith
qed

lemma digits_value_snoc: "digits_value (xs @ [u]) = 10 * digits_value xs + digit_value u"
  by (simp add: digits_value_def)

lemma last_digit: "n < 10 \<Longrightarrow> nat_str n = [48 + of_nat n]"
  by (subst nat_str.simps) simp

lemma scan_tenths:
  "scan_decimal ((if neg then [45] else []) @ nat_str (n div 10) @ [46] @ nat_str (n mod 10)) = Some (neg, Some (real n / 10), [])"
proof -
  let ?ds = "nat_str (n div 10)" and ?r = "46 # nat_str (n mod 10)"
  have d: "list_all is_digit ?ds" "digits_value ?ds = n div 10" using nat_str_digits [of "n div 10"] by simp_all
  have m: "nat_str (n mod 10) = [48 + of_nat (n mod 10)]" "is_digit (48 + of_nat (n mod 10))"
    "digit_value (48 + of_nat (n mod 10)) = n mod 10"
    using last_digit [of "n mod 10"] digit_unit [of "n mod 10"] by simp_all
  obtain u t where u: "?ds = u # t" "is_digit u" using d(1) by (cases ?ds) auto
  then have "u \<noteq> 45" "u \<noteq> 43" "u \<noteq> 73" by (auto simp: is_digit_def)
  then have sign: "take_sign ((if neg then [45] else []) @ ?ds @ ?r) = (neg, ?ds @ ?r)" "take 8 (?ds @ ?r) \<noteq> lit ''Infinity''"
    by (simp_all add: u take_sign_def lit_def)
  have "\<not> is_digit 46" by (simp add: is_digit_def)
  with d(1) have td: "take_digits (?ds @ ?r) = (?ds, ?r)"
    by (simp add: take_digits_def takeWhile_append dropWhile_append list_all_iff)
  have tf: "take_fraction ?r = ([48 + of_nat (n mod 10)], [])" using m by (simp add: take_fraction_def take_digits_def)
  have "real (digits_value (?ds @ [48 + of_nat (n mod 10)])) * 10 powr (0 - 1) = real n / 10"
    by (simp add: digits_value_snoc d(2) m(3) powr_minus field_simps del: of_nat_add of_nat_mult)
  then show ?thesis using sign td tf by (simp add: scan_decimal_def take_exponent_def u(1))
qed

lemma toFixed1_read:
  assumes "\<bar>x\<bar> < 10 ^ 21"
  shows "parseFloat rnd (toFixed1 x) = Fin (rnd (if x < 0 then - (real (tenths x) / 10) else real (tenths x) / 10))"
proof -
  let ?y = "real (tenths x) / 10"
  have near: "\<bar>?y - \<bar>x\<bar>\<bar> \<le> 1 / 20" by (rule tenths_near)
  have "(10::real) ^ 21 + 1 < 2 ^ 1024 - 2 ^ 970" by simp
  moreover have "?y \<le> 10 ^ 21 + 1" using near assms by linarith
  ultimately have small: "\<not> 2 ^ 1024 - 2 ^ 970 \<le> ?y" by linarith
  have "trim_start (toFixed1 x) = toFixed1 x"
  proof (cases "x < 0")
    case False
    obtain u t where "nat_str (tenths x div 10) = u # t" "is_digit u"
      using nat_str_digits [of "tenths x div 10"] by (cases "nat_str (tenths x div 10)") auto
    then show ?thesis using False digit_not_space [of u] by (simp add: toFixed1_def trim_start_def)
  qed (simp add: toFixed1_def trim_start_def js_space_def)
  then show ?thesis
    using scan_tenths [of "x < 0" "tenths x"] small by (simp add: parseFloat_def toFixed1_def to_num_def)
qed

text \<open>Three roundings: the division, the tenths, and reading the text.\<close>

lemma minutes_error:
  assumes "\<bar>v / 60\<bar> < 10 ^ 20"
  shows "\<exists>y. parseFloat round64 (minutes_text round64 v) = Fin y \<and> \<bar>y - v / 60\<bar> \<le> 1 / 20 + (\<bar>v / 60\<bar> + 1) / 2 ^ 51"
proof -
  define x t where "x = round64 (v / 60)" and "t = (if x < 0 then - (real (tenths x) / 10) else real (tenths x) / 10)"
  define B e :: real where "B = \<bar>v / 60\<bar>" and "e = 1 / 2 ^ 53"
  have B: "0 \<le> B" "B < 10 ^ 20" using assms by (simp_all add: B_def)
  have x: "\<bar>x - v / 60\<bar> \<le> (B + 1) * e" using round64_error [of "v / 60"] by (simp add: x_def B_def e_def)
  have t: "\<bar>t - x\<bar> \<le> 1 / 20" using tenths_near [of x] by (auto simp: t_def abs_if split: if_splits)
  have y: "\<bar>round64 t - t\<bar> \<le> (\<bar>t\<bar> + 1) * e" using round64_error [of t] by (simp add: e_def)
  have e: "0 < e" "e \<le> 1 / 2" by (simp_all add: e_def)
  have Be: "(B + 1) * e \<le> (B + 1) * (1 / 2)" using e B by (intro mult_left_mono) simp_all
  have "\<bar>x\<bar> \<le> B + (B + 1) * e" using x by (simp add: B_def)
  then have "\<bar>x\<bar> \<le> B + (B + 1) * (1 / 2)" using Be by (rule order_trans [OF _ add_left_mono])
  moreover have "\<bar>t\<bar> \<le> \<bar>x\<bar> + 1 / 20" using t by linarith
  ultimately have "\<bar>t\<bar> + 1 \<le> 2 * (B + 1)" using B(1) by argo
  then have "(\<bar>t\<bar> + 1) * e \<le> 2 * (B + 1) * e" using e by (intro mult_right_mono) simp_all
  then have "\<bar>round64 t - v / 60\<bar> \<le> 1 / 20 + 3 * ((B + 1) * e)" using x t y by linarith
  also have "3 * ((B + 1) * e) \<le> (B + 1) / 2 ^ 51" using B by (simp add: e_def)
  finally have "\<bar>round64 t - v / 60\<bar> \<le> 1 / 20 + (B + 1) / 2 ^ 51" by simp
  moreover have "\<bar>x\<bar> < 10 ^ 21"
  proof -
    have "B + (B + 1) * (1 / 2) \<le> 2 * B + 1" using B(1) by argo
    also have "2 * B + 1 < 10 ^ 21" using B by simp
    finally show ?thesis by (rule le_less_trans [OF \<open>\<bar>x\<bar> \<le> B + (B + 1) * (1 / 2)\<close>])
  qed
  ultimately show ?thesis using toFixed1_read [of x round64] by (simp add: minutes_text_def t_def B_def flip: x_def)
qed

text \<open>The rows of a trip have different containers: their times are written with eight characters.\<close>

lemma replace_inj:
  "c \<notin> set s \<Longrightarrow> c \<notin> set t \<Longrightarrow> length s = length t \<Longrightarrow> replace_all u [c] s = replace_all u [c] t \<Longrightarrow> s = t"
proof (induction s t rule: list_induct2')
  case (4 a s b t)
  then show ?case by (auto split: if_splits)
qed auto

lemma replace_one_length [simp]: "length (replace_all u [c] s) = length s"
  by (induction s) auto

lemma container_ids_distinct:
  assumes "length t = length t'" and "45 \<notin> set t" and "45 \<notin> set t'"
    and "graphContainerId stop route t = graphContainerId stop' route t'"
  shows "t = t' \<and> stop = stop'"
proof -
  have l: "lit ''-'' = [45]" by (simp add: lit_def)
  have eq: "(stop @ lit ''-'' @ route @ lit ''-'') @ replace_all 58 [45] t = (stop' @ lit ''-'' @ route @ lit ''-'') @ replace_all 58 [45] t'"
    using assms(4) by (simp add: graphContainerId_def l)
  moreover have "length (replace_all 58 [45] t) = length (replace_all 58 [45] t')" using assms(1) by simp
  ultimately have "stop @ lit ''-'' @ route @ lit ''-'' = stop' @ lit ''-'' @ route @ lit ''-''"
    and "replace_all 58 [45] t = replace_all 58 [45] t'" by (metis append_eq_append_conv)+
  then show ?thesis using replace_inj assms(1-3) by simp
qed

section \<open>The points\<close>

lemma point_time_representable: "date_value env ts \<noteq> None \<Longrightarrow> representable rnd (point_time rnd env ts)"
  by (auto simp: point_time_def)

text \<open>The comparator's sign is that of the order of the times.\<close>

lemma chartData_sorted:
  assumes "gradual rnd" and "\<forall>(ts, v) \<in> set data. date_value env ts \<noteq> None"
  shows "sorted_wrt (\<lambda>a b. \<not> num_less (fst b) (fst a)) (chartData rnd env data)"
    and "mset (chartData rnd env data) = mset (map (\<lambda>(ts, v). (point_time rnd env ts, v)) data)"
proof -
  let ?xs = "map (\<lambda>(ts, v). (point_time rnd env ts, v)) data" and ?c = "\<lambda>a b :: chart_point. num_sign (num_sub rnd (fst a) (fst b))"
  have rep: "representable rnd (fst p)" if "p \<in> set ?xs" for p
    using that assms(2) point_time_representable by fastforce
  have eq: "?c a b = key_compare num_less fst True a b" if "a \<in> set ?xs" "b \<in> set ?xs" for a b
    using num_sign_sub [OF assms(1) rep [OF that(1)] rep [OF that(2)]] by (simp add: key_compare_def dirModifier_def)
  have "fst a \<noteq> NaN" if "a \<in> set ?xs" for a using rep [OF that] by auto
  then have "consistent (key_compare num_less fst True) (set ?xs)"
    by (intro key_compare_consistent) (blast dest: num_less_asym num_less_trans num_less_total)+
  then have "consistent ?c (set ?xs)" using eq unfolding consistent_def by (metis (no_types, lifting))
  then have "sorted_wrt (\<lambda>a b. ?c a b \<le> 0) (chartData rnd env data)" unfolding chartData_def by (rule js.sort_sorted)
  moreover have "\<not> num_less (fst b) (fst a)" if "a \<in> set (chartData rnd env data)" "b \<in> set (chartData rnd env data)" "?c a b \<le> 0" for a b
    using that eq [of a b] num_less_asym [of "fst b" "fst a"]
    by (auto simp: chartData_def js.sort_set key_compare_def dirModifier_def split: if_splits)
  ultimately show "sorted_wrt (\<lambda>a b. \<not> num_less (fst b) (fst a)) (chartData rnd env data)"
    by (rule sorted_wrt_mono_rel [rotated]) 
  show "mset (chartData rnd env data) = mset ?xs" by (simp add: chartData_def js.sort_perm)
qed

text \<open>
  The sum of \<open>k\<close> delays of at most \<open>A\<close>, each addition rounded, is off by at most
  \<open>k * (k + 1) * (A + 1) / 2 ^ 53\<close>.
\<close>

lemma sum_step:
  fixes S T v A e :: real
  assumes "\<bar>S - T\<bar> \<le> real k * (real k + 1) * ((A + 1) * e)" and "\<bar>T\<bar> \<le> real k * A" and "\<bar>v\<bar> \<le> A" and "0 \<le> A"
    and e: "e = 1 / 2 ^ 53" and "real k \<le> 2 ^ 53"
  shows "\<bar>round64 (S + v) - (T + v)\<bar> \<le> real (Suc k) * (real (Suc k) + 1) * ((A + 1) * e)"
proof -
  define K where "K = real k"
  have e0: "0 < e" and K: "0 \<le> K" "K * e \<le> 1" using assms(6) by (simp_all add: e K_def)
  have S: "\<bar>S + v\<bar> \<le> \<bar>S - T\<bar> + K * A + A" using assms(2,3) by (simp add: K_def)
  have "\<bar>round64 (S + v) - (S + v)\<bar> \<le> (\<bar>S + v\<bar> + 1) * e" using round64_error [of "S + v"] by (simp add: e)
  also have "\<dots> \<le> (\<bar>S - T\<bar> + (K * A + A + 1)) * e" using S e0 by (intro mult_right_mono) simp_all
  also have "\<dots> = \<bar>S - T\<bar> * e + (K * A + A + 1) * e" by (rule distrib_right)
  also have "\<bar>S - T\<bar> * e \<le> K * (K + 1) * ((A + 1) * e) * e"
    using assms(1) e0 by (intro mult_right_mono) (simp_all add: K_def)
  also have "\<dots> = (K * e) * ((K + 1) * ((A + 1) * e))" by (simp add: algebra_simps)
  also have "\<dots> \<le> 1 * ((K + 1) * ((A + 1) * e))" using K e0 assms(4) by (intro mult_right_mono) simp_all
  also have "(K * A + A + 1) * e \<le> (K + 1) * ((A + 1) * e)"
    using K e0 by (simp add: algebra_simps)
  finally have "\<bar>round64 (S + v) - (S + v)\<bar> \<le> 2 * ((K + 1) * ((A + 1) * e))" by (simp add: mult_ac)
  then have "\<bar>round64 (S + v) - (T + v)\<bar> \<le> K * (K + 1) * ((A + 1) * e) + 2 * ((K + 1) * ((A + 1) * e))"
    using assms(1) by (simp add: K_def)
  also have "\<dots> = real (Suc k) * (real (Suc k) + 1) * ((A + 1) * e)" by (simp add: K_def algebra_simps)
  finally show ?thesis .
qed

lemma sum_error:
  fixes S T :: real
  assumes "\<bar>S - T\<bar> \<le> real k * (real k + 1) * ((A + 1) * e)" and "\<bar>T\<bar> \<le> real k * A" and "0 \<le> A" and "e = 1 / 2 ^ 53"
    and "\<forall>p \<in> set ps. \<bar>snd p\<bar> \<le> A" and "real (k + length ps) \<le> 2 ^ 53"
  shows "\<bar>fold (\<lambda>p sum. round64 (sum + snd p)) ps S - fold (\<lambda>p sum. sum + snd p) ps T\<bar>
    \<le> real (k + length ps) * (real (k + length ps) + 1) * ((A + 1) * e)"
  using assms(1,2,5,6)
proof (induction ps arbitrary: S T k)
  case (Cons p ps)
  have "\<bar>round64 (S + snd p) - (T + snd p)\<bar> \<le> real (Suc k) * (real (Suc k) + 1) * ((A + 1) * e)"
    using Cons.prems by (intro sum_step [OF _ _ _ assms(3,4)]) simp_all
  moreover have "\<bar>T + snd p\<bar> \<le> real (Suc k) * A"
    using Cons.prems(2) bspec [OF Cons.prems(3), of p] by (simp add: distrib_right)
  ultimately show ?case using Cons.IH [of "round64 (S + snd p)" "T + snd p" "Suc k"] Cons.prems(3,4) by simp
qed simp

lemma sum_between:
  assumes "\<forall>p \<in> set ps. m \<le> snd p \<and> snd p \<le> (M :: real)"
  shows "s + m * real (length ps) \<le> fold (\<lambda>p sum. sum + snd p) ps s \<and> fold (\<lambda>p sum. sum + snd p) ps s \<le> s + M * real (length ps)"
  using assms
proof (induction ps arbitrary: s)
  case (Cons p ps)
  from Cons.IH [of "s + snd p"] Cons.prems show ?case by (simp add: algebra_simps)
qed simp

text \<open>\<open>average_slack n m M\<close>: what the roundings add to an average of \<open>n\<close> numbers between \<open>m\<close> and \<open>M\<close>.\<close>

definition average_slack :: "nat \<Rightarrow> real \<Rightarrow> real \<Rightarrow> real" where
  "average_slack n m M = (real n + 3) * (max \<bar>m\<bar> \<bar>M\<bar> + 1) / 2 ^ 53"

lemma average_between:
  assumes "points \<noteq> []" and "\<And>p. p \<in> set points \<Longrightarrow> m \<le> snd p \<and> snd p \<le> M" and "length points < 2 ^ 32"
  shows "m - average_slack (length points) m M \<le> average round64 points
    \<and> average round64 points \<le> M + average_slack (length points) m M"
proof -
  define n A e where "n = real (length points)" and "A = max \<bar>m\<bar> \<bar>M\<bar>" and "e = (1 / 2 ^ 53 :: real)"
  define S T where "S = fold (\<lambda>p sum. round64 (sum + snd p)) points 0" and "T = fold (\<lambda>p sum. sum + snd p) points (0::real)"
  have "real (length points) < 2 ^ 32" using assms(3) by (metis of_nat_less_iff of_nat_numeral of_nat_power)
  then have n: "0 < n" "n < 2 ^ 32" using assms(1) by (simp_all add: n_def)
  have A: "0 \<le> A" "\<forall>p \<in> set points. \<bar>snd p\<bar> \<le> A" using assms(2) by (fastforce simp: A_def)+
  have T: "m * n \<le> T" "T \<le> M * n" using sum_between [of points m M 0] assms(2) by (auto simp: T_def n_def)
  have "\<bar>S - T\<bar> \<le> n * (n + 1) * ((A + 1) * e)"
    using sum_error [of 0 0 0 A e points] A n by (simp add: S_def T_def n_def e_def)
  then have "\<bar>S / n - T / n\<bar> \<le> n * (n + 1) * ((A + 1) * e) / n"
    unfolding diff_divide_distrib [symmetric] abs_divide using n(1) by (simp only: abs_of_pos divide_right_mono less_imp_le)
  moreover have "n * (n + 1) * ((A + 1) * e) / n = (n + 1) * ((A + 1) * e)" using n(1) by simp
  ultimately have q: "\<bar>S / n - T / n\<bar> \<le> (n + 1) * ((A + 1) * e)" by (simp only:)
  have tn: "m \<le> T / n" "T / n \<le> M" using T n(1) by (simp_all add: field_simps)
  have "(n + 1) * e \<le> 1" using n by (simp add: e_def)
  then have "((n + 1) * e) * (A + 1) \<le> 1 * (A + 1)" using A(1) by (intro mult_right_mono) simp_all
  then have "(n + 1) * ((A + 1) * e) \<le> A + 1" by (simp add: algebra_simps)
  moreover have "\<bar>T / n\<bar> \<le> A" using tn by (auto simp: A_def)
  moreover have "\<bar>S / n\<bar> \<le> \<bar>T / n\<bar> + \<bar>S / n - T / n\<bar>" by (simp add: abs_triangle_ineq2_sym abs_if)
  ultimately have "\<bar>S / n\<bar> + 1 \<le> 2 * (A + 1)" using q by simp
  then have "(\<bar>S / n\<bar> + 1) * e \<le> 2 * (A + 1) * e" by (intro mult_right_mono) (simp_all add: e_def)
  then have "\<bar>round64 (S / n) - S / n\<bar> \<le> 2 * (A + 1) * e" using round64_error [of "S / n"] by (simp add: e_def)
  then have "\<bar>round64 (S / n) - T / n\<bar> \<le> (n + 3) * ((A + 1) * e)" using q by (simp add: algebra_simps)
  also have "\<dots> = average_slack (length points) m M" by (simp add: average_slack_def n_def A_def e_def)
  finally show ?thesis using tn unfolding average_def by (simp add: S_def n_def abs_le_iff)
qed

section \<open>Calm use\<close>

text \<open>The details are not opened again while a timer or a request of the last time is pending.\<close>

fun calm_chart_event :: "(real \<Rightarrow> real) \<Rightarrow> date_env \<Rightarrow> chart_event \<Rightarrow> chart_cell \<Rightarrow> chart_cell" where
  "calm_chart_event rnd env (Cell ButtonClick) s =
     (if 0 < dc_closing (cc_cell s) \<or> dc_rows (cc_cell s) = [] \<and> (0 < cc_timers s \<or> cc_loads s \<noteq> []) then s
      else on_chart_event rnd env (Cell ButtonClick) s)"
| "calm_chart_event rnd env (Cell e) s = s\<lparr>cc_cell := calm_cell_event True e (cc_cell s)\<rparr>"
| "calm_chart_event rnd env e s = on_chart_event rnd env e s"

text \<open>The container of an open row: untouched, loading, or done.\<close>

definition chart_phase :: "chart_cell \<Rightarrow> nat \<Rightarrow> bool" where
  "chart_phase s e \<longleftrightarrow>
     cc_timers s = 1 \<and> cc_loads s = [] \<and> cc_boxes s e = []
   \<or> cc_timers s = 0 \<and> cc_loads s = [e] \<and> cc_boxes s e = [LoadingText]
   \<or> cc_timers s = 0 \<and> cc_loads s = [] \<and> (\<exists>x. cc_boxes s e = [x] \<and> x \<noteq> LoadingText)"

definition chart_ok :: "chart_cell \<Rightarrow> bool" where
  "chart_ok s \<longleftrightarrow> calm_cell (cc_cell s) \<and> cc_timers s + length (cc_loads s) \<le> 1
     \<and> (\<forall>d \<in> set (dc_rows (cc_cell s)) \<union> set (cc_loads s). d < dc_next (cc_cell s))
     \<and> (\<forall>d \<ge> dc_next (cc_cell s). cc_boxes s d = [])
     \<and> (\<forall>e \<in> set (dc_rows (cc_cell s)). chart_phase s e)"

lemma chart_okD:
  assumes "chart_ok s"
  shows "calm_cell (cc_cell s)" "dc_rows (cc_cell s) = [] \<or> (\<exists>e. dc_rows (cc_cell s) = [e])"
  using assms by (auto simp: chart_ok_def calm_cell_def cell_ok_def split: option.splits)

text \<open>No event but the button's adds a row.\<close>

lemma calm_rows:
  assumes "calm_cell c" and "e \<noteq> ButtonClick"
  shows "set (dc_rows (calm_cell_event u e c)) \<subseteq> set (dc_rows c)" "dc_next c \<le> dc_next (calm_cell_event u e c)"
proof -
  have f: "dc_rows (fetchData u d) = dc_rows d" "dc_next (fetchData u d) = dc_next d" for d
    by (simp_all add: fetchData_def Let_def fetch_failed_def split: cell_view.split)
  have a: "dc_rows (delay_answered r d) = dc_rows d" "dc_next d \<le> dc_next (delay_answered r d)" for r d
    by (simp_all add: delay_answered_def Let_def fetch_failed_def split: cell_view.split delay_answer.split)
  show "set (dc_rows (calm_cell_event u e c)) \<subseteq> set (dc_rows c)" "dc_next c \<le> dc_next (calm_cell_event u e c)"
    using assms(2) by (cases e; auto simp: f a remove_details_def split: option.splits outcome.splits if_splits)+
qed

lemma toggle_rows:
  assumes "calm_cell c" and "dc_closing c = 0"
  shows "toggle_details c = c \<or> dc_rows (toggle_details c) = dc_rows c \<and> dc_next (toggle_details c) = dc_next c
    \<or> dc_rows c = [] \<and> dc_rows (toggle_details c) = [dc_next c] \<and> dc_next (toggle_details c) = Suc (dc_next c)"
  using assms attached_ok [of c]
  by (auto simp: toggle_details_def calm_cell_def cell_ok_def split: cell_view.split option.splits)

lemma chart_phase_cell [simp]: "chart_phase (s\<lparr>cc_cell := c\<rparr>) e = chart_phase s e"
  by (simp add: chart_phase_def)

lemma chart_ok_cell:
  assumes "chart_ok s" and "calm_cell c" and "set (dc_rows c) \<subseteq> set (dc_rows (cc_cell s))" and "dc_next (cc_cell s) \<le> dc_next c"
  shows "chart_ok (s\<lparr>cc_cell := c\<rparr>)"
proof -
  have "d < dc_next c" if "d \<in> set (dc_rows c) \<union> set (cc_loads s)" for d
  proof -
    have "d < dc_next (cc_cell s)" using that assms(1,3) by (auto simp: chart_ok_def)
    with assms(4) show ?thesis by simp
  qed
  moreover have "cc_boxes s d = []" if "dc_next c \<le> d" for d using that assms(1,4) by (simp add: chart_ok_def)
  moreover have "chart_phase s e" if "e \<in> set (dc_rows c)" for e using that assms(1,3) by (auto simp: chart_ok_def)
  ultimately show ?thesis using assms(1,2) by (simp add: chart_ok_def)
qed

lemma chart_cell_step:
  assumes "chart_ok s" and "e \<noteq> ButtonClick"
  shows "chart_ok (s\<lparr>cc_cell := calm_cell_event True e (cc_cell s)\<rparr>)"
  using chart_okD(1) [OF assms(1)] assms by (intro chart_ok_cell calm_cell_step calm_rows)

lemma chart_click_step:
  assumes "chart_ok s" and "dc_closing (cc_cell s) = 0"
    and "dc_rows (cc_cell s) \<noteq> [] \<or> cc_timers s = 0 \<and> cc_loads s = []"
  shows "chart_ok (click_details s)"
proof -
  let ?c = "cc_cell s"
  have c: "calm_cell (toggle_details ?c)"
    using calm_cell_step [OF chart_okD(1) [OF assms(1)], of True ButtonClick] assms(2) by simp
  consider "dc_rows (toggle_details ?c) = dc_rows ?c" "dc_next (toggle_details ?c) = dc_next ?c"
    | "dc_rows ?c = []" "dc_rows (toggle_details ?c) = [dc_next ?c]" "dc_next (toggle_details ?c) = Suc (dc_next ?c)"
    using toggle_rows [OF chart_okD(1) [OF assms(1)] assms(2)] by metis
  then show ?thesis
  proof cases
    case 1
    then show ?thesis using assms(1) c by (simp add: click_details_def Let_def chart_ok_def chart_phase_def)
  next
    case 2
    then show ?thesis using assms(1,3) c by (auto simp: click_details_def Let_def chart_ok_def chart_phase_def)
  qed
qed

lemma chart_timer_step:
  assumes "chart_ok s"
  shows "chart_ok (on_chart_event rnd env ChartTimer s)"
proof (cases "cc_timers s = 0")
  case False
  moreover have "cc_timers s + length (cc_loads s) \<le> 1" using assms by (simp add: chart_ok_def)
  ultimately have "cc_timers s = 1" "cc_loads s = []" by (cases "cc_loads s"; simp)+
  then show ?thesis using assms chart_okD(2) [OF assms]
    by (auto simp: loadDelayChart_def container_row_def chart_ok_def chart_phase_def)
qed (use assms in simp)

lemma chart_answer_step:
  assumes "chart_ok s"
  shows "chart_ok (chart_answered rnd env i r s)"
proof (cases "length (cc_loads s) \<le> i")
  case False
  with assms obtain d where d: "cc_loads s = [d]" "i = 0" "cc_timers s = 0"
    by (cases "cc_loads s") (auto simp: chart_ok_def)
  from chart_okD(2) [OF assms] show ?thesis
    using assms d by (cases r) (auto simp: chart_answered_def Let_def container_row_def chart_ok_def chart_phase_def)
qed (use assms in \<open>simp add: chart_answered_def\<close>)

lemma calm_chart_step:
  assumes "chart_ok s"
  shows "chart_ok (calm_chart_event rnd env e s)"
proof (cases e)
  case (Cell c)
  have "chart_ok (s\<lparr>cc_cell := calm_cell_event True c (cc_cell s)\<rparr>)" if "c \<noteq> ButtonClick"
    using chart_cell_step [OF assms that] .
  moreover have "chart_ok (calm_chart_event rnd env (Cell ButtonClick) s)"
    using chart_click_step [OF assms] assms by simp
  ultimately show ?thesis unfolding Cell by (cases c) simp_all
qed (use assms chart_timer_step chart_answer_step in simp_all)

interpretation calm_chart: kept "calm_chart_event rnd env" chart_ok
  by unfold_locales (rule calm_chart_step)

lemma new_chart_ok: "chart_ok new_chart_cell"
proof -
  have "calm_cell new_delay_cell" using new_cell_ok by (simp add: calm_cell_def in_step_def new_delay_cell_def)
  then show ?thesis by (simp add: chart_ok_def new_chart_cell_def new_delay_cell_def)
qed

section \<open>Properties\<close>

text \<open>
  C39: The details show numbers that are right to half a tenth of a minute, in binary64: the text of
  \<open>v\<close> seconds, read back as a number, differs from the exact number of minutes by at most a twentieth,
  for negative delays, too, but for what dividing and reading back round off.
\<close>

theorem minutes_read_back:
  assumes "\<bar>v / 60\<bar> < 10 ^ 20"
  shows "\<exists>y. parseFloat round64 (minutes_text round64 v) = Fin y \<and> \<bar>y - v / 60\<bar> \<le> 1 / 20 + (\<bar>v / 60\<bar> + 1) / 2 ^ 51"
  using minutes_error [OF assms] .

lemma minutes_read_back_witness:
  "\<exists>y. parseFloat round64 (minutes_text round64 (- 100)) = Fin y \<and> \<bar>y + 5 / 3\<bar> \<le> 1 / 20 + 3 / 2 ^ 51"
proof -
  obtain y where "parseFloat round64 (minutes_text round64 (- 100)) = Fin y"
    "\<bar>y - - 100 / 60\<bar> \<le> 1 / 20 + (\<bar>- 100 / 60\<bar> + 1) / 2 ^ 51" using minutes_read_back [of "- 100"] by auto
  then show ?thesis by (intro exI [of _ y]) simp
qed

text \<open>
  C37: The chart's points are the samples in the order of their times, none lost, and the line of the
  average lies between the least and the greatest delay up to what its \<open>n\<close> additions and the division
  round off, all in binary64: three delays of 0.1 have the average 0.10000000000000002.  The delays are
  far from overflowing.
\<close>

theorem chart_points_ordered:
  assumes "\<forall>(ts, v) \<in> set data. date_value env ts \<noteq> None \<and> m \<le> v \<and> v \<le> M" and "data \<noteq> []"
    and "length data < 2 ^ 32" and "max \<bar>m\<bar> \<bar>M\<bar> \<le> 2 ^ 900"
  shows "sorted_wrt (\<lambda>a b. \<not> num_less (fst b) (fst a)) (chartData round64 env data)
    \<and> mset (chartData round64 env data) = mset (map (\<lambda>(ts, v). (point_time round64 env ts, v)) data)
    \<and> m - average_slack (length data) m M \<le> average round64 (chartData round64 env data)
    \<and> average round64 (chartData round64 env data) \<le> M + average_slack (length data) m M"
proof -
  let ?ps = "chartData round64 env data"
  have d: "\<forall>(ts, v) \<in> set data. date_value env ts \<noteq> None" using assms(1) by auto
  note s = chartData_sorted [OF binary64_gradual.gradual_axioms d]
  have set: "set ?ps = set (map (\<lambda>(ts, v). (point_time round64 env ts, v)) data)" using arg_cong [OF s(2), of set_mset] by simp
  have len: "length ?ps = length data" using arg_cong [OF s(2), of size] by simp
  have "m - average_slack (length ?ps) m M \<le> average round64 ?ps \<and> average round64 ?ps \<le> M + average_slack (length ?ps) m M"
  proof (rule average_between)
    show "?ps \<noteq> []" "length ?ps < 2 ^ 32" using len assms(2,3) by auto
    show "m \<le> snd p \<and> snd p \<le> M" if "p \<in> set ?ps" for p using that assms(1) by (auto simp: set)
  qed
  with s show ?thesis by (simp add: len)
qed

definition sample_dates :: date_env where
  "sample_dates = \<lparr>now = 0, date_value = (\<lambda>v. case v of JInt t \<Rightarrow> Some t | _ \<Rightarrow> None), date_local = int_str\<rparr>"

lemma chart_points_ordered_witness:
  "mset (chartData round64 sample_dates [(JInt 2000, 3), (JInt 1000, -1)])
    = mset [(point_time round64 sample_dates (JInt 2000), 3), (point_time round64 sample_dates (JInt 1000), - 1)]
   \<and> average round64 (chartData round64 sample_dates [(JInt 2000, 3), (JInt 1000, -1)]) \<le> 3 + 20 / 2 ^ 53"
proof -
  have "\<forall>(ts, v) \<in> set [(JInt 2000, 3), (JInt 1000, -1)]. date_value sample_dates ts \<noteq> None \<and> - 1 \<le> v \<and> v \<le> (3::real)"
    by (simp add: sample_dates_def)
  moreover have "max \<bar>- 1\<bar> \<bar>3\<bar> \<le> (2::real) ^ 900" by simp
  ultimately show ?thesis using chart_points_ordered [of "[(JInt 2000, 3), (JInt 1000, -1)]" sample_dates "- 1" 3]
    by (simp add: average_slack_def)
qed

text \<open>
  C23: In calm use, where the details are not opened again before the last chart has come, their
  container holds at most one thing, and what it holds is right: nothing until the timer fires, the
  loading text exactly while the request is under way, and then one chart, or one message.
\<close>

theorem one_chart_in_calm:
  assumes "s = fold (calm_chart_event rnd env) es new_chart_cell" and "container_row s = Some e"
  shows "length (cc_boxes s e) \<le> 1
    \<and> (cc_boxes s e = [] \<longleftrightarrow> 0 < cc_timers s) \<and> (cc_boxes s e = [LoadingText] \<longleftrightarrow> cc_loads s = [e])
    \<and> (cc_timers s = 0 \<and> cc_loads s = [] \<longrightarrow> (\<exists>x. cc_boxes s e = [x] \<and> x \<noteq> LoadingText))"
proof -
  have "chart_ok s" unfolding assms(1) by (rule calm_chart.run_inv [OF new_chart_ok])
  moreover have "e \<in> set (dc_rows (cc_cell s))" using assms(2) by (auto simp: container_row_def split: list.splits)
  ultimately have "chart_phase s e" by (simp add: chart_ok_def)
  then show ?thesis by (auto simp: chart_phase_def)
qed

definition chart_start :: "chart_event list" where
  "chart_start = [Cell CellClick, Cell (Answered Delays), Cell ButtonClick, ChartTimer]"

lemma one_chart_in_calm_witness:
  "let s = fold (calm_chart_event id sample_dates) (chart_start @ [ChartAnswered 0 (ChartData [])]) new_chart_cell
   in \<exists>e x. container_row s = Some e \<and> cc_boxes s e = [x] \<and> x \<noteq> LoadingText"
proof -
  let ?s = "fold (calm_chart_event id sample_dates) (chart_start @ [ChartAnswered 0 (ChartData [])]) new_chart_cell"
  have "container_row ?s = Some 1" "cc_timers ?s = 0" "cc_loads ?s = []" by code_simp+
  with one_chart_in_calm [OF refl this(1)] show ?thesis unfolding Let_def by blast
qed

text \<open>
  The answer for details that were closed draws into those that are open now: \<open>createChart\<close> gets the
  element that has the id when the answer comes, but only the old element was emptied.
\<close>

lemma late_chart_added:
  assumes "i < length (cc_loads s)" and "cc_loads s ! i \<noteq> e" and "container_row s = Some e"
    and "chartData rnd env data \<noteq> []"
  shows "cc_boxes (chart_answered rnd env i (ChartData data) s) e = cc_boxes s e @ [Chart (chartData rnd env data)]"
  using assms by (simp add: chart_answered_def Let_def container_row_def)

lemma chartData_empty: "chartData rnd env data = [] \<longleftrightarrow> data = []"
proof -
  have "length (chartData rnd env data) = length data" by (simp add: chartData_def js.sort_length)
  then show ?thesis by (metis length_0_conv)
qed

text \<open>Opened, loaded, closed and opened again; then the second request is answered.\<close>

definition reopened :: "chart_event list" where
  "reopened = [Cell CellClick, Cell (Answered Delays), Cell ButtonClick, ChartTimer, Cell ButtonClick, Cell CloseFires,
     Cell ButtonClick, ChartTimer]"

lemma reopened_state:
  "cc_loads (fold (on_chart_event rnd env) reopened new_chart_cell) = [1, 2]"
  "container_row (fold (on_chart_event rnd env) reopened new_chart_cell) = Some 2"
  by (simp_all add: reopened_def new_chart_cell_def new_delay_cell_def fetchData_def delay_answered_def click_details_def
      toggle_details_def attached_def remove_details_def loadDelayChart_def container_row_def Let_def)

text \<open>
  C24: Two charts can stand in one container.  Whatever samples the server sends, if the details are
  closed and opened again while their chart is loading, and the second request is answered first,
  the open details end up with the charts of both answers.
\<close>

theorem two_charts_in_one_container:
  assumes "data \<noteq> []" and "data' \<noteq> []"
    and "s = fold (on_chart_event rnd env) (reopened @ [ChartAnswered 1 (ChartData data'), ChartAnswered 0 (ChartData data)]) new_chart_cell"
  shows "\<exists>e. container_row s = Some e \<and> cc_boxes s e = [Chart (chartData rnd env data'), Chart (chartData rnd env data)]"
proof -
  let ?s = "fold (on_chart_event rnd env) reopened new_chart_cell"
  let ?t = "chart_answered rnd env 1 (ChartData data') ?s"
  have t: "cc_boxes ?t 2 = [Chart (chartData rnd env data')]" "cc_loads ?t = [1]" "container_row ?t = Some 2"
    using reopened_state [of rnd env] assms(2) by (simp_all add: chart_answered_def Let_def chartData_empty container_row_def)
  have "cc_boxes (chart_answered rnd env 0 (ChartData data) ?t) 2 = cc_boxes ?t 2 @ [Chart (chartData rnd env data)]"
    using t(2,3) assms(1) by (intro late_chart_added) (simp_all add: chartData_empty)
  moreover have "container_row (chart_answered rnd env 0 (ChartData data) ?t) = container_row ?t"
    by (simp add: chart_answered_def Let_def container_row_def split: chart_answer.split list.split)
  ultimately show ?thesis using t by (simp add: assms(3))
qed

lemma two_charts_in_one_container_witness:
  "let s = fold (on_chart_event id sample_dates)
     (reopened @ [ChartAnswered 1 (ChartData [(JInt 0, 2)]), ChartAnswered 0 (ChartData [(JInt 0, 1)])]) new_chart_cell
   in \<exists>e. container_row s = Some e \<and> length (cc_boxes s e) = 2"
  using two_charts_in_one_container [of "[(JInt 0, 1)]" "[(JInt 0, 2)]" _ id sample_dates] by (auto simp: Let_def)

end
