(* ===== verification/Js_Uri.thy ===== *)
theory Js_Uri
  imports Js_Prelude
begin

text \<open>
  \<open>encodeURIComponent\<close> of the language, used for every request URL and for the links of the
  vehicle popup: code units outside the unreserved set are replaced by the percent-encoded
  octets of their UTF-8 form, and an unpaired surrogate throws \<open>URIError\<close> (here \<open>None\<close>).
  \<open>decodeURIComponent\<close> is its inverse, what the server applies to a path segment.
\<close>

definition uri_unreserved :: "16 word \<Rightarrow> bool" where
  "uri_unreserved u \<longleftrightarrow>
     65 \<le> u \<and> u \<le> 90 \<or> 97 \<le> u \<and> u \<le> 122 \<or> 48 \<le> u \<and> u \<le> 57
     \<or> u \<in> {45, 95, 46, 33, 126, 42, 39, 40, 41}"

definition lead_surrogate :: "16 word \<Rightarrow> bool" where
  "lead_surrogate u \<longleftrightarrow> 55296 \<le> unat u \<and> unat u < 56320"

definition trail_surrogate :: "16 word \<Rightarrow> bool" where
  "trail_surrogate u \<longleftrightarrow> 56320 \<le> unat u \<and> unat u < 57344"

definition code_point :: "16 word \<Rightarrow> 16 word \<Rightarrow> nat" where
  "code_point u v = (unat u - 55296) * 1024 + (unat v - 56320) + 65536"

definition utf8 :: "nat \<Rightarrow> nat list" where
  "utf8 c =
     (if c < 128 then [c]
      else if c < 2048 then [192 + c div 64, 128 + c mod 64]
      else if c < 65536 then [224 + c div 4096, 128 + c div 64 mod 64, 128 + c mod 64]
      else [240 + c div 262144, 128 + c div 4096 mod 64, 128 + c div 64 mod 64, 128 + c mod 64])"

definition hex_digit :: "nat \<Rightarrow> 16 word" where
  "hex_digit d = (if d < 10 then 48 + of_nat d else 55 + of_nat d)"

definition pct :: "nat \<Rightarrow> jstring" where
  "pct b = [37, hex_digit (b div 16), hex_digit (b mod 16)]"

definition pct_all :: "nat list \<Rightarrow> jstring" where
  "pct_all bs = concat (map pct bs)"

fun encodeURIComponent :: "jstring \<Rightarrow> jstring option" where
  "encodeURIComponent [] = Some []"
| "encodeURIComponent (u # s) =
     (if uri_unreserved u then map_option ((#) u) (encodeURIComponent s)
      else if trail_surrogate u then None
      else if lead_surrogate u then
        (case s of
           [] \<Rightarrow> None
         | v # t \<Rightarrow>
             if trail_surrogate v
             then map_option ((@) (pct_all (utf8 (code_point u v)))) (encodeURIComponent t)
             else None)
      else map_option ((@) (pct_all (utf8 (unat u)))) (encodeURIComponent s))"

section \<open>The reference inverse\<close>

definition hex_value :: "16 word \<Rightarrow> nat option" where
  "hex_value u =
     (if 48 \<le> u \<and> u \<le> 57 then Some (unat u - 48)
      else if 65 \<le> u \<and> u \<le> 70 then Some (unat u - 55)
      else if 97 \<le> u \<and> u \<le> 102 then Some (unat u - 87)
      else None)"

fun take_octet :: "jstring \<Rightarrow> (nat \<times> jstring) option" where
  "take_octet (p # a # b # s) =
     (if p = 37 then
        (case (hex_value a, hex_value b) of
           (Some x, Some y) \<Rightarrow> Some (x * 16 + y, s)
         | _ \<Rightarrow> None)
      else None)"
| "take_octet _ = None"

fun take_tail :: "nat \<Rightarrow> nat \<Rightarrow> jstring \<Rightarrow> (nat \<times> jstring) option" where
  "take_tail 0 acc s = Some (acc, s)"
| "take_tail (Suc n) acc s =
     (case take_octet s of
        Some (b, t) \<Rightarrow> if 128 \<le> b \<and> b < 192 then take_tail n (acc * 64 + (b - 128)) t else None
      | None \<Rightarrow> None)"

definition utf16 :: "nat \<Rightarrow> jstring" where
  "utf16 c =
     (if c < 65536 then [of_nat c]
      else [of_nat (55296 + (c - 65536) div 1024), of_nat (56320 + (c - 65536) mod 1024)])"

definition take_char :: "jstring \<Rightarrow> (jstring \<times> jstring) option" where
  "take_char s =
     (case take_octet s of
        None \<Rightarrow> None
      | Some (b, t) \<Rightarrow>
          map_option (\<lambda>(c, r). (utf16 c, r))
            (if b < 128 then Some (b, t)
             else if b < 192 then None
             else if b < 224 then take_tail 1 (b - 192) t
             else if b < 240 then take_tail 2 (b - 224) t
             else if b < 248 then take_tail 3 (b - 240) t
             else None))"

lemma take_octet_length: "take_octet s = Some (b, t) \<Longrightarrow> length t < length s"
  by (cases s rule: take_octet.cases) (auto split: if_splits option.splits)

lemma take_tail_length: "take_tail n acc s = Some (c, t) \<Longrightarrow> length t \<le> length s"
  by (induction n acc s rule: take_tail.induct)
    (fastforce split: option.splits if_splits dest: take_octet_length)+

lemma take_char_length: "take_char s = Some (c, t) \<Longrightarrow> length t < length s"
  unfolding take_char_def
  by (auto split: option.splits if_splits dest!: take_octet_length take_tail_length)

function decodeURIComponent :: "jstring \<Rightarrow> jstring option" where
  "decodeURIComponent s =
     (case s of
        [] \<Rightarrow> Some []
      | u # t \<Rightarrow>
          if u \<noteq> 37 then map_option ((#) u) (decodeURIComponent t)
          else (case take_char s of
                  None \<Rightarrow> None
                | Some (c, r) \<Rightarrow> map_option ((@) c) (decodeURIComponent r)))"
  by pat_completeness auto
termination
  by (relation "measure length") (auto dest: take_char_length)

declare decodeURIComponent.simps [simp del]

section \<open>Round trip\<close>

lemma all_below_16:
  assumes "list_all P [0, 1, 2, 3, 4, 5, 6, 7, 8, 9, 10, 11, 12, 13, 14, 15]" and "d < (16 :: nat)"
  shows "P d"
proof -
  have upt: "[0, 1, 2, 3, 4, 5, 6, 7, 8, 9, 10, 11, 12, 13, 14, 15] = [0..<16 :: nat]"
    by code_simp
  from assms(1) have "list_all P [0..<16]" unfolding upt .
  with assms(2) show ?thesis by (simp only: list_all_iff set_upt atLeastLessThan_iff) simp
qed

lemma hex_value_digit: "d < 16 \<Longrightarrow> hex_value (hex_digit d) = Some d"
  by (erule all_below_16 [rotated]) code_simp

lemma take_octet_pct:
  assumes "b < 256"
  shows "take_octet (pct b @ s) = Some (b, s)"
proof -
  from assms have "b div 16 < 16" by (simp add: less_mult_imp_div_less)
  moreover have "b mod 16 < 16" by simp
  ultimately show ?thesis by (simp add: pct_def hex_value_digit)
qed

lemma unat16: "unat (u :: 16 word) < 65536"
  using unsigned_less [of u] by simp

lemma take_tail_pct:
  "128 \<le> b \<Longrightarrow> b < 192 \<Longrightarrow> take_tail (Suc n) acc (pct b @ s) = take_tail n (acc * 64 + (b - 128)) s"
  by (simp add: take_octet_pct)

lemma pct_all_simps [simp]: "pct_all [] = []" "pct_all (b # bs) = pct b @ pct_all bs"
  by (simp_all add: pct_all_def)

lemma recompose2: "(c div 64) * 64 + c mod 64 = (c::nat)"
  by simp

lemma recompose3: "(c div 4096 * 64 + c div 64 mod 64) * 64 + c mod 64 = (c::nat)"
proof -
  have "c div 4096 = c div 64 div 64" by (simp add: div_mult2_eq [symmetric])
  then show ?thesis by simp
qed

lemma recompose3': "4096 * (c div 4096) + c div 64 mod 64 * 64 + c mod 64 = (c::nat)"
  using recompose3 [of c] by (simp add: algebra_simps)

lemma recompose4:
  "((c div 262144 * 64 + c div 4096 mod 64) * 64 + c div 64 mod 64) * 64 + c mod 64 = (c::nat)"
proof -
  have "c div 262144 = c div 4096 div 64" by (simp add: div_mult2_eq [symmetric])
  then have "c div 262144 * 64 + c div 4096 mod 64 = c div 4096" by simp
  then show ?thesis using recompose3 [of c] by simp
qed

lemma recompose4':
  "262144 * (c div 262144) + 4096 * (c div 4096 mod 64) + c div 64 mod 64 * 64 + c mod 64 = (c::nat)"
  using recompose4 [of c] by (simp add: algebra_simps)

lemma take_char_utf8:
  assumes "c < 1114112"
  shows "take_char (pct_all (utf8 c) @ s) = Some (utf16 c, s)"
proof -
  consider "c < 128" | "128 \<le> c" "c < 2048" | "2048 \<le> c" "c < 65536" | "65536 \<le> c"
    by linarith
  then show ?thesis
  proof cases
    case 1
    then show ?thesis by (simp add: take_char_def utf8_def take_octet_pct)
  next
    case 2
    have b: "192 + c div 64 < 224" using 2 by (simp add: less_mult_imp_div_less)
    show ?thesis using 2 b
      by (simp add: take_char_def utf8_def take_octet_pct recompose2)
  next
    case 3
    have b: "224 + c div 4096 < 240" using 3 by (simp add: less_mult_imp_div_less)
    show ?thesis using 3 b
      by (simp add: take_char_def utf8_def take_octet_pct numeral_2_eq_2 recompose3 recompose3')
  next
    case 4
    have b: "240 + c div 262144 < 248" using assms by (simp add: less_mult_imp_div_less)
    show ?thesis using 4 b
      by (simp add: take_char_def utf8_def take_octet_pct numeral_3_eq_3 recompose4 recompose4')
  qed
qed

lemma utf16_unit: "\<not> lead_surrogate u \<Longrightarrow> \<not> trail_surrogate u \<Longrightarrow> utf16 (unat u) = [u]"
  using unat16 [of u] by (simp add: utf16_def)

lemma utf16_pair:
  assumes "lead_surrogate u" and "trail_surrogate v"
  shows "utf16 (code_point u v) = [u, v]"
proof -
  define p q where "p = unat u - 55296" and "q = unat v - 56320"
  from assms have u: "unat u = 55296 + p" and v: "unat v = 56320 + q" and q: "q < 1024"
    by (auto simp: lead_surrogate_def trail_surrogate_def p_def q_def)
  have cp: "code_point u v = 65536 + (p * 1024 + q)"
    by (simp add: code_point_def p_def q_def)
  have d: "(p * 1024 + q) div 1024 = p" and m: "(p * 1024 + q) mod 1024 = q"
    using q by simp_all
  have "of_nat (55296 + p) = u" and "of_nat (56320 + q) = v"
    using u v by (simp_all flip: u v)
  then show ?thesis
    unfolding cp utf16_def using q by (simp add: d m)
qed

lemma code_point_bound:
  assumes "lead_surrogate u" and "trail_surrogate v"
  shows "code_point u v < 1114112"
proof -
  from assms have "unat u - 55296 \<le> 1023" and "unat v - 56320 \<le> 1023"
    unfolding lead_surrogate_def trail_surrogate_def by linarith+
  then show ?thesis by (simp add: code_point_def)
qed

lemma decode_pct_all:
  assumes "c < 1114112"
  shows "decodeURIComponent (pct_all (utf8 c) @ s) = map_option ((@) (utf16 c)) (decodeURIComponent s)"
proof -
  have "\<exists>t. pct_all (utf8 c) @ s = 37 # t"
    by (simp add: utf8_def pct_def)
  then obtain h t where ht: "pct_all (utf8 c) @ s = h # t" and h: "h = 37"
    by blast
  from assms have "take_char (h # t) = Some (utf16 c, s)"
    using ht take_char_utf8 by metis
  with h have "decodeURIComponent (h # t) = map_option ((@) (utf16 c)) (decodeURIComponent s)"
    by (subst decodeURIComponent.simps) simp
  then show ?thesis by (simp only: ht)
qed

lemma unreserved_not_percent: "uri_unreserved u \<Longrightarrow> u \<noteq> 37"
  by (auto simp: uri_unreserved_def)

lemma decode_encode: "encodeURIComponent s = Some e \<Longrightarrow> decodeURIComponent e = Some s"
proof (induction s arbitrary: e rule: encodeURIComponent.induct)
  case 1
  then show ?case by (simp add: decodeURIComponent.simps)
next
  case (2 u s)
  have unit: "unat u < 1114112" using unat16 [of u] by simp
  show ?case
  proof (cases "uri_unreserved u")
    case True
    with 2 show ?thesis
      by (auto simp: decodeURIComponent.simps [of "u # _"] dest: unreserved_not_percent)
  next
    case nu: False
    show ?thesis
    proof (cases "lead_surrogate u")
      case True
      with 2 nu show ?thesis
        by (auto simp: decode_pct_all code_point_bound utf16_pair split: list.splits if_splits)
    next
      case False
      with 2 nu unit show ?thesis
        by (auto simp: decode_pct_all utf16_unit split: if_splits)
    qed
  qed
qed

lemma encode_inj:
  "encodeURIComponent s = Some e \<Longrightarrow> encodeURIComponent t = Some e \<Longrightarrow> s = t"
  by (drule decode_encode)+ simp

section \<open>Which code units an encoded component holds\<close>

definition uri_component_unit :: "16 word \<Rightarrow> bool" where
  "uri_component_unit u \<longleftrightarrow> uri_unreserved u \<or> u = 37"

lemma hex_digit_unreserved: "d < 16 \<Longrightarrow> uri_unreserved (hex_digit d)"
  by (erule all_below_16 [rotated]) code_simp

lemma utf8_octets: "c < 1114112 \<Longrightarrow> b \<in> set (utf8 c) \<Longrightarrow> b < 256"
  by (auto simp: utf8_def less_mult_imp_div_less split: if_splits)

lemma pct_units: "b < 256 \<Longrightarrow> list_all uri_component_unit (pct b)"
  by (simp add: pct_def uri_component_unit_def less_mult_imp_div_less hex_digit_unreserved)

lemma pct_all_units: "c < 1114112 \<Longrightarrow> list_all uri_component_unit (pct_all (utf8 c))"
  unfolding pct_all_def by (fastforce simp: list_all_iff dest: utf8_octets pct_units)

lemma encode_units:
  "encodeURIComponent s = Some e \<Longrightarrow> list_all uri_component_unit e"
proof (induction s arbitrary: e rule: encodeURIComponent.induct)
  case 1
  then show ?case by simp
next
  case (2 v s)
  have unit: "unat v < 1114112" using unat16 [of v] by simp
  show ?case
  proof (cases "uri_unreserved v")
    case True
    with 2 show ?thesis by (auto simp: uri_component_unit_def)
  next
    case nu: False
    show ?thesis
    proof (cases "lead_surrogate v")
      case True
      with 2 nu show ?thesis
        by (auto simp: pct_all_units code_point_bound split: list.splits if_splits)
    next
      case False
      with 2 nu unit show ?thesis
        by (auto simp: pct_all_units split: if_splits)
    qed
  qed
qed

text \<open>The code units that would end a path segment or leave an attribute value.\<close>

lemma component_unit_not_special:
  "uri_component_unit u \<Longrightarrow> u \<notin> {34, 35, 38, 47, 60, 62, 63}"
  by (auto simp: uri_component_unit_def uri_unreserved_def)

lemma encode_no_special:
  "encodeURIComponent s = Some e \<Longrightarrow> set e \<inter> {34, 35, 38, 47, 60, 62, 63} = {}"
  using encode_units [of s e] component_unit_not_special by (fastforce simp: list_all_iff)

text \<open>An encoding exists exactly for the well-formed strings, those without a lone surrogate.\<close>

fun well_formed :: "jstring \<Rightarrow> bool" where
  "well_formed [] = True"
| "well_formed (u # s) =
     (if trail_surrogate u then False
      else if lead_surrogate u then
        (case s of [] \<Rightarrow> False | v # t \<Rightarrow> trail_surrogate v \<and> well_formed t)
      else well_formed s)"

lemma unreserved_no_surrogate:
  assumes "uri_unreserved u"
  shows "\<not> lead_surrogate u" and "\<not> trail_surrogate u"
proof -
  have cut: "u \<le> a \<Longrightarrow> a \<le> 126 \<Longrightarrow> u \<le> 126" for a :: "16 word"
    by (rule order_trans)
  from assms have "u \<le> 126"
    by (auto simp: uri_unreserved_def intro: cut)
  then have "unat u \<le> 126" by (simp add: word_le_nat_alt)
  then show "\<not> lead_surrogate u" and "\<not> trail_surrogate u"
    by (simp_all add: lead_surrogate_def trail_surrogate_def)
qed

lemma encode_defined: "encodeURIComponent s \<noteq> None \<longleftrightarrow> well_formed s"
proof (induction s rule: encodeURIComponent.induct)
  case 1
  then show ?case by simp
next
  case (2 u s)
  then show ?case
    using unreserved_no_surrogate [of u] by (auto split: list.splits)
qed

end
