(* ===== verification/Map_Lifecycle.thy ===== *)
theory Map_Lifecycle
  imports Js_Uri Event_Machine
begin

text \<open>
  The life of a page's map: \<open>initStopMap\<close> and \<open>initRouteMap\<close> with their refresh button, clean-up
  and error path, and the simpler \<open>initNearbyMap\<close>, \<open>initStaticStopMap\<close> and \<open>initAgencyMap\<close>.  The
  state is what the DOM and the live map objects show; a map is a number, \<open>Canvas n\<close> its elements
  in the container.  Payloads are well formed; the map's constructor may throw (no WebGL).
\<close>

section \<open>The page\<close>

datatype child = ErrorText | Canvas nat

record refresh_btn =
  rb_disabled :: bool
  rb_onclick :: bool

record host =
  ho_loader :: "bool option"
  ho_started :: bool
  ho_cleanup :: "nat option"
  ho_maps :: "nat list"
  ho_children :: "child list"
  ho_panels :: "nat list"
  ho_loading :: "nat list"
  ho_pending :: nat
  ho_btn :: "refresh_btn option"
  ho_next :: nat

text \<open>
  \<open>he_wrap\<close>: the container lies in an element with the page's data attributes; \<open>he_globals\<close>: the
  container and the scripts are there; \<open>he_url\<close>: the ids can be encoded in the request's URL.
\<close>

record host_env =
  he_wrap :: bool
  he_globals :: bool
  he_url :: bool

definition stop_map_url :: "jstring \<Rightarrow> jstring option" where
  "stop_map_url stopId = map_option (\<lambda>e. lit ''/api/v1/map/stop/'' @ e) (encodeURIComponent stopId)"

definition route_map_url :: "jstring \<Rightarrow> jstring \<Rightarrow> jstring option" where
  "route_map_url routeId direction =
     (case encodeURIComponent routeId of
        None \<Rightarrow> None
      | Some r \<Rightarrow> map_option (\<lambda>d. lit ''/api/v1/map/route/'' @ r @ lit ''/'' @ d) (encodeURIComponent direction))"

definition new_host :: "bool \<Rightarrow> bool \<Rightarrow> host" where
  "new_host has_loader has_btn =
     \<lparr>ho_loader = (if has_loader then Some True else None), ho_started = False, ho_cleanup = None,
      ho_maps = [], ho_children = [], ho_panels = [], ho_loading = [], ho_pending = 0,
      ho_btn = (if has_btn then Some \<lparr>rb_disabled = False, rb_onclick = False\<rparr> else None), ho_next = 0\<rparr>"

section \<open>The operations\<close>

text \<open>\<open>__stopMapCleanup\<close>, \<open>__routeMapCleanup\<close>.\<close>

definition map_cleanup :: "nat \<Rightarrow> host \<Rightarrow> host" where
  "map_cleanup m h =
     h\<lparr>ho_maps := removeAll m (ho_maps h), ho_loading := removeAll m (ho_loading h),
       ho_children := removeAll (Canvas m) (ho_children h),
       ho_panels := removeAll m (ho_panels h), ho_cleanup := None\<rparr>"

definition set_loader :: "bool \<Rightarrow> host \<Rightarrow> host" where
  "set_loader b h = h\<lparr>ho_loader := map_option (\<lambda>x. b) (ho_loader h)\<rparr>"

text \<open>When the URL cannot be built the function throws before \<open>fetch\<close>.\<close>

definition init_map :: "host_env \<Rightarrow> host \<Rightarrow> host" where
  "init_map env h =
     (if \<not> he_globals env then h
      else let h = (if he_wrap env
                    then case ho_cleanup h of None \<Rightarrow> h | Some m \<Rightarrow> map_cleanup m h else h);
               h = set_loader True h
           in if he_url env then h\<lparr>ho_pending := Suc (ho_pending h)\<rparr> else h)"

text \<open>The \<open>catch\<close> handler; \<open>innerHTML\<close> replaces all children of the container.\<close>

definition show_error :: "host \<Rightarrow> host" where
  "show_error h =
     (let h = set_loader False h
      in h\<lparr>ho_btn := map_option (\<lambda>b. b\<lparr>rb_disabled := False\<rparr>) (ho_btn h), ho_children := [ErrorText]\<rparr>)"

definition create_map :: "host \<Rightarrow> host" where
  "create_map h =
     (let n = ho_next h; h = set_loader False h
      in h\<lparr>ho_maps := ho_maps h @ [n], ho_children := ho_children h @ [Canvas n],
           ho_loading := ho_loading h @ [n], ho_next := Suc n\<rparr>)"

datatype map_response = Payload | NoMap | Failed

definition on_response :: "map_response \<Rightarrow> host \<Rightarrow> host" where
  "on_response r h =
     (if ho_pending h = 0 then h
      else let h = h\<lparr>ho_pending := ho_pending h - 1\<rparr>
           in case r of
                Payload \<Rightarrow> create_map h
              | NoMap \<Rightarrow> show_error (set_loader False h)
              | Failed \<Rightarrow> show_error h)"

text \<open>
  The end of the \<open>load\<close> handler: panel, clean-up, refresh button.  A handler that throws does so
  before the panel is attached.
\<close>

definition on_map_load :: "host_env \<Rightarrow> nat \<Rightarrow> bool \<Rightarrow> host \<Rightarrow> host" where
  "on_map_load env m returns h =
     (if m \<notin> set (ho_loading h) then h
      else let h = h\<lparr>ho_loading := removeAll m (ho_loading h)\<rparr>
           in if \<not> returns then h
              else h\<lparr>ho_panels := ho_panels h @ [m],
                     ho_cleanup := (if he_wrap env then Some m else ho_cleanup h),
                     ho_btn := map_option (\<lambda>b. \<lparr>rb_disabled = False, rb_onclick = True\<rparr>) (ho_btn h)\<rparr>)"

text \<open>A disabled button dispatches no click; \<open>onclick\<close> tests it again.\<close>

definition refresh_click :: "host_env \<Rightarrow> host \<Rightarrow> host" where
  "refresh_click env h =
     (case ho_btn h of
        None \<Rightarrow> h
      | Some b \<Rightarrow>
          if rb_disabled b \<or> \<not> rb_onclick b then h
          else init_map env (h\<lparr>ho_btn := Some (b\<lparr>rb_disabled := True\<rparr>)\<rparr>))"

text \<open>\<open>doInit\<close> of the embed, guarded by the flag in the element's dataset.\<close>

definition start_map :: "host_env \<Rightarrow> host \<Rightarrow> host" where
  "start_map env h =
     (if ho_started h then h
      else if \<not> he_globals env then h
      else init_map env (h\<lparr>ho_started := True\<rparr>))"

datatype host_event = StartMap | Response map_response | MapLoad nat bool | RefreshClick

fun on_host_event :: "host_env \<Rightarrow> host_event \<Rightarrow> host \<Rightarrow> host" where
  "on_host_event env StartMap h = start_map env h"
| "on_host_event env (Response r) h = on_response r h"
| "on_host_event env (MapLoad m b) h = on_map_load env m b h"
| "on_host_event env RefreshClick h = refresh_click env h"

section \<open>The pages without refresh\<close>

text \<open>
  \<open>initNearbyMap\<close>, \<open>initStaticStopMap\<close> and \<open>initAgencyMap\<close> neither clean up nor show the loader
  again; only the agency map attaches a panel.
\<close>

definition plain_init :: "host_env \<Rightarrow> host \<Rightarrow> host" where
  "plain_init env h =
     (if \<not> he_globals env then h
      else if he_url env then h\<lparr>ho_pending := Suc (ho_pending h)\<rparr> else h)"

definition plain_show_error :: "host \<Rightarrow> host" where
  "plain_show_error h = (set_loader False h)\<lparr>ho_children := [ErrorText]\<rparr>"

definition plain_response :: "map_response \<Rightarrow> host \<Rightarrow> host" where
  "plain_response r h =
     (if ho_pending h = 0 then h
      else let h = h\<lparr>ho_pending := ho_pending h - 1\<rparr>
           in case r of
                Payload \<Rightarrow> create_map h
              | NoMap \<Rightarrow> plain_show_error (set_loader False h)
              | Failed \<Rightarrow> plain_show_error h)"

definition agency_map_loaded :: "nat \<Rightarrow> bool \<Rightarrow> host \<Rightarrow> host" where
  "agency_map_loaded m returns h =
     (if m \<notin> set (ho_loading h) then h
      else let h = h\<lparr>ho_loading := removeAll m (ho_loading h)\<rparr>
           in if returns then h\<lparr>ho_panels := ho_panels h @ [m]\<rparr> else h)"

section \<open>The invariant\<close>

definition canvases :: "child list \<Rightarrow> nat list" where
  "canvases cs = concat (map (\<lambda>c. case c of Canvas n \<Rightarrow> [n] | ErrorText \<Rightarrow> []) cs)"

lemma canvases_simps [simp]:
  "canvases [] = []" "canvases (Canvas n # cs) = n # canvases cs" "canvases (ErrorText # cs) = canvases cs"
  "canvases (cs @ ds) = canvases cs @ canvases ds"
  by (simp_all add: canvases_def)

lemma canvases_removeAll [simp]: "canvases (removeAll (Canvas m) cs) = removeAll m (canvases cs)"
proof (induction cs)
  case Nil
  then show ?case by simp
next
  case (Cons c cs)
  then show ?case by (cases c) auto
qed

definition enabled :: "host \<Rightarrow> bool" where
  "enabled h \<longleftrightarrow> (case ho_btn h of None \<Rightarrow> False | Some b \<Rightarrow> \<not> rb_disabled b \<and> rb_onclick b)"

text \<open>
  A map is awaited (a request or its load event is pending) or not.  While one is, there is no
  panel, nothing to clean up, and the refresh button does nothing.
\<close>

definition awaiting :: "host \<Rightarrow> bool" where
  "awaiting h \<longleftrightarrow> \<not> enabled h \<and> ho_cleanup h = None \<and> ho_panels h = [] \<and> ho_started h
     \<and> (ho_pending h = 1 \<and> ho_loading h = [] \<and> ho_maps h = []
        \<or> ho_pending h = 0 \<and> (\<exists>m. ho_loading h = [m] \<and> ho_maps h = [m]))"

definition settled :: "host \<Rightarrow> bool" where
  "settled h \<longleftrightarrow> ho_pending h = 0 \<and> ho_loading h = []
     \<and> ((\<exists>m. ho_maps h = [m] \<and> ho_panels h = [m] \<and> ho_cleanup h = Some m)
        \<or> ho_cleanup h = None \<and> ho_panels h = [] \<and> (ho_maps h = [] \<or> (\<exists>m. ho_maps h = [m]) \<and> \<not> enabled h))
     \<and> (\<not> ho_started h \<longrightarrow> ho_maps h = [] \<and> \<not> enabled h)"

definition host_ok :: "host \<Rightarrow> bool" where
  "host_ok h \<longleftrightarrow> (awaiting h \<or> settled h) \<and> canvases (ho_children h) = ho_maps h"

lemma enabled_simps [simp]:
  "enabled (h\<lparr>ho_maps := a\<rparr>) = enabled h" "enabled (h\<lparr>ho_children := x\<rparr>) = enabled h"
  "enabled (h\<lparr>ho_panels := a\<rparr>) = enabled h" "enabled (h\<lparr>ho_loading := a\<rparr>) = enabled h"
  "enabled (h\<lparr>ho_pending := n\<rparr>) = enabled h" "enabled (h\<lparr>ho_cleanup := c\<rparr>) = enabled h"
  "enabled (h\<lparr>ho_next := n\<rparr>) = enabled h" "enabled (h\<lparr>ho_started := s\<rparr>) = enabled h"
  "enabled (h\<lparr>ho_loader := l\<rparr>) = enabled h"
  "enabled (h\<lparr>ho_btn := b\<rparr>) \<longleftrightarrow> (case b of None \<Rightarrow> False | Some b \<Rightarrow> \<not> rb_disabled b \<and> rb_onclick b)"
  by (simp_all add: enabled_def)

lemma init_map_ok:
  assumes "he_wrap env" and "settled h" and "canvases (ho_children h) = ho_maps h"
    and "\<not> enabled h" and "ho_started h" and "ho_cleanup h \<noteq> None \<or> ho_maps h = []"
  shows "host_ok (init_map env h)"
proof (cases "he_globals env")
  case False
  then show ?thesis using assms(2,3) by (simp add: init_map_def host_ok_def)
next
  case True
  define g where "g = set_loader True (case ho_cleanup h of None \<Rightarrow> h | Some m \<Rightarrow> map_cleanup m h)"
  have g: "ho_maps g = []" "ho_cleanup g = None" "ho_panels g = []" "ho_loading g = []" "ho_pending g = 0"
    "ho_started g" "\<not> enabled g" "canvases (ho_children g) = []"
    using assms by (cases "ho_cleanup h"; auto simp: g_def set_loader_def map_cleanup_def settled_def)+
  have "init_map env h = (if he_url env then g\<lparr>ho_pending := Suc (ho_pending g)\<rparr> else g)"
    using True assms(1) by (simp add: init_map_def g_def Let_def)
  then show ?thesis using g by (simp add: host_ok_def awaiting_def settled_def)
qed

lemma host_event_ok:
  assumes "he_wrap env" and "host_ok h"
  shows "host_ok (on_host_event env e h)"
proof (cases e)
  case StartMap
  show ?thesis
  proof (cases "ho_started h \<or> \<not> he_globals env")
    case True
    then show ?thesis using assms(2) by (auto simp: StartMap start_map_def)
  next
    case False
    then have "settled h" using assms(2) by (auto simp: host_ok_def awaiting_def)
    with False assms(2) have "settled (h\<lparr>ho_started := True\<rparr>)" "\<not> enabled h" "ho_maps h = []"
      by (auto simp: settled_def)
    then have "host_ok (init_map env (h\<lparr>ho_started := True\<rparr>))"
      using False assms by (intro init_map_ok) (simp_all add: host_ok_def)
    with False show ?thesis by (simp add: StartMap start_map_def)
  qed
next
  case (Response r)
  show ?thesis
  proof (cases "ho_pending h = 0")
    case True
    then show ?thesis using assms(2) by (simp add: Response on_response_def)
  next
    case False
    then have h: "ho_pending h = 1" "ho_loading h = []" "ho_maps h = []" "ho_cleanup h = None"
      "ho_panels h = []" "\<not> enabled h" "ho_started h" "canvases (ho_children h) = []"
      using assms(2) by (auto simp: host_ok_def awaiting_def settled_def)
    then show ?thesis
      by (cases r) (simp_all add: Response on_response_def create_map_def show_error_def set_loader_def
          Let_def host_ok_def awaiting_def settled_def)
  qed
next
  case (MapLoad m b)
  show ?thesis
  proof (cases "m \<in> set (ho_loading h)")
    case False
    then show ?thesis using assms(2) by (simp add: MapLoad on_map_load_def)
  next
    case True
    then have h: "ho_pending h = 0" "ho_loading h = [m]" "ho_maps h = [m]" "ho_cleanup h = None"
      "ho_panels h = []" "\<not> enabled h" "ho_started h" "canvases (ho_children h) = [m]"
      using assms(2) by (auto simp: host_ok_def awaiting_def settled_def)
    then show ?thesis
      using assms(1) by (simp add: MapLoad on_map_load_def Let_def host_ok_def settled_def)
  qed
next
  case RefreshClick
  show ?thesis
  proof (cases "enabled h")
    case False
    then have "refresh_click env h = h" by (auto simp: refresh_click_def enabled_def split: option.splits)
    then show ?thesis using assms(2) by (simp add: RefreshClick)
  next
    case True
    then obtain b where b: "ho_btn h = Some b" "\<not> rb_disabled b" "rb_onclick b"
      by (auto simp: enabled_def split: option.splits)
    from True assms(2) have s: "settled h" "ho_started h" "ho_cleanup h \<noteq> None \<or> ho_maps h = []"
      by (auto simp: host_ok_def awaiting_def settled_def)
    from s(1) have "settled (h\<lparr>ho_btn := Some (b\<lparr>rb_disabled := True\<rparr>)\<rparr>)" by (auto simp: settled_def)
    then have "host_ok (init_map env (h\<lparr>ho_btn := Some (b\<lparr>rb_disabled := True\<rparr>)\<rparr>))"
      using s assms by (intro init_map_ok) (simp_all add: host_ok_def)
    with b show ?thesis by (simp add: RefreshClick refresh_click_def)
  qed
qed

text \<open>The contract is interpreted on the pages' environment, which has the wrapper.\<close>

interpretation map_host: kept "on_host_event (env\<lparr>he_wrap := True\<rparr>)" host_ok
  by unfold_locales (rule host_event_ok, simp_all)

lemma new_host_ok: "host_ok (new_host l b)"
  by (simp add: host_ok_def settled_def new_host_def enabled_def)

section \<open>Properties\<close>

lemma reached_host: "he_wrap env \<Longrightarrow> host_ok (fold (on_host_event env) es (new_host l b))"
proof -
  assume "he_wrap env"
  then have "env\<lparr>he_wrap := True\<rparr> = env" by (cases env) simp
  then show ?thesis using map_host.run_inv [OF new_host_ok, of env es l b] by simp
qed

text \<open>
  C3: Over every sequence of starts, answers, load events (returning or throwing) and clicks on
  the refresh button, the page has at most one live map, whose elements are the only map elements
  in the container; at most one request or load event is awaited; a panel and a clean-up function
  belong to the live map; and the refresh button works only while nothing is awaited.
\<close>

theorem one_live_map:
  assumes "he_wrap env" and "h = fold (on_host_event env) es (new_host l b)"
  shows "length (ho_maps h) \<le> 1 \<and> canvases (ho_children h) = ho_maps h
     \<and> ho_pending h + length (ho_loading h) \<le> 1
     \<and> (ho_panels h = [] \<or> ho_panels h = ho_maps h)
     \<and> (\<forall>m. ho_cleanup h = Some m \<longrightarrow> ho_maps h = [m])
     \<and> (enabled h \<longrightarrow> ho_pending h = 0 \<and> ho_loading h = [])"
  using reached_host [OF assms(1), of es l b]
  unfolding assms(2) [symmetric] host_ok_def awaiting_def settled_def by auto

lemma one_live_map_witness:
  "let h = fold (on_host_event \<lparr>he_wrap = True, he_globals = True, he_url = True\<rparr>)
        [StartMap, Response Payload, MapLoad 0 True, RefreshClick, RefreshClick, Response Payload] (new_host True True)
   in length (ho_maps h) \<le> 1"
proof -
  have "he_wrap \<lparr>he_wrap = True, he_globals = True, he_url = True\<rparr>" by simp
  from one_live_map [OF this refl] show ?thesis unfolding Let_def by (rule conjunct1)
qed

lemma only_errors_left:
  "canvases cs = [] \<Longrightarrow> filter (\<lambda>c. c = ErrorText) cs = cs"
proof (induction cs)
  case Nil
  then show ?case by simp
next
  case (Cons c cs)
  then show ?case by (cases c) auto
qed

lemma filter_removed: "filter (\<lambda>c. c = ErrorText) (removeAll (Canvas m) cs) = filter (\<lambda>c. c = ErrorText) cs"
  by (induction cs) auto

text \<open>
  Refreshing works: from any reachable state in which the button is enabled, a click, the
  answer and the new map's load event replace the old map by the new one, with its panel and its
  clean-up function, hide the loader and enable the button again.  What the refresh does not remove
  is the error text: every error paragraph that was in the container stays there, before the new
  map.
\<close>

theorem refresh_replaces_map:
  assumes "he_wrap env" and "he_globals env" and "he_url env"
    and "h = fold (on_host_event env) es (new_host l b)" and "enabled h" and "n = ho_next h"
    and "t = fold (on_host_event env) [RefreshClick, Response Payload, MapLoad n True] h"
  shows "ho_maps t = [n] \<and> ho_panels t = [n] \<and> ho_cleanup t = Some n \<and> enabled t
     \<and> ho_loader t \<noteq> Some True \<and> ho_pending t = 0 \<and> ho_loading t = []
     \<and> ho_children t = filter (\<lambda>c. c = ErrorText) (ho_children h) @ [Canvas n]"
proof -
  from reached_host [OF assms(1)] have ok: "host_ok h" unfolding assms(4) .
  with assms(5) have s: "settled h" by (auto simp: host_ok_def awaiting_def)
  obtain b where b: "ho_btn h = Some b" "\<not> rb_disabled b" "rb_onclick b"
    using assms(5) by (auto simp: enabled_def split: option.splits)
  let ?h = "h\<lparr>ho_btn := Some (b\<lparr>rb_disabled := True\<rparr>)\<rparr>"
  have i: "ho_maps (init_map env ?h) = []" "ho_panels (init_map env ?h) = []" "ho_loading (init_map env ?h) = []"
    "ho_pending (init_map env ?h) = 1" "ho_next (init_map env ?h) = n"
    "ho_btn (init_map env ?h) = Some (b\<lparr>rb_disabled := True\<rparr>)"
    "filter (\<lambda>c. c = ErrorText) (ho_children (init_map env ?h)) = filter (\<lambda>c. c = ErrorText) (ho_children h)"
    "canvases (ho_children (init_map env ?h)) = []"
    using assms(1-3,5,6) s ok
    by (auto simp: init_map_def Let_def set_loader_def map_cleanup_def settled_def filter_removed host_ok_def
        split: option.splits)
  have r: "on_host_event env RefreshClick h = init_map env ?h"
    using b by (simp add: refresh_click_def)
  show ?thesis
    unfolding assms(7) fold.simps comp_def id_def r
    using i assms(1) only_errors_left [OF i(8)]
    by (auto simp: on_response_def create_map_def set_loader_def Let_def on_map_load_def)
qed

lemma refresh_replaces_map_witness:
  "let env = \<lparr>he_wrap = True, he_globals = True, he_url = True\<rparr>;
       h = fold (on_host_event env) [StartMap, Response Payload, MapLoad 0 True, RefreshClick, Response Failed]
             (new_host True True);
       t = fold (on_host_event env) [RefreshClick, Response Payload, MapLoad 1 True] h
   in ho_children t = [ErrorText, Canvas 1] \<and> ho_maps t = [1]"
proof -
  let ?env = "\<lparr>he_wrap = True, he_globals = True, he_url = True\<rparr>"
  let ?h = "fold (on_host_event ?env) [StartMap, Response Payload, MapLoad 0 True, RefreshClick, Response Failed]
             (new_host True True)"
  have h: "enabled ?h" "ho_next ?h = 1" "ho_children ?h = [ErrorText]"
    by (simp_all add: enabled_def start_map_def init_map_def set_loader_def new_host_def on_response_def create_map_def
        on_map_load_def refresh_click_def map_cleanup_def show_error_def Let_def)
  have e: "he_wrap ?env" "he_globals ?env" "he_url ?env" by simp_all
  from refresh_replaces_map [OF e refl h(1) h(2) [symmetric] refl] show ?thesis
    unfolding Let_def h(3) by simp
qed

text \<open>
  When the first request fails, the page offers a retry that does nothing: the refresh button is
  enabled, but its \<open>onclick\<close> is only set at the end of a load handler, so no click and no other
  event changes anything any more and the error text stays.
\<close>

theorem first_failure_is_final:
  assumes "he_globals env" and "he_url env" and "r \<noteq> Payload"
    and "h = fold (on_host_event env) [StartMap, Response r] (new_host l True)"
  shows "ho_btn h = Some \<lparr>rb_disabled = False, rb_onclick = False\<rparr> \<and> ho_children h = [ErrorText]
     \<and> ho_maps h = [] \<and> (\<forall>es. fold (on_host_event env) es h = h)"
proof -
  have h: "ho_btn h = Some \<lparr>rb_disabled = False, rb_onclick = False\<rparr>" "ho_children h = [ErrorText]"
    "ho_maps h = []" "ho_started h" "ho_pending h = 0" "ho_loading h = []"
    using assms(1-3)
    by (cases r; simp add: assms(4) start_map_def init_map_def set_loader_def new_host_def on_response_def
        show_error_def Let_def)+
  then have "on_host_event env e h = h" for e
    by (cases e) (simp_all add: start_map_def on_response_def on_map_load_def refresh_click_def)
  then have "fold (on_host_event env) es h = h" for es by (induction es) simp_all
  with h show ?thesis by blast
qed

lemma first_failure_is_final_witness:
  "let env = \<lparr>he_wrap = True, he_globals = True, he_url = True\<rparr>;
       h = fold (on_host_event env) [StartMap, Response Failed] (new_host True True)
   in on_host_event env RefreshClick h = h \<and> ho_children h = [ErrorText]"
proof -
  let ?env = "\<lparr>he_wrap = True, he_globals = True, he_url = True\<rparr>"
  have e: "he_globals ?env" "he_url ?env" "Failed \<noteq> Payload" by simp_all
  have "fold (on_host_event ?env) [RefreshClick] (fold (on_host_event ?env) [StartMap, Response Failed] (new_host True True))
      = fold (on_host_event ?env) [StartMap, Response Failed] (new_host True True)"
    using first_failure_is_final [OF e refl] by blast
  then show ?thesis using first_failure_is_final [OF e refl, of True] by (simp only: Let_def fold.simps comp_def id_def)
qed

end
