(* ===== verification/Map_Style.thy ===== *)
theory Map_Style
  imports Js_Prelude
begin

text \<open>
  The part of MapLibre's style object that the client uses (vendored, minified, in
  \<open>static/maplibre-gl.5.21.1.js\<close>): sources, the ordered list of layers, images, and the error
  events the style fires.  \<open>addSource\<close> throws on a taken id; \<open>addLayer\<close> on a taken id and style
  changes on a missing layer fire an error event and change nothing else.  Style expressions are
  a datatype with the operators the client writes, and \<open>eval\<close> gives them MapLibre's meaning on a
  feature's properties.  The contract the panels rely on is the locale \<open>layer_store\<close>.
\<close>

section \<open>Features, expressions, layers\<close>

datatype geometry =
    Point real real
  | LineString "(real \<times> real) list"
  | Polygon "(real \<times> real) list list"

text \<open>
  A GeoJSON feature.  Numeric properties that are only read as numbers are kept apart from the
  scalar ones; a null geometry is \<open>None\<close>.
\<close>

record feature =
  f_geometry :: "geometry option"
  f_props :: "(string \<times> jsval) list"
  f_nums :: "(string \<times> real) list"

datatype source = FeatureData feature | CollectionData "feature list" | RasterTiles "jstring list"

fun source_features :: "source \<Rightarrow> feature list" where
  "source_features (FeatureData f) = [f]"
| "source_features (CollectionData fs) = fs"
| "source_features (RasterTiles ts) = []"

datatype expr =
    Get string
  | Lit jsval
  | EqE expr expr
  | AllE "expr list"
  | ToString expr
  | Coalesce "expr list"

datatype prop_value =
    PNum real
  | PStr jstring
  | PBool bool
  | PNums "real list"
  | PStrs "jstring list"
  | PExpr expr

record layer =
  l_id :: jstring
  l_type :: string
  l_source :: jstring
  l_minzoom :: "real option"
  l_filter :: "expr option"
  l_layout :: "(string \<times> prop_value) list"
  l_paint :: "(string \<times> prop_value) list"

section \<open>Expressions on a feature\<close>

definition get_prop :: "feature \<Rightarrow> string \<Rightarrow> jsval" where
  "get_prop f k = (case map_of (f_props f) k of Some v \<Rightarrow> if v = JUndef then JNull else v | None \<Rightarrow> JNull)"

text \<open>\<open>to-string\<close> maps null to the empty string.\<close>

definition expr_to_string :: "jsval \<Rightarrow> jstring" where
  "expr_to_string v = (if nullish v then [] else to_str v)"

fun first_non_null :: "jsval list \<Rightarrow> jsval" where
  "first_non_null [] = JNull"
| "first_non_null (v # vs) = (if nullish v then first_non_null vs else v)"

fun eval :: "feature \<Rightarrow> expr \<Rightarrow> jsval" where
  "eval f (Get k) = get_prop f k"
| "eval f (Lit v) = v"
| "eval f (EqE a b) = JBool (eval f a = eval f b)"
| "eval f (AllE es) = JBool (list_all (\<lambda>e. eval f e = JBool True) es)"
| "eval f (ToString e) = JStr (expr_to_string (eval f e))"
| "eval f (Coalesce es) = first_non_null (map (eval f) es)"

text \<open>A layer draws the features of its source that pass its filter.\<close>

definition draws :: "layer \<Rightarrow> feature \<Rightarrow> bool" where
  "draws l f = (case l_filter l of None \<Rightarrow> True | Some e \<Rightarrow> eval f e = JBool True)"

definition get_num :: "feature \<Rightarrow> string \<Rightarrow> real option" where
  "get_num f k = map_of (f_nums f) k"

section \<open>The map object\<close>

text \<open>
  The calls the client makes on a 2d canvas context.  A bitmap read back from a canvas is the list
  of calls that drew it, with the size of the canvas; the marker image is the rasterized SVG file.
\<close>

datatype canvas_cmd =
    ClearRect real real real real
  | BeginPath
  | RoundRect real real real real real
  | Rect real real real real
  | MoveTo real real
  | LineTo real real
  | ClosePath
  | Fill
  | Stroke
  | FillStyle jsval
  | StrokeStyle jstring
  | LineWidth real
  | LineJoin string
  | LineCap string

datatype image = MonoMarker nat | Bitmap nat "canvas_cmd list"

text \<open>
  The handlers the client registers for layer events.  \<open>StopPopup\<close> and \<open>VehiclePopup\<close> open the
  popup of the clicked feature and close the other one, \<open>PlainStopPopup\<close> is that of the pages with
  one popup; the others set the cursor.
\<close>

datatype handler = StopPopup | VehiclePopup | PlainStopPopup | CursorPointer | CursorReset

text \<open>\<open>m_glyphs\<close> is where the style has its glyphs from; without it no text can be drawn.\<close>

record style_map =
  m_sources :: "jstring \<rightharpoonup> source"
  m_glyphs :: "jstring option"
  m_layers :: "layer list"
  m_images :: "jstring \<rightharpoonup> image"
  m_errors :: "string list"
  m_controls :: "(string \<times> string) list"
  m_listeners :: "(string \<times> jstring \<times> handler) list"

definition empty_map :: style_map where
  "empty_map = \<lparr>m_sources = Map.empty, m_glyphs = None, m_layers = [], m_images = Map.empty, m_errors = [],
     m_controls = [], m_listeners = []\<rparr>"

definition addControl :: "string \<Rightarrow> string \<Rightarrow> style_map \<Rightarrow> style_map" where
  "addControl c pos m = m\<lparr>m_controls := m_controls m @ [(c, pos)]\<rparr>"

text \<open>\<open>map.on(type, layerId, listener)\<close>.\<close>

definition on_layer :: "string \<Rightarrow> jstring \<Rightarrow> handler \<Rightarrow> style_map \<Rightarrow> style_map" where
  "on_layer e i h m = m\<lparr>m_listeners := m_listeners m @ [(e, i, h)]\<rparr>"

definition fire_error :: "string \<Rightarrow> style_map \<Rightarrow> style_map" where
  "fire_error e m = m\<lparr>m_errors := m_errors m @ [e]\<rparr>"

definition addSource :: "jstring \<Rightarrow> source \<Rightarrow> style_map \<Rightarrow> style_map outcome" where
  "addSource i s m =
     (if m_sources m i \<noteq> None then Thrown (GenericError ''Source already exists.'') m
      else Done (m\<lparr>m_sources := (m_sources m)(i \<mapsto> s)\<rparr>))"

definition getLayer :: "style_map \<Rightarrow> jstring \<Rightarrow> layer option" where
  "getLayer m i = List.find (\<lambda>l. l_id l = i) (m_layers m)"

definition addLayer :: "layer \<Rightarrow> style_map \<Rightarrow> style_map" where
  "addLayer l m =
     (if getLayer m (l_id l) \<noteq> None then fire_error ''Layer already exists on this map.'' m
      else m\<lparr>m_layers := m_layers m @ [l]\<rparr>)"

fun upsert :: "string \<Rightarrow> prop_value \<Rightarrow> (string \<times> prop_value) list \<Rightarrow> (string \<times> prop_value) list" where
  "upsert k v [] = [(k, v)]"
| "upsert k v ((k', v') # ps) = (if k' = k then (k, v) # ps else (k', v') # upsert k v ps)"

definition update_layer :: "jstring \<Rightarrow> (layer \<Rightarrow> layer) \<Rightarrow> style_map \<Rightarrow> style_map" where
  "update_layer i g m = m\<lparr>m_layers := map (\<lambda>l. if l_id l = i then g l else l) (m_layers m)\<rparr>"

definition setLayoutProperty :: "jstring \<Rightarrow> string \<Rightarrow> prop_value \<Rightarrow> style_map \<Rightarrow> style_map" where
  "setLayoutProperty i k v m =
     (if getLayer m i = None then fire_error ''Cannot style non-existing layer.'' m
      else update_layer i (\<lambda>l. l\<lparr>l_layout := upsert k v (l_layout l)\<rparr>) m)"

definition setPaintProperty :: "jstring \<Rightarrow> string \<Rightarrow> prop_value \<Rightarrow> style_map \<Rightarrow> style_map" where
  "setPaintProperty i k v m =
     (if getLayer m i = None then fire_error ''Cannot style non-existing layer.'' m
      else update_layer i (\<lambda>l. l\<lparr>l_paint := upsert k v (l_paint l)\<rparr>) m)"

definition hasImage :: "style_map \<Rightarrow> jstring \<Rightarrow> bool" where
  "hasImage m i \<longleftrightarrow> i \<noteq> [] \<and> m_images m i \<noteq> None"

definition addImage :: "jstring \<Rightarrow> image \<Rightarrow> style_map \<Rightarrow> style_map" where
  "addImage i img m =
     (if m_images m i \<noteq> None then fire_error ''An image with this name already exists.'' m
      else m\<lparr>m_images := (m_images m)(i \<mapsto> img)\<rparr>)"

text \<open>A layer is shown unless its layout says \<open>visibility: none\<close>.\<close>

definition layer_visible :: "layer \<Rightarrow> bool" where
  "layer_visible l \<longleftrightarrow> map_of (l_layout l) ''visibility'' \<noteq> Some (PStr (lit ''none''))"

definition layer_shown :: "style_map \<Rightarrow> jstring \<Rightarrow> bool" where
  "layer_shown m i = (case getLayer m i of Some l \<Rightarrow> layer_visible l | None \<Rightarrow> False)"

definition layer_ids :: "style_map \<Rightarrow> jstring list" where
  "layer_ids m = map l_id (m_layers m)"

section \<open>Laws of the style object\<close>

lemma getLayer_None_iff: "getLayer m i = None \<longleftrightarrow> i \<notin> set (layer_ids m)"
  by (auto simp: getLayer_def layer_ids_def find_None_iff)

lemma getLayer_Some_iff: "(\<exists>l. getLayer m i = Some l) \<longleftrightarrow> i \<in> set (layer_ids m)"
  using getLayer_None_iff [of m i] by auto

lemma getLayer_id: "getLayer m i = Some l \<Longrightarrow> l_id l = i"
  by (auto simp: getLayer_def find_Some_iff)

lemma find_map_update:
  assumes "\<And>l. l_id (g l) = l_id l"
  shows "List.find (\<lambda>l. l_id l = j) (map (\<lambda>l. if l_id l = i then g l else l) ls)
    = map_option (\<lambda>l. if j = i then g l else l) (List.find (\<lambda>l. l_id l = j) ls)"
  using assms by (induction ls) auto

lemma getLayer_update:
  "(\<And>l. l_id (g l) = l_id l) \<Longrightarrow>
   getLayer (update_layer i g m) j = map_option (\<lambda>l. if j = i then g l else l) (getLayer m j)"
  by (simp add: getLayer_def update_layer_def find_map_update)

lemma layer_ids_update [simp]:
  "(\<And>l. l_id (g l) = l_id l) \<Longrightarrow> layer_ids (update_layer i g m) = layer_ids m"
  by (simp add: layer_ids_def update_layer_def)

lemma m_layers_fire_error [simp]: "m_layers (fire_error e m) = m_layers m"
  by (simp add: fire_error_def)

lemma getLayer_fire_error [simp]: "getLayer (fire_error e m) i = getLayer m i"
  by (simp add: getLayer_def fire_error_def)

lemma layer_ids_fire_error [simp]: "layer_ids (fire_error e m) = layer_ids m"
  by (simp add: layer_ids_def fire_error_def)

lemma map_of_upsert: "map_of (upsert k v ps) k' = (if k' = k then Some v else map_of ps k')"
  by (induction k v ps rule: upsert.induct) auto

lemma find_append:
  "List.find P (xs @ ys) = (case List.find P xs of None \<Rightarrow> List.find P ys | Some x \<Rightarrow> Some x)"
  by (induction xs) auto

lemma getLayer_addLayer:
  "getLayer (addLayer l m) i =
     (if i = l_id l \<and> getLayer m i = None then Some l else getLayer m i)"
  by (auto simp: addLayer_def getLayer_def find_append split: option.splits)

lemma layer_ids_addLayer:
  "layer_ids (addLayer l m) =
     (if l_id l \<in> set (layer_ids m) then layer_ids m else layer_ids m @ [l_id l])"
  by (simp add: addLayer_def getLayer_None_iff) (simp add: layer_ids_def)

lemma addLayer_fresh:
  "l_id l \<notin> set (layer_ids m) \<Longrightarrow> addLayer l m = m\<lparr>m_layers := m_layers m @ [l]\<rparr>"
  by (simp add: addLayer_def getLayer_None_iff)

lemma distinct_layer_ids_addLayer: "distinct (layer_ids m) \<Longrightarrow> distinct (layer_ids (addLayer l m))"
  by (simp add: layer_ids_addLayer)

lemma addSource_Done: "m_sources m i = None \<Longrightarrow> addSource i s m = Done (m\<lparr>m_sources := (m_sources m)(i \<mapsto> s)\<rparr>)"
  by (simp add: addSource_def)

lemma hasImage_addImage: "hasImage (addImage i img m) j \<longleftrightarrow> hasImage m j \<or> i = j \<and> i \<noteq> []"
  by (auto simp: hasImage_def addImage_def fire_error_def)

section \<open>The contract of layer visibility\<close>

text \<open>
  What the layer panels rely on: setting the visibility of a layer shows or hides that layer and
  no other, and is ignored for an id that names no layer.
\<close>

locale layer_store =
  fixes has :: "'m \<Rightarrow> 'i \<Rightarrow> bool"
    and shown :: "'m \<Rightarrow> 'i \<Rightarrow> bool"
    and put :: "'i \<Rightarrow> bool \<Rightarrow> 'm \<Rightarrow> 'm"
  assumes has_put: "has (put i b m) j = has m j"
    and shown_put: "has m i \<Longrightarrow> shown (put i b m) i = b"
    and shown_put_other: "i \<noteq> j \<Longrightarrow> shown (put i b m) j = shown m j"
    and put_absent: "\<not> has m i \<Longrightarrow> put i b m = m"
begin

lemma has_fold: "has (fold (\<lambda>i. put i b) is m) j = has m j"
  by (induction "is" arbitrary: m) (auto simp: has_put)

lemma shown_fold:
  "has m j \<Longrightarrow> shown (fold (\<lambda>i. put i b) is m) j = (if j \<in> set is then b else shown m j)"
proof (induction "is" arbitrary: m)
  case Nil
  then show ?case by simp
next
  case (Cons i "is")
  then show ?case
    by (cases "i = j") (auto simp: has_put shown_put shown_put_other)
qed

lemma shown_fold_in:
  "has m j \<Longrightarrow> j \<in> set is \<Longrightarrow> shown (fold (\<lambda>i. put i b) is m) j = b"
  by (simp add: shown_fold)

lemma shown_fold_notin:
  "j \<notin> set is \<Longrightarrow> shown (fold (\<lambda>i. put i b) is m) j = shown m j"
proof (induction "is" arbitrary: m)
  case Nil
  then show ?case by simp
next
  case (Cons i "is")
  from Cons.prems have "i \<noteq> j" and "j \<notin> set is" by auto
  with Cons.IH [of "put i b m"] show ?case by (simp add: shown_put_other)
qed

lemma fold_absent: "\<forall>i \<in> set is. \<not> has m i \<Longrightarrow> fold (\<lambda>i. put i b) is m = m"
  by (induction "is") (simp_all add: put_absent)

end

end
