(* ===== verification/Map_Geometry.thy ===== *)
theory Map_Geometry
  imports Js_Float
begin

text \<open>
  The geometry of \<open>static/js/maplibre-map-shared.js\<close>: bearings, the planar distance to a segment
  and the rotation of the vehicle chevron along a route line.  Positions are \<open>[lon, lat]\<close> pairs.
  Every definition takes the \<open>fpu\<close> whose rounding and trigonometric functions it uses.
\<close>

section \<open>The code\<close>

definition bearingDegreesClockwiseFromNorth :: "fpu \<Rightarrow> real \<Rightarrow> real \<Rightarrow> real \<Rightarrow> real \<Rightarrow> real" where
  "bearingDegreesClockwiseFromNorth F lon1 lat1 lon2 lat2 =
     (let phi1 = fdiv F (fmul F lat1 (fpi F)) 180;
          phi2 = fdiv F (fmul F lat2 (fpi F)) 180;
          dlambda = fdiv F (fmul F (fsub F lon2 lon1) (fpi F)) 180;
          y = fmul F (fsin F dlambda) (fcos F phi2);
          x = fsub F (fmul F (fcos F phi1) (fsin F phi2))
                (fmul F (fmul F (fsin F phi1) (fcos F phi2)) (fcos F dlambda));
          theta = fatan2 F y x;
          deg = fdiv F (fmul F theta 180) (fpi F)
      in js_rem (fadd F (js_rem deg 360) 360) 360)"

definition distanceSqPointToSegmentPlanar ::
  "fpu \<Rightarrow> real \<Rightarrow> real \<Rightarrow> real \<Rightarrow> real \<Rightarrow> real \<Rightarrow> real \<Rightarrow> real" where
  "distanceSqPointToSegmentPlanar F px py ax ay bx bY =
     (let abx = fsub F bx ax;
          aby = fsub F bY ay;
          apx = fsub F px ax;
          apy = fsub F py ay;
          abLenSq = fadd F (fmul F abx abx) (fmul F aby aby)
      in if abLenSq < fl F (1 / 10 ^ 22)
         then let dx = fsub F px ax; dy = fsub F py ay
              in fadd F (fmul F dx dx) (fmul F dy dy)
         else let t = fdiv F (fadd F (fmul F apx abx) (fmul F apy aby)) abLenSq;
                  t = max 0 (min 1 t);
                  cx = fadd F ax (fmul F t abx);
                  cy = fadd F ay (fmul F t aby);
                  dx = fsub F px cx;
                  dy = fsub F py cy
              in fadd F (fmul F dx dx) (fmul F dy dy))"

definition segment_nondegenerate :: "fpu \<Rightarrow> (real \<times> real) list \<Rightarrow> nat \<Rightarrow> bool" where
  "segment_nondegenerate F coords i =
     (let a = coords ! i; b = coords ! (i + 1);
          dl = fsub F (fst a) (fst b);
          dphi = fsub F (snd a) (snd b)
      in fadd F (fmul F dl dl) (fmul F dphi dphi) > fl F (1 / 10 ^ 20))"

definition segment_bearing :: "fpu \<Rightarrow> (real \<times> real) list \<Rightarrow> nat \<Rightarrow> real" where
  "segment_bearing F coords i =
     (let a = coords ! i; b = coords ! (i + 1)
      in bearingDegreesClockwiseFromNorth F (fst a) (snd a) (fst b) (snd b))"

definition bearingAlongLineAtSegmentIndex :: "fpu \<Rightarrow> (real \<times> real) list \<Rightarrow> int \<Rightarrow> real option" where
  "bearingAlongLineAtSegmentIndex F coords segIndex =
     (let n = int (length coords) in
      if segIndex < 0 \<or> segIndex \<ge> n - 1 then None
      else map_option (segment_bearing F coords)
             (List.find (segment_nondegenerate F coords) [nat segIndex..<length coords - 1]))"

text \<open>The distance from the vehicle to segment \<open>i\<close>, longitudes scaled by \<open>k\<close>.\<close>

definition segment_dsq :: "fpu \<Rightarrow> real \<Rightarrow> real \<Rightarrow> real \<Rightarrow> (real \<times> real) list \<Rightarrow> nat \<Rightarrow> real" where
  "segment_dsq F k px py coords i =
     (let a = coords ! i; b = coords ! (i + 1)
      in distanceSqPointToSegmentPlanar F px py
           (fmul F (fst a) k) (snd a) (fmul F (fst b) k) (snd b))"

text \<open>The loop: \<open>bestD\<close> starts at \<open>Infinity\<close>, here \<open>None\<close>.\<close>

definition nearer :: "(nat \<Rightarrow> real) \<Rightarrow> nat \<Rightarrow> nat \<times> real option \<Rightarrow> nat \<times> real option" where
  "nearer dsq i best =
     (case snd best of
        None \<Rightarrow> (i, Some (dsq i))
      | Some d \<Rightarrow> if dsq i < d then (i, Some (dsq i)) else best)"

definition nearest_segment :: "(nat \<Rightarrow> real) \<Rightarrow> nat \<Rightarrow> nat \<times> real option" where
  "nearest_segment dsq m = fold (nearer dsq) [0..<m] (0, None)"

definition chevron_rotation :: "fpu \<Rightarrow> real \<Rightarrow> real" where
  "chevron_rotation F bearingNorth =
     js_rem (fadd F (js_rem (fsub F bearingNorth 90) 360) 360) 360"

definition vehicleIconRotateDegreesFromLineString ::
  "fpu \<Rightarrow> (real \<times> real) list option \<Rightarrow> real \<Rightarrow> real \<Rightarrow> real" where
  "vehicleIconRotateDegreesFromLineString F coordinates lon lat =
     (case coordinates of
        None \<Rightarrow> 0
      | Some coords \<Rightarrow>
          if length coords < 2 then 0
          else let refLat = lat;
                   k = fcos F (fdiv F (fmul F refLat (fpi F)) 180);
                   px = fmul F lon k;
                   py = lat;
                   bestI = fst (nearest_segment (segment_dsq F k px py coords) (length coords - 1))
               in case bearingAlongLineAtSegmentIndex F coords (int bestI) of
                    None \<Rightarrow> 0
                  | Some bearingNorth \<Rightarrow> chevron_rotation F bearingNorth)"

section \<open>Ranges, under any rounding\<close>

lemma bearing_range:
  assumes "rounding (fl F)"
  shows "0 \<le> bearingDegreesClockwiseFromNorth F lon1 lat1 lon2 lat2
       \<and> bearingDegreesClockwiseFromNorth F lon1 lat1 lon2 lat2 < 360"
  using rounding.normalise_range [OF assms]
  by (simp add: bearingDegreesClockwiseFromNorth_def Let_def fadd_def)

lemma chevron_range:
  "rounding (fl F) \<Longrightarrow> 0 \<le> chevron_rotation F b \<and> chevron_rotation F b < 360"
  using rounding.normalise_range [of "fl F"]
  by (simp add: chevron_rotation_def fadd_def)

lemma heading_range:
  "rounding (fl F) \<Longrightarrow>
   0 \<le> vehicleIconRotateDegreesFromLineString F c lon lat
   \<and> vehicleIconRotateDegreesFromLineString F c lon lat < 360"
  using chevron_range [of F]
  by (simp add: vehicleIconRotateDegreesFromLineString_def Let_def split: option.splits)

section \<open>The nearest-segment loop is an arg min\<close>

lemma nearest_segment_Suc:
  "nearest_segment dsq (Suc m) = nearer dsq m (nearest_segment dsq m)"
  by (simp add: nearest_segment_def)

lemma nearest_segment_argmin:
  assumes "0 < m"
  shows "\<exists>i<m. nearest_segment dsq m = (i, Some (dsq i))
           \<and> (\<forall>j<m. dsq i \<le> dsq j) \<and> (\<forall>j<i. dsq i < dsq j)"
  using assms
proof (induction m)
  case 0
  then show ?case by simp
next
  case (Suc m)
  show ?case
  proof (cases "m = 0")
    case True
    then show ?thesis by (simp add: nearest_segment_def nearer_def)
  next
    case False
    with Suc obtain i where i: "i < m" "nearest_segment dsq m = (i, Some (dsq i))"
      "\<forall>j<m. dsq i \<le> dsq j" "\<forall>j<i. dsq i < dsq j" by auto
    show ?thesis
    proof (cases "dsq m < dsq i")
      case True
      with i have "nearest_segment dsq (Suc m) = (m, Some (dsq m))"
        by (simp add: nearest_segment_Suc nearer_def)
      moreover have "dsq m < dsq j" if "j < m" for j
        using True i(3) that by fastforce
      ultimately show ?thesis
        by (intro exI [of _ m]) (auto simp: less_Suc_eq intro: less_imp_le)
    next
      case not_less: False
      with i have "nearest_segment dsq (Suc m) = (i, Some (dsq i))"
        by (simp add: nearest_segment_Suc nearer_def)
      with i not_less show ?thesis
        by (intro exI [of _ i]) (auto simp: less_Suc_eq)
    qed
  qed
qed

section \<open>Exact arithmetic: the distance is the minimum over the segment\<close>

definition dist_sq :: "real \<Rightarrow> real \<Rightarrow> real \<Rightarrow> real \<Rightarrow> real" where
  "dist_sq px py qx qy = (px - qx)\<^sup>2 + (py - qy)\<^sup>2"

lemma clamp_minimises:
  fixes l d s :: real
  assumes "0 < l" and "0 \<le> s" and "s \<le> 1"
  defines "t \<equiv> max 0 (min 1 (d / l))"
  shows "l * t\<^sup>2 - 2 * d * t \<le> l * s\<^sup>2 - 2 * d * s"
proof -
  have split: "l * s\<^sup>2 - 2 * d * s - (l * t\<^sup>2 - 2 * d * t) = (s - t) * (l * (s + t) - 2 * d)"
    by (simp add: power2_eq_square algebra_simps)
  consider "d < 0" | "0 \<le> d" "d \<le> l" | "l < d" using assms(1) by linarith
  then have "0 \<le> (s - t) * (l * (s + t) - 2 * d)"
  proof cases
    case 1
    then have "d / l < 0" using assms(1) by (simp add: divide_neg_pos)
    then have t: "t = 0" by (simp add: t_def)
    have "0 \<le> l * s" using assms(1,2) by simp
    with 1 have "0 \<le> l * s - 2 * d" by linarith
    with assms(2) show ?thesis unfolding t by simp
  next
    case 2
    then have "0 \<le> d / l" and "d / l \<le> 1" using assms(1) by (simp_all add: divide_le_eq_1)
    then have "t = d / l" by (simp add: t_def)
    then have d: "d = l * t" using assms(1) by simp
    have "(s - t) * (l * (s + t) - 2 * d) = l * (s - t)\<^sup>2"
      unfolding d by (simp add: power2_eq_square algebra_simps)
    with assms(1) show ?thesis by simp
  next
    case 3
    then have "1 < d / l" using assms(1) by (simp add: less_divide_eq_1)
    then have t: "t = 1" by (simp add: t_def)
    have "l * (s + 1) \<le> l * 2" using assms by (intro mult_left_mono) simp_all
    with 3 have "l * (s + 1) - 2 * d \<le> 0" by linarith
    with assms(3) show ?thesis unfolding t by (intro mult_nonpos_nonpos) simp_all
  qed
  with split show ?thesis by linarith
qed

lemma dist_sq_on_segment:
  "dist_sq px py (ax + s * (bx - ax)) (ay + s * (bY - ay))
     = dist_sq px py ax ay
       + (((bx - ax)\<^sup>2 + (bY - ay)\<^sup>2) * s\<^sup>2
          - 2 * ((px - ax) * (bx - ax) + (py - ay) * (bY - ay)) * s)"
  by (simp add: dist_sq_def power2_eq_square algebra_simps)

lemma distance_exact:
  assumes "1 / 10 ^ 22 \<le> (bx - ax)\<^sup>2 + (bY - ay)\<^sup>2"
  shows "\<exists>t. 0 \<le> t \<and> t \<le> 1
       \<and> distanceSqPointToSegmentPlanar exact_fpu px py ax ay bx bY
           = dist_sq px py (ax + t * (bx - ax)) (ay + t * (bY - ay))
       \<and> (\<forall>s. 0 \<le> s \<longrightarrow> s \<le> 1 \<longrightarrow>
            dist_sq px py (ax + t * (bx - ax)) (ay + t * (bY - ay))
            \<le> dist_sq px py (ax + s * (bx - ax)) (ay + s * (bY - ay)))"
proof -
  define l where "l = (bx - ax)\<^sup>2 + (bY - ay)\<^sup>2"
  define d where "d = (px - ax) * (bx - ax) + (py - ay) * (bY - ay)"
  define t where "t = max 0 (min 1 (d / l))"
  have l: "1 / 10 ^ 22 \<le> l" using assms by (simp add: l_def)
  then have l0: "0 < l" by (rule less_le_trans [rotated]) simp
  have "distanceSqPointToSegmentPlanar exact_fpu px py ax ay bx bY
      = dist_sq px py (ax + t * (bx - ax)) (ay + t * (bY - ay))"
    using l
    by (simp add: distanceSqPointToSegmentPlanar_def Let_def dist_sq_def t_def d_def l_def
        power2_eq_square not_less)
  moreover have "0 \<le> t" "t \<le> 1" by (simp_all add: t_def)
  moreover have "dist_sq px py (ax + t * (bx - ax)) (ay + t * (bY - ay))
      \<le> dist_sq px py (ax + s * (bx - ax)) (ay + s * (bY - ay))" if "0 \<le> s" "s \<le> 1" for s
    using clamp_minimises [OF l0 that, of d]
    unfolding dist_sq_on_segment l_def [symmetric] d_def [symmetric] t_def by simp
  ultimately show ?thesis by blast
qed

section \<open>Exact arithmetic: what a bearing denotes\<close>

lemma cos_atan2_sin_atan2:
  assumes "x \<noteq> 0 \<or> y \<noteq> 0"
  shows "sqrt (x\<^sup>2 + y\<^sup>2) * cos (atan2 y x) = x" and "sqrt (x\<^sup>2 + y\<^sup>2) * sin (atan2 y x) = y"
proof -
  have hyp: "sqrt (x\<^sup>2 + y\<^sup>2) = \<bar>x\<bar> * sqrt (1 + (y / x)\<^sup>2)" if "x \<noteq> 0"
  proof -
    have "x\<^sup>2 + y\<^sup>2 = x\<^sup>2 * (1 + (y / x)\<^sup>2)" using that by (simp add: field_simps)
    then show ?thesis by (simp add: real_sqrt_mult)
  qed
  have pos: "0 < sqrt (1 + (y / x)\<^sup>2)" by (simp add: add_pos_nonneg)
  have c: "cos (arctan (y / x)) = 1 / sqrt (1 + (y / x)\<^sup>2)" by (rule cos_arctan)
  have s: "sin (arctan (y / x)) = y / x / sqrt (1 + (y / x)\<^sup>2)" by (rule sin_arctan)
  consider "0 < x" | "x < 0" | "x = 0" by linarith
  then have "sqrt (x\<^sup>2 + y\<^sup>2) * cos (atan2 y x) = x \<and> sqrt (x\<^sup>2 + y\<^sup>2) * sin (atan2 y x) = y"
  proof cases
    case 1
    with hyp pos show ?thesis by (simp add: atan2_def c s)
  next
    case 2
    with hyp pos show ?thesis
      by (simp add: atan2_def c s cos_diff sin_diff)
  next
    case 3
    with assms show ?thesis by (auto simp: atan2_def)
  qed
  then show "sqrt (x\<^sup>2 + y\<^sup>2) * cos (atan2 y x) = x" and "sqrt (x\<^sup>2 + y\<^sup>2) * sin (atan2 y x) = y"
    by simp_all
qed

lemma js_rem_turn: "\<exists>k::int. js_rem (js_rem d 360 + 360) 360 = d + of_int k * 360"
proof -
  obtain a b :: int where "js_rem d 360 = d - of_int a * 360"
    and "js_rem (js_rem d 360 + 360) 360 = js_rem d 360 + 360 - of_int b * 360"
    using js_rem_multiple by metis
  then have "js_rem (js_rem d 360 + 360) 360 = d + of_int (1 - a - b) * 360"
    by (simp add: algebra_simps)
  then show ?thesis by blast
qed

lemma turn_radians:
  fixes k :: int
  shows "(d + of_int k * 360) * pi / 180 = d * pi / 180 + of_int k * (2 * pi)"
  by (simp add: algebra_simps add_divide_distrib)

lemma sin_turn: "sin (x + of_int k * (2 * pi)) = sin x" and cos_turn: "cos (x + of_int k * (2 * pi)) = cos x"
  by (simp_all add: sin_add cos_add mult.commute [of "of_int k"])

text \<open>
  The east and north components of the initial great-circle direction from one position to
  another (radians), the vector whose angle the bearing is.
\<close>

definition east_part :: "real \<Rightarrow> real \<Rightarrow> real \<Rightarrow> real \<Rightarrow> real" where
  "east_part lon1 lat1 lon2 lat2 = sin ((lon2 - lon1) * pi / 180) * cos (lat2 * pi / 180)"

definition north_part :: "real \<Rightarrow> real \<Rightarrow> real \<Rightarrow> real \<Rightarrow> real" where
  "north_part lon1 lat1 lon2 lat2 =
     cos (lat1 * pi / 180) * sin (lat2 * pi / 180)
     - sin (lat1 * pi / 180) * cos (lat2 * pi / 180) * cos ((lon2 - lon1) * pi / 180)"

lemma bearing_direction:
  assumes "e = east_part lon1 lat1 lon2 lat2" and "n = north_part lon1 lat1 lon2 lat2"
    and "n \<noteq> 0 \<or> e \<noteq> 0"
    and "b = bearingDegreesClockwiseFromNorth exact_fpu lon1 lat1 lon2 lat2"
  shows "sqrt (n\<^sup>2 + e\<^sup>2) * sin (b * pi / 180) = e" and "sqrt (n\<^sup>2 + e\<^sup>2) * cos (b * pi / 180) = n"
proof -
  have "b = js_rem (js_rem (atan2 e n * 180 / pi) 360 + 360) 360"
    using assms(1,2,4)
    by (simp add: bearingDegreesClockwiseFromNorth_def Let_def east_part_def north_part_def)
  then obtain k :: int where "b = atan2 e n * 180 / pi + of_int k * 360"
    using js_rem_turn by metis
  then have "b * pi / 180 = atan2 e n + of_int k * (2 * pi)"
    by (simp only: turn_radians) simp
  then show "sqrt (n\<^sup>2 + e\<^sup>2) * sin (b * pi / 180) = e"
    and "sqrt (n\<^sup>2 + e\<^sup>2) * cos (b * pi / 180) = n"
    using cos_atan2_sin_atan2 [OF assms(3)] by (simp_all only: sin_turn cos_turn)
qed

lemma chevron_points_along:
  "\<exists>k::int. chevron_rotation exact_fpu b + 90 = b + of_int k * 360"
  using js_rem_turn [of "b - 90"] by (auto simp: chevron_rotation_def)

section \<open>Properties\<close>

text \<open>
  C31: In binary64 arithmetic, whatever the browser's trigonometric functions return, a bearing
  and the rotation given to a vehicle icon lie in \<open>[0, 360)\<close>.
\<close>

theorem headings_normalised:
  "bearingDegreesClockwiseFromNorth (F\<lparr>fl := round64\<rparr>) lon1 lat1 lon2 lat2 \<in> {0..<360}
   \<and> vehicleIconRotateDegreesFromLineString (F\<lparr>fl := round64\<rparr>) coords lon lat \<in> {0..<360}"
  using bearing_range [of "F\<lparr>fl := round64\<rparr>"] heading_range [of "F\<lparr>fl := round64\<rparr>"]
  by (simp add: binary64.rounding_axioms)

text \<open>
  C14: A vehicle on a line of at least two points takes its heading from the first segment at the
  least distance: the rotation is that of the first non-degenerate segment from there on, and 0
  when there is none.
\<close>

theorem heading_of_nearest_segment:
  assumes "2 \<le> length coords"
  shows "\<exists>i < length coords - 1.
     (let k = fcos F (fdiv F (fmul F lat (fpi F)) 180);
          d = segment_dsq F k (fmul F lon k) lat coords
      in (\<forall>j < length coords - 1. d i \<le> d j) \<and> (\<forall>j < i. d i < d j))
     \<and> vehicleIconRotateDegreesFromLineString F (Some coords) lon lat =
         (case List.find (segment_nondegenerate F coords) [i..<length coords - 1] of
            None \<Rightarrow> 0
          | Some j \<Rightarrow> chevron_rotation F (segment_bearing F coords j))"
proof -
  let ?k = "fcos F (fdiv F (fmul F lat (fpi F)) 180)"
  let ?d = "segment_dsq F ?k (fmul F lon ?k) lat coords"
  have "0 < length coords - 1" using assms by simp
  from nearest_segment_argmin [OF this, of ?d] obtain i where i: "i < length coords - 1"
    "nearest_segment ?d (length coords - 1) = (i, Some (?d i))"
    "(\<forall>j < length coords - 1. ?d i \<le> ?d j) \<and> (\<forall>j < i. ?d i < ?d j)" by blast
  have "vehicleIconRotateDegreesFromLineString F (Some coords) lon lat =
      (case bearingAlongLineAtSegmentIndex F coords (int i) of
         None \<Rightarrow> 0 | Some b \<Rightarrow> chevron_rotation F b)"
    using assms i(2) by (simp add: vehicleIconRotateDegreesFromLineString_def Let_def)
  also have "bearingAlongLineAtSegmentIndex F coords (int i) =
      map_option (segment_bearing F coords)
        (List.find (segment_nondegenerate F coords) [i..<length coords - 1])"
    using i(1) by (simp add: bearingAlongLineAtSegmentIndex_def Let_def)
  finally show ?thesis
    using i(1,3) by (intro exI [of _ i]) (auto simp: Let_def split: option.splits)
qed

definition line_w :: "(real \<times> real) list" where
  "line_w = [(0, 0), (1, 0), (1, 1)]"

lemma heading_of_nearest_segment_witness:
  "\<exists>i < length line_w - 1.
     vehicleIconRotateDegreesFromLineString exact_fpu (Some line_w) 2 (1 / 2) =
         (case List.find (segment_nondegenerate exact_fpu line_w) [i..<length line_w - 1] of
            None \<Rightarrow> 0
          | Some j \<Rightarrow> chevron_rotation exact_fpu (segment_bearing exact_fpu line_w j))"
proof -
  have "2 \<le> length line_w" by (simp add: line_w_def)
  from heading_of_nearest_segment [OF this, of exact_fpu "1 / 2" 2] show ?thesis by blast
qed

text \<open>
  In exact arithmetic \<open>distanceSqPointToSegmentPlanar\<close> is the squared distance to a point of
  the segment, and no point of the segment is nearer.
\<close>

theorem distance_is_least:
  assumes "1 / 10 ^ 22 \<le> (bx - ax)\<^sup>2 + (bY - ay)\<^sup>2"
  shows "\<exists>t. 0 \<le> t \<and> t \<le> 1
       \<and> distanceSqPointToSegmentPlanar exact_fpu px py ax ay bx bY
           = dist_sq px py (ax + t * (bx - ax)) (ay + t * (bY - ay))
       \<and> (\<forall>s. 0 \<le> s \<longrightarrow> s \<le> 1 \<longrightarrow>
            dist_sq px py (ax + t * (bx - ax)) (ay + t * (bY - ay))
            \<le> dist_sq px py (ax + s * (bx - ax)) (ay + s * (bY - ay)))"
  using assms by (rule distance_exact)

lemma distance_is_least_witness:
  "\<exists>t. 0 \<le> t \<and> t \<le> 1
       \<and> distanceSqPointToSegmentPlanar exact_fpu 3 4 0 0 10 0
           = dist_sq 3 4 (0 + t * (10 - 0)) (0 + t * (0 - 0))"
  using distance_is_least [of 10 0 0 0 3 4] by (auto simp: power2_eq_square)

text \<open>
  C30: In exact arithmetic the bearing is the angle, clockwise from north, of the initial
  great-circle direction between the two positions, and the chevron, drawn pointing east, points
  along it after the rotation.
\<close>

theorem bearing_is_direction:
  assumes "north_part lon1 lat1 lon2 lat2 \<noteq> 0 \<or> east_part lon1 lat1 lon2 lat2 \<noteq> 0"
  shows "let b = bearingDegreesClockwiseFromNorth exact_fpu lon1 lat1 lon2 lat2;
             n = north_part lon1 lat1 lon2 lat2; e = east_part lon1 lat1 lon2 lat2
         in sqrt (n\<^sup>2 + e\<^sup>2) * sin (b * pi / 180) = e \<and> sqrt (n\<^sup>2 + e\<^sup>2) * cos (b * pi / 180) = n
          \<and> (\<exists>k::int. chevron_rotation exact_fpu b + 90 = b + of_int k * 360)"
  using bearing_direction [OF refl refl assms refl] chevron_points_along
  by (simp add: Let_def)

lemma bearing_is_direction_witness:
  "let b = bearingDegreesClockwiseFromNorth exact_fpu 0 0 90 0
   in sin (b * pi / 180) = 1 \<and> cos (b * pi / 180) = 0"
  using bearing_is_direction [of 0 0 90 0] by (simp add: Let_def north_part_def east_part_def)

end
