(* ===== verification/Map_Shared.thy ===== *)
theory Map_Shared
  imports Map_Style Map_Geometry
begin

text \<open>
  The rest of \<open>static/js/maplibre-map-shared.js\<close>: the base style and the shared constants, the
  pulse test, layer visibility, the marker image and its asynchronous fallback, the vehicle icon
  cache and the pulse animation.  The browser's answers (image decoding, canvas context, fetch)
  are records of parameters; the geometry is in \<open>Map_Geometry\<close>.
\<close>

section \<open>Base style and constants\<close>

record osm_style =
  st_version :: nat
  st_source :: jstring
  st_tiles :: "jstring list"
  st_tileSize :: nat
  st_attribution :: jstring
  st_layer :: jstring
  st_layer_type :: string
  st_minzoom :: nat
  st_maxzoom :: nat
  st_glyphs :: "jstring option"

text \<open>\<open>opts\<close> is absent (\<open>None\<close>) or carries an \<open>includeGlyphs\<close> property, \<open>JUndef\<close> when missing.\<close>

definition createOsmRasterStyle :: "jsval option \<Rightarrow> osm_style" where
  \<open>createOsmRasterStyle opts =
     (let includeGlyphs = (case opts of None \<Rightarrow> True | Some v \<Rightarrow> v \<noteq> JBool False)
      in \<lparr>st_version = 8, st_source = lit ''osm'',
          st_tiles = [lit ''https://tile.openstreetmap.org/{z}/{x}/{y}.png''],
          st_tileSize = 256,
          st_attribution = lit ''&copy; <a href="https://www.openstreetmap.org/copyright">OpenStreetMap</a> contributors'',
          st_layer = lit ''osm'', st_layer_type = ''raster'', st_minzoom = 0, st_maxzoom = 19,
          st_glyphs = (if includeGlyphs
            then Some (lit ''https://demotiles.maplibre.org/font/{fontstack}/{range}.pbf'')
            else None)\<rparr>)\<close>

text \<open>A map constructed with the style starts with its source, its glyphs and its layer.\<close>

definition map_of_style :: "osm_style \<Rightarrow> style_map" where
  "map_of_style st = empty_map
     \<lparr>m_sources := [st_source st \<mapsto> RasterTiles (st_tiles st)],
      m_glyphs := st_glyphs st,
      m_layers := [\<lparr>l_id = st_layer st, l_type = st_layer_type st, l_source = st_source st,
                   l_minzoom = Some (real (st_minzoom st)), l_filter = None, l_layout = [],
                   l_paint = []\<rparr>]\<rparr>"

definition LABEL_FONT :: "jstring list" where
  "LABEL_FONT = [lit ''Open Sans Semibold'']"

definition MAP_LABEL_BADGE_PAINT :: "(string \<times> prop_value) list" where
  "MAP_LABEL_BADGE_PAINT =
     [(''text-color'', PStr (lit ''#ffffff'')), (''text-halo-color'', PStr (lit ''#313b46'')),
      (''text-halo-width'', PNum 3.5), (''text-halo-blur'', PNum 0.9)]"

definition VEHICLE_INLINE_LABEL_PAINT :: "(string \<times> prop_value) list" where
  "VEHICLE_INLINE_LABEL_PAINT =
     [(''text-color'', PStr (lit ''#ffffff'')),
      (''text-halo-color'', PStr (lit ''rgba(17,24,39,0.75)'')),
      (''text-halo-width'', PNum 1.25), (''text-halo-blur'', PNum 0.35)]"

definition STOP_LABEL_MIN_ZOOM :: real where
  "STOP_LABEL_MIN_ZOOM = 15"

definition VEHICLE_INLINE_LABEL_OFFSET :: "real list" where
  "VEHICLE_INLINE_LABEL_OFFSET = [0, 0]"

definition STOP_LABEL_TEXT_OFFSET :: "real list" where
  "STOP_LABEL_TEXT_OFFSET = [0, 1.65]"

definition MONO_MARKER_IMAGE_ID :: jstring where
  "MONO_MARKER_IMAGE_ID = lit ''mono-marker''"

definition MONO_MARKER_IMAGE_URL :: jstring where
  "MONO_MARKER_IMAGE_URL = lit ''/static/mono-marker.svg''"

definition VEHICLE_MAIN_ICON_SIZE :: real where
  "VEHICLE_MAIN_ICON_SIZE = 0.64"

definition VEHICLE_PULSE_MAX_AGE_MS :: int where
  "VEHICLE_PULSE_MAX_AGE_MS = 180000"

section \<open>Pulse test, controls, visibility\<close>

definition vehiclePulseIsActive :: "date_env \<Rightarrow> jsval \<Rightarrow> bool" where
  "vehiclePulseIsActive env timeOfUpdate =
     (if nullish timeOfUpdate \<or> timeOfUpdate = JStr [] then False
      else case date_value env timeOfUpdate of
             None \<Rightarrow> False
           | Some ms \<Rightarrow> now env - ms < VEHICLE_PULSE_MAX_AGE_MS)"

text \<open>\<open>present\<close> is whether \<open>window.maplibregl\<close> is defined.\<close>

definition addDefaultMapControls :: "bool \<Rightarrow> style_map \<Rightarrow> style_map" where
  "addDefaultMapControls present m =
     (if \<not> present then m
      else addControl ''FullscreenControl'' ''top-left''
             (addControl ''NavigationControl'' ''top-left'' m))"

definition setLayerVisibility :: "jstring \<Rightarrow> bool \<Rightarrow> style_map \<Rightarrow> style_map" where
  "setLayerVisibility i visible m =
     (if getLayer m i = None then m
      else setLayoutProperty i ''visibility''
             (PStr (if visible then lit ''visible'' else lit ''none'')) m)"

lemma getLayer_setLayerVisibility:
  "getLayer (setLayerVisibility i b m) j =
     map_option (\<lambda>l. if j = i then l\<lparr>l_layout := upsert ''visibility''
        (PStr (if b then lit ''visible'' else lit ''none'')) (l_layout l)\<rparr> else l) (getLayer m j)"
proof (cases "getLayer m i")
  case None
  then show ?thesis by (cases "getLayer m j") (auto simp: setLayerVisibility_def)
next
  case (Some l)
  then show ?thesis by (simp add: setLayerVisibility_def setLayoutProperty_def getLayer_update)
qed

lemma layer_ids_setLayerVisibility [simp]: "layer_ids (setLayerVisibility i b m) = layer_ids m"
  by (simp add: setLayerVisibility_def setLayoutProperty_def)

lemma shown_setLayerVisibility_same:
  "getLayer m i \<noteq> None \<Longrightarrow> layer_shown (setLayerVisibility i b m) i = b"
  by (auto simp: layer_shown_def getLayer_setLayerVisibility layer_visible_def map_of_upsert lit_def)

lemma shown_setLayerVisibility_other:
  "i \<noteq> j \<Longrightarrow> layer_shown (setLayerVisibility i b m) j = layer_shown m j"
  by (auto simp: layer_shown_def getLayer_setLayerVisibility split: option.splits)

interpretation vis: layer_store "\<lambda>m i. i \<in> set (layer_ids m)" layer_shown setLayerVisibility
proof unfold_locales
  fix i b m j
  show "(j \<in> set (layer_ids (setLayerVisibility i b m))) = (j \<in> set (layer_ids m))"
    by simp
next
  fix m i b
  assume "i \<in> set (layer_ids m)"
  then show "layer_shown (setLayerVisibility i b m) i = b"
    using getLayer_None_iff [of m i] by (simp add: shown_setLayerVisibility_same)
next
  fix i j :: jstring and b m
  assume "i \<noteq> j"
  then show "layer_shown (setLayerVisibility i b m) j = layer_shown m j"
    by (rule shown_setLayerVisibility_other)
next
  fix m i b
  assume "i \<notin> set (layer_ids m)"
  then show "setLayerVisibility i b m = m"
    by (simp add: setLayerVisibility_def getLayer_None_iff)
qed

section \<open>The marker image\<close>

text \<open>
  What the browser answers: whether the SVG decodes as an image, whether \<open>fetch\<close> exists and what
  it returns, whether the blob decodes, whether a canvas gives a 2d context and whether drawing
  throws.  The state is the caller's, with a flag for an object URL that is still alive.
\<close>

record raster_env =
  re_img_loads :: bool
  re_has_fetch :: bool
  re_fetch :: "unit response"
  re_blob_loads :: bool
  re_context :: bool
  re_draw_throws :: bool

type_synonym 's image_cb = "image option \<Rightarrow> 's \<Rightarrow> 's outcome"

definition drawImageToMarkerImageData :: "raster_env \<Rightarrow> nat \<Rightarrow> 's image_cb \<Rightarrow> 's \<Rightarrow> 's outcome" where
  "drawImageToMarkerImageData env sz callback s =
     (case (if \<not> re_context env then callback None s
            else if re_draw_throws env then Thrown (GenericError ''InvalidStateError'') s
            else callback (Some (MonoMarker sz)) s) of
        Done s' \<Rightarrow> Done s'
      | Thrown e s' \<Rightarrow> callback None s')"

fun lift_outcome :: "bool \<Rightarrow> 's outcome \<Rightarrow> (bool \<times> 's) outcome" where
  "lift_outcome live (Done s) = Done (live, s)"
| "lift_outcome live (Thrown e s) = Thrown e (live, s)"

definition rasterizeMonoMarkerForMap ::
  "raster_env \<Rightarrow> 's image_cb \<Rightarrow> bool \<times> 's \<Rightarrow> (bool \<times> 's) outcome" where
  "rasterizeMonoMarkerForMap env callback st =
     (let live = fst st; s = snd st; sz = 128 in
      if re_img_loads env then lift_outcome live (drawImageToMarkerImageData env sz callback s)
      else if \<not> re_has_fetch env then lift_outcome live (callback None s)
      else case re_fetch env of
             HttpOk _ \<Rightarrow>
               \<comment> \<open>\<open>createObjectURL\<close>: the URL is alive until it is revoked\<close>
               if re_blob_loads env
               then drawImageToMarkerImageData env sz
                      (\<lambda>data (l, s). lift_outcome False (callback data s)) (True, s)
               else lift_outcome False (callback None s)
           | HttpError \<Rightarrow> lift_outcome live (callback None s)
           | NetworkError \<Rightarrow> lift_outcome live (callback None s))"

definition loadMonoMarkerImage ::
  "raster_env \<Rightarrow> (bool \<Rightarrow> style_map \<Rightarrow> style_map outcome) \<Rightarrow> style_map \<Rightarrow> style_map outcome" where
  "loadMonoMarkerImage env onDone m =
     (if hasImage m MONO_MARKER_IMAGE_ID then onDone True m
      else case rasterizeMonoMarkerForMap env
                  (\<lambda>imageData m.
                     case imageData of
                       None \<Rightarrow> onDone False m
                     | Some img \<Rightarrow>
                         onDone True
                           (if \<not> hasImage m MONO_MARKER_IMAGE_ID
                            then addImage MONO_MARKER_IMAGE_ID img m else m))
                  (False, m) of
             Done s \<Rightarrow> Done (snd s)
           | Thrown e s \<Rightarrow> Thrown e (snd s))"

section \<open>Vehicle icons\<close>

text \<open>The character class \<open>[a-zA-Z0-9_-]\<close> of the image keys; other code units become \<open>_\<close>.\<close>

definition key_unit :: "16 word \<Rightarrow> bool" where
  "key_unit u \<longleftrightarrow> 97 \<le> u \<and> u \<le> 122 \<or> 65 \<le> u \<and> u \<le> 90 \<or> 48 \<le> u \<and> u \<le> 57 \<or> u = 95 \<or> u = 45"

definition sanitize_key :: "jstring \<Rightarrow> jstring" where
  "sanitize_key s = map (\<lambda>u. if key_unit u then u else 95) s"

definition sanitizeRouteIdForImageKey :: "jsval \<Rightarrow> jstring" where
  "sanitizeRouteIdForImageKey routeId = sanitize_key (to_str routeId)"

definition sanitizeColorForImageKey :: "jsval \<Rightarrow> jstring" where
  "sanitizeColorForImageKey color =
     (let s = (if \<not> nullish color \<and> color \<noteq> JStr [] then to_str color else lit ''default'')
      in sanitize_key s)"

record canvas_env =
  cv_context :: bool
  cv_roundRect :: bool

definition fillRoundBody :: "canvas_env \<Rightarrow> canvas_cmd list" where
  "fillRoundBody env =
     (let bodyX = 4; bodyY = 16; bodyW = 52; bodyH = 30; br = 6
      in [BeginPath,
          if cv_roundRect env then RoundRect bodyX bodyY bodyW bodyH br
          else Rect bodyX bodyY bodyW bodyH])"

definition createVehicleChevronImageData :: "canvas_env \<Rightarrow> jsval \<Rightarrow> exn + image" where
  "createVehicleChevronImageData env fillColor =
     (if \<not> cv_context env then Inl (GenericError ''2d context unavailable'')
      else let size = 64; bodyX = 4; bodyY = 16; bodyW = 52; bodyH = 30; tipX = 65;
               midY = real size / 2;
               baseLeft = bodyX + bodyW;
               triInset = 5
           in Inr (Bitmap size
             ([ClearRect 0 0 (real size) (real size), FillStyle fillColor]
              @ fillRoundBody env
              @ [Fill, BeginPath, MoveTo baseLeft (bodyY + triInset), LineTo tipX midY,
                 LineTo baseLeft (bodyY + bodyH - triInset), ClosePath, Fill,
                 StrokeStyle (lit ''#ffffff''), LineWidth 2.5, LineJoin ''round'',
                 LineCap ''round'']
              @ fillRoundBody env
              @ [Stroke, BeginPath, MoveTo baseLeft (bodyY + triInset), LineTo tipX midY,
                 LineTo baseLeft (bodyY + bodyH - triInset), Stroke])))"

definition vehicle_icon_id :: "jsval \<Rightarrow> jsval \<Rightarrow> jstring" where
  "vehicle_icon_id routeId color =
     (let rid = sanitizeRouteIdForImageKey routeId;
          cid = sanitizeColorForImageKey color
      in lit ''vehicle-icon-'' @ rid @ lit ''-'' @ cid)"

text \<open>The id is \<open>vehicle_icon_id\<close> on every return.\<close>

definition registerVehicleIconForRoute ::
  "canvas_env \<Rightarrow> jsval \<Rightarrow> jsval \<Rightarrow> style_map \<Rightarrow> style_map outcome" where
  "registerVehicleIconForRoute env routeId color m =
     (let i = vehicle_icon_id routeId color in
      if hasImage m i then Done m
      else case createVehicleChevronImageData env color of
             Inl e \<Rightarrow> Thrown e m
           | Inr imageData \<Rightarrow> Done (addImage i imageData m))"

section \<open>Pulse animation\<close>

definition pulse_wave :: "fpu \<Rightarrow> int \<Rightarrow> real" where
  "pulse_wave F t =
     fadd F (fmul F (fsin F (fmul F (fmul F (fdiv F (of_int t) 2000) (fpi F)) 2)) (1 / 2)) (1 / 2)"

definition pulse_opacity :: "fpu \<Rightarrow> int \<Rightarrow> real" where
  "pulse_opacity F t = fadd F (fl F 0.22) (fmul F (pulse_wave F t) (fl F 0.38))"

definition pulse_radius :: "fpu \<Rightarrow> int \<Rightarrow> real" where
  "pulse_radius F t = fadd F 11 (fmul F (pulse_wave F t) 10)"

definition pulse_layer :: "fpu \<Rightarrow> int \<Rightarrow> jstring \<Rightarrow> style_map \<Rightarrow> style_map" where
  "pulse_layer F t lid m =
     (case getLayer m lid of
        None \<Rightarrow> m
      | Some l \<Rightarrow>
          if l_type l \<noteq> ''circle'' then m
          else setPaintProperty lid ''circle-radius'' (PNum (pulse_radius F t))
                 (setPaintProperty lid ''circle-opacity'' (PNum (pulse_opacity F t)) m))"

text \<open>
  The animation: the map, the pending frame request (\<open>raf\<close>, \<open>None\<close> once it ran or was cancelled)
  and the next request number.  \<open>pulse_frame\<close> is one animation frame at time \<open>t\<close>.
\<close>

record pulse_anim =
  pa_map :: style_map
  pa_pending :: "nat option"
  pa_next :: nat

definition request_frame :: "pulse_anim \<Rightarrow> pulse_anim" where
  "request_frame a = a\<lparr>pa_pending := Some (pa_next a), pa_next := Suc (pa_next a)\<rparr>"

definition startVehiclePulseAnimation :: "style_map \<Rightarrow> pulse_anim" where
  "startVehiclePulseAnimation m = request_frame \<lparr>pa_map = m, pa_pending = None, pa_next = 0\<rparr>"

definition pulse_frame :: "fpu \<Rightarrow> (style_map \<Rightarrow> jstring list) \<Rightarrow> int \<Rightarrow> pulse_anim \<Rightarrow> pulse_anim" where
  "pulse_frame F getPulseLayerIds t a =
     (case pa_pending a of
        None \<Rightarrow> a
      | Some _ \<Rightarrow>
          request_frame (a\<lparr>pa_map := fold (pulse_layer F t) (getPulseLayerIds (pa_map a)) (pa_map a)\<rparr>))"

definition pulse_removed :: "pulse_anim \<Rightarrow> pulse_anim" where
  "pulse_removed a = a\<lparr>pa_pending := None\<rparr>"

section \<open>Lemmas: pulse\<close>

lemma pulse_active_iff:
  "vehiclePulseIsActive env v \<longleftrightarrow>
     \<not> nullish v \<and> v \<noteq> JStr [] \<and> (\<exists>t. date_value env v = Some t \<and> now env < t + 180000)"
  by (auto simp: vehiclePulseIsActive_def VEHICLE_PULSE_MAX_AGE_MS_def split: option.splits)

lemma pulse_wave_range:
  assumes "rounding (fl F)" and sin: "\<And>x. \<bar>fsin F x\<bar> \<le> 1"
  shows "0 \<le> pulse_wave F t \<and> pulse_wave F t \<le> 1"
proof -
  define s where "s = fsin F (fmul F (fmul F (fdiv F (of_int t) 2000) (fpi F)) 2)"
  have "\<bar>s * (1 / 2)\<bar> \<le> 1 / 2" using sin by (simp add: s_def abs_mult)
  then have "\<bar>fl F (s * (1 / 2))\<bar> \<le> 1 / 2" by (rule rounding.rnd_half_bounds [OF assms(1)])
  then have "0 \<le> fl F (s * (1 / 2)) + 1 / 2" and "fl F (s * (1 / 2)) + 1 / 2 \<le> 1"
    by (simp_all add: abs_le_iff)
  then show ?thesis
    using rounding.rnd_unit [OF assms(1)] by (simp add: pulse_wave_def fadd_def fmul_def s_def)
qed

lemma pulse_radius_range:
  assumes "rounding (fl F)" and "\<And>x. \<bar>fsin F x\<bar> \<le> 1"
  shows "11 \<le> pulse_radius F t \<and> pulse_radius F t \<le> 21"
proof -
  have w: "0 \<le> pulse_wave F t * 10" "pulse_wave F t * 10 \<le> 10"
    using pulse_wave_range [OF assms] by auto
  then have "0 \<le> fl F (pulse_wave F t * 10) \<and> fl F (pulse_wave F t * 10) \<le> 10"
    using rounding.rnd_bounds [OF assms(1), of 0 _ 10] by simp
  then show ?thesis
    using rounding.rnd_bounds [OF assms(1), of 11 _ 21]
    by (simp add: pulse_radius_def fadd_def fmul_def)
qed

lemma pulse_opacity_range:
  assumes "rounding (fl F)" and "\<And>x. \<bar>fsin F x\<bar> \<le> 1"
  shows "0 \<le> pulse_opacity F t \<and> pulse_opacity F t \<le> 1"
proof -
  let ?w = "pulse_wave F t"
  have w: "0 \<le> ?w" "?w \<le> 1" using pulse_wave_range [OF assms] by auto
  have a: "0 \<le> fl F 0.22" "\<bar>fl F 0.22\<bar> \<le> 1 / 2" and b: "0 \<le> fl F 0.38" "\<bar>fl F 0.38\<bar> \<le> 1 / 2"
    using rounding.rnd_nonneg [OF assms(1), of "0.22"] rounding.rnd_half_bounds [OF assms(1), of "0.22"]
      rounding.rnd_nonneg [OF assms(1), of "0.38"] rounding.rnd_half_bounds [OF assms(1), of "0.38"]
    by simp_all
  have "?w * fl F 0.38 \<le> 1 * (1 / 2)" using w b by (intro mult_mono) auto
  then have "0 \<le> ?w * fl F 0.38" "\<bar>?w * fl F 0.38\<bar> \<le> 1 / 2" using w b by simp_all
  then have "0 \<le> fl F (?w * fl F 0.38)" "\<bar>fl F (?w * fl F 0.38)\<bar> \<le> 1 / 2"
    using rounding.rnd_nonneg [OF assms(1)] rounding.rnd_half_bounds [OF assms(1)] by blast+
  then show ?thesis
    using a rounding.rnd_unit [OF assms(1)]
    by (simp add: pulse_opacity_def fadd_def fmul_def)
qed

section \<open>Lemmas: pulse animation\<close>

datatype pulse_event = Frame int | Removed

fun pulse_run ::
  "fpu \<Rightarrow> (style_map \<Rightarrow> jstring list) \<Rightarrow> pulse_event list \<Rightarrow> pulse_anim \<Rightarrow> pulse_anim" where
  "pulse_run F ids [] a = a"
| "pulse_run F ids (Frame t # es) a = pulse_run F ids es (pulse_frame F ids t a)"
| "pulse_run F ids (Removed # es) a = pulse_run F ids es (pulse_removed a)"

lemma pulse_run_append: "pulse_run F ids (es @ fs) a = pulse_run F ids fs (pulse_run F ids es a)"
  by (induction F ids es a rule: pulse_run.induct) auto

lemma pulse_run_idle: "pa_pending a = None \<Longrightarrow> pulse_run F ids es a = a"
  by (induction F ids es a rule: pulse_run.induct) (auto simp: pulse_frame_def pulse_removed_def)

lemma pulse_run_pending:
  "pa_pending a \<noteq> None \<Longrightarrow> Removed \<notin> set es \<Longrightarrow> pa_pending (pulse_run F ids es a) \<noteq> None"
  by (induction F ids es a rule: pulse_run.induct)
    (auto simp: pulse_frame_def request_frame_def)

lemma pulse_layer_getLayer:
  "getLayer (pulse_layer F t lid m) j =
     map_option (\<lambda>l. if j = lid \<and> l_type l = ''circle''
        then l\<lparr>l_paint := upsert ''circle-radius'' (PNum (pulse_radius F t))
                 (upsert ''circle-opacity'' (PNum (pulse_opacity F t)) (l_paint l))\<rparr>
        else l) (getLayer m j)"
  by (cases "getLayer m j"; cases "getLayer m lid")
    (auto simp: pulse_layer_def setPaintProperty_def getLayer_update)

lemma pulse_layer_ids: "layer_ids (pulse_layer F t lid m) = layer_ids m"
  by (simp add: pulse_layer_def setPaintProperty_def split: option.splits)

lemma pulse_fold_ids: "layer_ids (fold (pulse_layer F t) is m) = layer_ids m"
  by (induction "is" arbitrary: m) (simp_all add: pulse_layer_ids)

lemma pulse_fold_layout:
  "map_option l_layout (getLayer (fold (pulse_layer F t) is m) j) = map_option l_layout (getLayer m j)"
proof (induction "is" arbitrary: m)
  case Nil
  then show ?case by simp
next
  case (Cons i "is")
  have "map_option l_layout (getLayer (pulse_layer F t i m) j) = map_option l_layout (getLayer m j)"
    by (cases "getLayer m j") (auto simp: pulse_layer_getLayer)
  with Cons.IH [of "pulse_layer F t i m"] show ?case by simp
qed

section \<open>Lemmas: icon keys\<close>

lemma key_unit_underscore [simp]: "key_unit 95"
  by (simp add: key_unit_def)

lemma sanitize_key_units: "list_all key_unit (sanitize_key s)"
  by (induction s) (auto simp: sanitize_key_def)

lemma sanitize_key_id: "list_all key_unit s \<Longrightarrow> sanitize_key s = s"
  by (induction s) (auto simp: sanitize_key_def)

lemma length_sanitize_key [simp]: "length (sanitize_key s) = length s"
  by (simp add: sanitize_key_def)

text \<open>A colour as the map service writes it: \<open>#\<close> and six key characters.\<close>

definition hex_color :: "jsval \<Rightarrow> bool" where
  "hex_color c = (case c of
      JStr (u # h) \<Rightarrow> u = 35 \<and> length h = 6 \<and> list_all key_unit h
    | _ \<Rightarrow> False)"

lemma hex_colorE:
  assumes "hex_color c"
  obtains h where "c = JStr (35 # h)" and "length h = 6" and "list_all key_unit h"
  using assms by (auto simp: hex_color_def split: jsval.splits list.splits)

lemma sanitize_hex:
  assumes "hex_color c" and "c = JStr (35 # h)"
  shows "sanitizeColorForImageKey c = 95 # h"
proof -
  from assms have "list_all key_unit h" by (auto elim: hex_colorE)
  then have "sanitize_key h = h" by (rule sanitize_key_id)
  moreover have "\<not> key_unit 35" by (simp add: key_unit_def)
  ultimately show ?thesis using assms(2)
    by (simp add: sanitizeColorForImageKey_def sanitize_key_def)
qed

lemma icon_id_inj:
  assumes "hex_color c" and "hex_color d" and "vehicle_icon_id r c = vehicle_icon_id q d"
  shows "c = d" and "sanitizeRouteIdForImageKey r = sanitizeRouteIdForImageKey q"
proof -
  from assms(1) obtain h where h: "c = JStr (35 # h)" "length h = 6" by (rule hex_colorE)
  from assms(2) obtain k where k: "d = JStr (35 # k)" "length k = 6" by (rule hex_colorE)
  have "sanitizeRouteIdForImageKey r @ lit ''-'' @ 95 # h
      = sanitizeRouteIdForImageKey q @ lit ''-'' @ 95 # k"
    using assms sanitize_hex [OF assms(1) h(1)] sanitize_hex [OF assms(2) k(1)]
    by (simp add: vehicle_icon_id_def Let_def)
  then have "sanitizeRouteIdForImageKey r = sanitizeRouteIdForImageKey q \<and> h = k"
    using h(2) k(2) by (simp add: append_eq_append_conv)
  then show "c = d" and "sanitizeRouteIdForImageKey r = sanitizeRouteIdForImageKey q"
    using h k by auto
qed

lemma icon_id_nonempty [simp]: "vehicle_icon_id r c \<noteq> []"
  by (simp add: vehicle_icon_id_def Let_def lit_def)

lemma icon_id_not_marker [simp]: "vehicle_icon_id r c \<noteq> MONO_MARKER_IMAGE_ID"
  by (simp add: vehicle_icon_id_def Let_def lit_def MONO_MARKER_IMAGE_ID_def)

text \<open>Every cached icon is the chevron of the colour in its key.\<close>

definition icons_ok :: "canvas_env \<Rightarrow> style_map \<Rightarrow> bool" where
  "icons_ok env m \<longleftrightarrow>
     (\<forall>r c img. hex_color c \<longrightarrow> m_images m (vehicle_icon_id r c) = Some img \<longrightarrow>
        createVehicleChevronImageData env c = Inr img)"

lemma icons_ok_images:
  "m_images n = m_images m \<Longrightarrow> icons_ok env n \<longleftrightarrow> icons_ok env m"
  by (simp add: icons_ok_def)

lemma register_icon:
  assumes "icons_ok env m" and "hex_color c"
    and "registerVehicleIconForRoute env r c m = Done n"
  shows "icons_ok env n"
    and "\<exists>img. m_images n (vehicle_icon_id r c) = Some img \<and> createVehicleChevronImageData env c = Inr img"
    and "registerVehicleIconForRoute env r c n = Done n"
proof -
  let ?i = "vehicle_icon_id r c"
  have "icons_ok env n \<and> (\<exists>img. m_images n ?i = Some img \<and> createVehicleChevronImageData env c = Inr img)"
  proof (cases "m_images m ?i")
    case (Some img)
    with assms show ?thesis
      by (auto simp: registerVehicleIconForRoute_def hasImage_def icons_ok_def Let_def)
  next
    case None
    with assms(3) obtain img where img: "createVehicleChevronImageData env c = Inr img"
      and n: "n = m\<lparr>m_images := (m_images m)(?i \<mapsto> img)\<rparr>"
      by (auto simp: registerVehicleIconForRoute_def hasImage_def addImage_def Let_def
          split: sum.splits)
    have "createVehicleChevronImageData env d = Inr i"
      if "hex_color d" and "m_images n (vehicle_icon_id q d) = Some i" for q d i
    proof (cases "vehicle_icon_id q d = ?i")
      case True
      with icon_id_inj(1) [OF that(1) assms(2)] that(2) img n show ?thesis by auto
    next
      case False
      with that n assms(1) show ?thesis by (simp add: icons_ok_def)
    qed
    with img n show ?thesis by (auto simp: icons_ok_def)
  qed
  then show "icons_ok env n"
    and "\<exists>img. m_images n ?i = Some img \<and> createVehicleChevronImageData env c = Inr img"
    by simp_all
  then show "registerVehicleIconForRoute env r c n = Done n"
    by (auto simp: registerVehicleIconForRoute_def hasImage_def Let_def)
qed

lemma register_frame:
  "state_of (registerVehicleIconForRoute env r c m) =
     m\<lparr>m_images := m_images (state_of (registerVehicleIconForRoute env r c m))\<rparr>"
  by (auto simp: registerVehicleIconForRoute_def addImage_def hasImage_def Let_def split: sum.splits)

section \<open>Lemmas: marker image\<close>

lemma draw_once:
  assumes "\<And>d. returned (cb d s)"
  shows "drawImageToMarkerImageData env sz cb s =
     cb (if re_context env \<and> \<not> re_draw_throws env then Some (MonoMarker sz) else None) s"
proof -
  have "\<exists>t. cb d s = Done t" for d using assms [of d] by (cases "cb d s") auto
  then obtain t u where "cb None s = Done t" and "cb (Some (MonoMarker sz)) s = Done u" by meson
  then show ?thesis by (simp add: drawImageToMarkerImageData_def)
qed

definition marker_bitmap :: "raster_env \<Rightarrow> image option" where
  "marker_bitmap env =
     (if (re_img_loads env
          \<or> re_has_fetch env \<and> re_fetch env = HttpOk () \<and> re_blob_loads env)
         \<and> re_context env \<and> \<not> re_draw_throws env
      then Some (MonoMarker 128) else None)"

lemma rasterize_once:
  assumes "\<And>d. returned (cb d s)"
  shows "rasterizeMonoMarkerForMap env cb (False, s) = lift_outcome False (cb (marker_bitmap env) s)"
proof -
  have e: "\<And>d. returned ((\<lambda>data (l, s). lift_outcome False (cb data s)) d (True, s))"
  proof -
    fix d
    show "returned ((\<lambda>data (l, s). lift_outcome False (cb data s)) d (True, s))"
      using assms [of d] by (cases "cb d s") auto
  qed
  show ?thesis
    using draw_once [of cb s env 128, OF assms]
      draw_once [of "\<lambda>data (l, s). lift_outcome False (cb data s)" "(True, s)" env 128, OF e]
    by (cases "re_fetch env")
      (auto simp: rasterizeMonoMarkerForMap_def marker_bitmap_def Let_def)
qed

text \<open>What \<open>onDone\<close> is called with, and on which map.\<close>

definition marker_loaded :: "raster_env \<Rightarrow> style_map \<Rightarrow> bool \<times> style_map" where
  "marker_loaded env m =
     (if hasImage m MONO_MARKER_IMAGE_ID then (True, m)
      else case marker_bitmap env of
             None \<Rightarrow> (False, m)
           | Some img \<Rightarrow> (True, addImage MONO_MARKER_IMAGE_ID img m))"

lemma load_marker_at:
  assumes "\<And>ok. returned (onDone ok m)"
    and "\<And>ok img. returned (onDone ok (addImage MONO_MARKER_IMAGE_ID img m))"
  shows "loadMonoMarkerImage env onDone m =
     onDone (fst (marker_loaded env m)) (snd (marker_loaded env m))"
proof (cases "hasImage m MONO_MARKER_IMAGE_ID")
  case True
  then show ?thesis by (simp add: loadMonoMarkerImage_def marker_loaded_def)
next
  case False
  let ?cb = "\<lambda>imageData m. case imageData of None \<Rightarrow> onDone False m
     | Some img \<Rightarrow> onDone True (if \<not> hasImage m MONO_MARKER_IMAGE_ID
                            then addImage MONO_MARKER_IMAGE_ID img m else m)"
  have cb: "returned (?cb d m)" for d using assms by (cases d) auto
  then have r: "rasterizeMonoMarkerForMap env ?cb (False, m)
      = lift_outcome False (?cb (marker_bitmap env) m)" by (rule rasterize_once)
  obtain t where t: "?cb (marker_bitmap env) m = Done t"
    using cb [of "marker_bitmap env"] unfolding returned_iff by blast
  then have "loadMonoMarkerImage env onDone m = ?cb (marker_bitmap env) m"
    using False by (simp add: loadMonoMarkerImage_def r)
  then show ?thesis
    using False by (cases "marker_bitmap env") (simp_all add: marker_loaded_def)
qed

lemma load_marker:
  assumes "\<And>ok n. returned (onDone ok n)"
  shows "loadMonoMarkerImage env onDone m =
     onDone (fst (marker_loaded env m)) (snd (marker_loaded env m))"
  using assms by (rule load_marker_at) (rule assms)

lemma marker_loaded_image:
  "fst (marker_loaded env m) \<longleftrightarrow> hasImage (snd (marker_loaded env m)) MONO_MARKER_IMAGE_ID"
  by (auto simp: marker_loaded_def hasImage_addImage MONO_MARKER_IMAGE_ID_def lit_def
      split: option.splits)

lemma marker_loaded_frame:
  "snd (marker_loaded env m) = m\<lparr>m_images := m_images (snd (marker_loaded env m)),
     m_errors := m_errors (snd (marker_loaded env m))\<rparr>"
  by (auto simp: marker_loaded_def addImage_def fire_error_def split: option.splits)

lemma marker_loaded_layers [simp]:
  "m_layers (snd (marker_loaded env m)) = m_layers m"
  "m_sources (snd (marker_loaded env m)) = m_sources m"
  "m_glyphs (snd (marker_loaded env m)) = m_glyphs m"
  "m_listeners (snd (marker_loaded env m)) = m_listeners m"
  by (auto simp: marker_loaded_def addImage_def fire_error_def split: option.splits)

lemma register_images:
  assumes "registerVehicleIconForRoute env r c m = Done n" and "m_images m i = Some img"
  shows "m_images n i = Some img"
  using assms
  by (auto simp: registerVehicleIconForRoute_def addImage_def hasImage_def Let_def
      split: sum.splits if_splits)

lemma register_all:
  assumes "icons_ok env m" and "\<forall>(r, c) \<in> set vs. hex_color c"
    and "for_each (\<lambda>(r, c). registerVehicleIconForRoute env r c) vs m = Done n"
  shows "icons_ok env n \<and> (\<forall>i img. m_images m i = Some img \<longrightarrow> m_images n i = Some img)
     \<and> (\<forall>(r, c) \<in> set vs. \<exists>img. m_images n (vehicle_icon_id r c) = Some img
          \<and> createVehicleChevronImageData env c = Inr img)"
  using assms
proof (induction vs arbitrary: m)
  case Nil
  then show ?case by simp
next
  case (Cons v vs)
  obtain r c where v: "v = (r, c)" by fastforce
  with Cons.prems obtain k where k: "registerVehicleIconForRoute env r c m = Done k"
    and rest: "for_each (\<lambda>(r, c). registerVehicleIconForRoute env r c) vs k = Done n"
    by (auto simp: and_then_Done_iff)
  from Cons.prems v have c: "hex_color c" by simp
  note reg = register_icon [OF Cons.prems(1) c k]
  from Cons.IH [OF reg(1) _ rest] Cons.prems(2)
  have IH: "icons_ok env n \<and> (\<forall>i img. m_images k i = Some img \<longrightarrow> m_images n i = Some img)
     \<and> (\<forall>(r, c) \<in> set vs. \<exists>img. m_images n (vehicle_icon_id r c) = Some img
          \<and> createVehicleChevronImageData env c = Inr img)" by simp
  with reg(2) v register_images [OF k] show ?case by auto
qed

section \<open>Properties\<close>

text \<open>
  C10: The vehicle icon cache is right: after registering an icon for every vehicle on a map, the
  image found under the id given to a vehicle is the chevron drawn in that vehicle's colour, and
  no image already on the map has changed, although the ids replace characters of the colour.
\<close>

theorem vehicle_icon_cache:
  assumes "icons_ok env m" and "\<forall>(r, c) \<in> set vs. hex_color c"
    and "for_each (\<lambda>(r, c). registerVehicleIconForRoute env r c) vs m = Done n"
  shows "(\<forall>(r, c) \<in> set vs. \<exists>img. m_images n (vehicle_icon_id r c) = Some img
          \<and> createVehicleChevronImageData env c = Inr img)
     \<and> (\<forall>i img. m_images m i = Some img \<longrightarrow> m_images n i = Some img)"
  using register_all [OF assms] by blast

lemma vehicle_icon_cache_witness:
  "let c = JStr (lit ''#e6194b''); env = \<lparr>cv_context = True, cv_roundRect = False\<rparr>;
       n = state_of (registerVehicleIconForRoute env (JStr (lit ''46A'')) c empty_map)
   in \<exists>img. m_images n (vehicle_icon_id (JStr (lit ''46A'')) c) = Some img
        \<and> createVehicleChevronImageData env c = Inr img"
proof -
  let ?c = "JStr (lit ''#e6194b'')" and ?env = "\<lparr>cv_context = True, cv_roundRect = False\<rparr>"
  let ?r = "registerVehicleIconForRoute ?env (JStr (lit ''46A'')) ?c empty_map"
  have "icons_ok ?env empty_map" by (simp add: icons_ok_def empty_map_def)
  moreover have "hex_color ?c" by (simp add: hex_color_def lit_def key_unit_def)
  moreover have "for_each (\<lambda>(r, c). registerVehicleIconForRoute ?env r c)
      [(JStr (lit ''46A''), ?c)] empty_map = Done (state_of ?r)"
    by (simp add: registerVehicleIconForRoute_def createVehicleChevronImageData_def Let_def)
  ultimately show ?thesis
    using vehicle_icon_cache [of ?env empty_map "[(JStr (lit ''46A''), ?c)]" "state_of ?r"]
    by (simp add: Let_def)
qed

text \<open>
  \<open>loadMonoMarkerImage\<close> calls \<open>onDone\<close> exactly once, on every path through image loading, the
  fetch fallback and canvas failures, provided that \<open>onDone\<close> itself does not throw; it reports
  success exactly when the map then has the marker image, and leaves layers, sources and
  listeners alone.
\<close>

theorem marker_image_reported:
  assumes "\<forall>ok n. returned (onDone ok n)"
  shows "\<exists>ok n. loadMonoMarkerImage env onDone m = onDone ok n
     \<and> ok = hasImage n MONO_MARKER_IMAGE_ID
     \<and> m_layers n = m_layers m \<and> m_sources n = m_sources m \<and> m_listeners n = m_listeners m"
  using load_marker [of onDone env m] assms marker_loaded_image [of env m]
  by (intro exI [of _ "fst (marker_loaded env m)"] exI [of _ "snd (marker_loaded env m)"]) simp

lemma marker_image_reported_witness:
  "\<exists>ok n. loadMonoMarkerImage \<lparr>re_img_loads = False, re_has_fetch = True, re_fetch = HttpOk (),
       re_blob_loads = True, re_context = True, re_draw_throws = False\<rparr>
       (\<lambda>ok m. Done (addControl (if ok then ''yes'' else ''no'') '''' m)) empty_map
       = Done (addControl (if ok then ''yes'' else ''no'') '''' n)
     \<and> ok = hasImage n MONO_MARKER_IMAGE_ID"
proof -
  have "\<forall>ok n. returned ((\<lambda>ok m. Done (addControl (if ok then ''yes'' else ''no'') '''' m)) ok n)"
    by simp
  from marker_image_reported [OF this] show ?thesis by blast
qed

text \<open>
  When \<open>onDone\<close> throws while the decoded image is being handed over, the \<open>try\<close> around the
  canvas code swallows the exception and \<open>onDone\<close> is called a second time, with \<open>false\<close>, on the
  map that the first call left.
\<close>

theorem marker_callback_twice:
  assumes "\<not> hasImage m MONO_MARKER_IMAGE_ID"
    and "re_img_loads env" and "re_context env" and "\<not> re_draw_throws env"
    and "onDone True (addImage MONO_MARKER_IMAGE_ID (MonoMarker 128) m) = Thrown e n"
  shows "loadMonoMarkerImage env onDone m = onDone False n"
  using assms
  by (cases "onDone False n")
    (simp_all add: loadMonoMarkerImage_def rasterizeMonoMarkerForMap_def
      drawImageToMarkerImageData_def Let_def)

lemma marker_callback_twice_witness:
  "loadMonoMarkerImage \<lparr>re_img_loads = True, re_has_fetch = True, re_fetch = HttpOk (),
       re_blob_loads = True, re_context = True, re_draw_throws = False\<rparr>
       (\<lambda>ok m. if ok then Thrown URIError (fire_error ''boom'' m) else Done m) empty_map
   = Done (fire_error ''boom'' (addImage MONO_MARKER_IMAGE_ID (MonoMarker 128) empty_map))"
  by (subst marker_callback_twice) (simp_all add: hasImage_def empty_map_def)

text \<open>
  In binary64 arithmetic, with any sine bounded by 1, every frame of the pulse animation sets
  a radius between 11 and 21 pixels and an opacity between 0 and 1.
\<close>

theorem pulse_in_range:
  assumes "\<forall>x. \<bar>fsin F x\<bar> \<le> 1" and "fl F = round64"
  shows "11 \<le> pulse_radius F t \<and> pulse_radius F t \<le> 21
     \<and> 0 \<le> pulse_opacity F t \<and> pulse_opacity F t \<le> 1"
  using pulse_radius_range [of F t] pulse_opacity_range [of F t] assms
  by (simp add: binary64.rounding_axioms)

lemma pulse_in_range_witness:
  "11 \<le> pulse_radius (exact_fpu\<lparr>fl := round64\<rparr>) 1234 \<and> pulse_radius (exact_fpu\<lparr>fl := round64\<rparr>) 1234 \<le> 21"
  using pulse_in_range [of "exact_fpu\<lparr>fl := round64\<rparr>" 1234] by simp

text \<open>
  The pulse animation touches nothing but paint, and ends with the map: over any sequence of
  frames the layers, their order and their layout (so their visibility) stay, and after the
  \<open>remove\<close> event no frame changes anything any more.
\<close>

theorem pulse_animation_confined:
  "layer_ids (pa_map (pulse_run F ids es a)) = layer_ids (pa_map a)
   \<and> map_option l_layout (getLayer (pa_map (pulse_run F ids es a)) i)
       = map_option l_layout (getLayer (pa_map a) i)
   \<and> pulse_run F ids (es @ Removed # fs) a = pulse_removed (pulse_run F ids es a)"
proof -
  have "layer_ids (pa_map (pulse_run F ids es a)) = layer_ids (pa_map a)
     \<and> map_option l_layout (getLayer (pa_map (pulse_run F ids es a)) i)
       = map_option l_layout (getLayer (pa_map a) i)"
    by (induction F ids es a rule: pulse_run.induct)
      (auto simp: pulse_frame_def request_frame_def pulse_removed_def pulse_fold_ids
        pulse_fold_layout split: option.splits)
  moreover have "pulse_run F ids (es @ Removed # fs) a = pulse_removed (pulse_run F ids es a)"
    by (simp add: pulse_run_append pulse_run_idle pulse_removed_def)
  ultimately show ?thesis by simp
qed

end
