(* ===== verification/Html_Markup.thy ===== *)
theory Html_Markup
  imports Js_Prelude
begin

text \<open>
  The reference against which the HTML builders of \<open>stop-detail-popup.js\<close> are checked: a
  fragment is text, then tags each followed by text; \<open>render\<close> writes it with every text and
  attribute value escaped, and \<open>parse\<close> reads a fragment back the way an HTML tokenizer does on
  this subset (start tags with double-quoted attributes, end tags, character references for the
  four characters the escaping replaces).  \<open>parse_render\<close> is the round trip.
\<close>

section \<open>Escaping\<close>

definition esc_unit :: "16 word \<Rightarrow> jstring" where
  "esc_unit u =
     (if u = 38 then lit ''&amp;'' else if u = 60 then lit ''&lt;''
      else if u = 62 then lit ''&gt;'' else if u = 34 then lit ''&quot;'' else [u])"

definition esc :: "jstring \<Rightarrow> jstring" where
  "esc s = concat (map esc_unit s)"

definition entity :: "jstring \<Rightarrow> (16 word \<times> jstring) option" where
  "entity s =
     (if take 5 s = lit ''&amp;'' then Some (38, drop 5 s)
      else if take 4 s = lit ''&lt;'' then Some (60, drop 4 s)
      else if take 4 s = lit ''&gt;'' then Some (62, drop 4 s)
      else if take 6 s = lit ''&quot;'' then Some (34, drop 6 s)
      else None)"

lemma entity_length: "entity s = Some (c, r) \<Longrightarrow> length r < length s"
  by (auto simp: entity_def lit_def split: if_splits) (cases s; simp)+

function unescape :: "jstring \<Rightarrow> jstring" where
  "unescape s =
     (case s of
        [] \<Rightarrow> []
      | u # t \<Rightarrow> (case entity s of Some (c, r) \<Rightarrow> c # unescape r | None \<Rightarrow> u # unescape t))"
  by pat_completeness auto
termination
  by (relation "measure length") (auto dest: entity_length)

declare unescape.simps [simp del]

lemma esc_Nil [simp]: "esc [] = []"
  by (simp add: esc_def)

lemma esc_Cons: "esc (u # s) = esc_unit u @ esc s"
  by (simp add: esc_def)

lemma esc_append [simp]: "esc (s @ t) = esc s @ esc t"
  by (simp add: esc_def)

lemma entity_esc_unit: "entity (esc_unit u @ s) = (if u \<in> {38, 60, 62, 34} then Some (u, s) else None)"
  by (auto simp: entity_def esc_unit_def lit_def)

lemma unescape_esc: "unescape (esc s) = s"
proof (induction s)
  case Nil
  then show ?case by (simp add: unescape.simps)
next
  case (Cons u s)
  have "unescape (esc_unit u @ esc s) = u # unescape (esc s)"
  proof (cases "u \<in> {38, 60, 62, 34}")
    case True
    then have "\<exists>v t. esc_unit u = v # t" by (auto simp: esc_unit_def lit_def)
    then obtain v t where vt: "esc_unit u = v # t" by blast
    with True entity_esc_unit [of u "esc s"] show ?thesis
      by (subst unescape.simps) simp
  next
    case False
    then have "esc_unit u = [u]" by (simp add: esc_unit_def)
    with False entity_esc_unit [of u "esc s"] show ?thesis
      by (subst unescape.simps) simp
  qed
  with Cons show ?case by (simp add: esc_Cons)
qed

lemma esc_no_markup: "set (esc s) \<inter> {34, 60, 62} = {}"
  by (induction s) (auto simp: esc_Cons esc_unit_def lit_def)

definition plain :: "jstring \<Rightarrow> bool" where
  "plain s \<longleftrightarrow> list_all (\<lambda>u. u \<notin> {34, 38, 60, 62}) s"

lemma plain_append [simp]: "plain (s @ t) \<longleftrightarrow> plain s \<and> plain t"
  by (simp add: plain_def)

lemma esc_plain: "plain s \<Longrightarrow> esc s = s"
  by (induction s) (auto simp: esc_Cons esc_unit_def plain_def)

section \<open>Fragments\<close>

datatype tag = Open jstring "(jstring \<times> jstring) list" | Close jstring

type_synonym fragment = "jstring \<times> (tag \<times> jstring) list"

fun render_attrs :: "(jstring \<times> jstring) list \<Rightarrow> jstring" where
  "render_attrs [] = []"
| "render_attrs ((n, v) # as) = [32] @ n @ [61, 34] @ esc v @ [34] @ render_attrs as"

fun render_tag :: "tag \<Rightarrow> jstring" where
  "render_tag (Open n as) = [60] @ n @ render_attrs as @ [62]"
| "render_tag (Close n) = [60, 47] @ n @ [62]"

fun render_items :: "(tag \<times> jstring) list \<Rightarrow> jstring" where
  "render_items [] = []"
| "render_items ((g, t) # ps) = render_tag g @ esc t @ render_items ps"

definition render :: "fragment \<Rightarrow> jstring" where
  "render f = esc (fst f) @ render_items (snd f)"

lemma render_items_append [simp]: "render_items (ps @ qs) = render_items ps @ render_items qs"
  by (induction ps) auto

section \<open>The tokenizer\<close>

text \<open>
  One state per tokenizer state that the subset reaches; each carries what it has collected.
  Text is emitted at every tag and at the end, empty text included.
\<close>

datatype token = Text jstring | Tag tag

datatype lex_state =
    Data jstring
  | TagOpen
  | EndName jstring
  | TagName jstring
  | AttrName jstring "(jstring \<times> jstring) list" jstring
  | BeforeValue jstring "(jstring \<times> jstring) list" jstring
  | Value jstring "(jstring \<times> jstring) list" jstring jstring
  | AfterValue jstring "(jstring \<times> jstring) list"

definition emit :: "token \<Rightarrow> token list option \<Rightarrow> token list option" where
  "emit t r = map_option ((#) t) r"

lemma emit_Some [simp]: "emit t (Some ts) = Some (t # ts)"
  by (simp add: emit_def)

fun lex :: "lex_state \<Rightarrow> jstring \<Rightarrow> token list option" where
  "lex (Data acc) [] = Some [Text (unescape acc)]"
| "lex (Data acc) (u # s) =
     (if u = 60 then emit (Text (unescape acc)) (lex TagOpen s) else lex (Data (acc @ [u])) s)"
| "lex TagOpen (u # s) = (if u = 47 then lex (EndName []) s else lex (TagName [u]) s)"
| "lex (EndName n) (u # s) =
     (if u = 62 then emit (Tag (Close n)) (lex (Data []) s) else lex (EndName (n @ [u])) s)"
| "lex (TagName n) (u # s) =
     (if u = 62 then emit (Tag (Open n [])) (lex (Data []) s)
      else if u = 32 then lex (AttrName n [] []) s
      else lex (TagName (n @ [u])) s)"
| "lex (AttrName n as a) (u # s) =
     (if u = 61 then lex (BeforeValue n as a) s else lex (AttrName n as (a @ [u])) s)"
| "lex (BeforeValue n as a) (u # s) = (if u = 34 then lex (Value n as a []) s else None)"
| "lex (Value n as a v) (u # s) =
     (if u = 34 then lex (AfterValue n (as @ [(a, unescape v)])) s
      else lex (Value n as a (v @ [u])) s)"
| "lex (AfterValue n as) (u # s) =
     (if u = 62 then emit (Tag (Open n as)) (lex (Data []) s)
      else if u = 32 then lex (AttrName n as []) s
      else None)"
| "lex _ [] = None"

definition tokenize :: "jstring \<Rightarrow> token list option" where
  "tokenize s = lex (Data []) s"

fun items_tokens :: "(tag \<times> jstring) list \<Rightarrow> token list" where
  "items_tokens [] = []"
| "items_tokens ((g, t) # ps) = Tag g # Text t # items_tokens ps"

definition tokens_of :: "fragment \<Rightarrow> token list" where
  "tokens_of f = Text (fst f) # items_tokens (snd f)"

lemma items_tokens_append [simp]: "items_tokens (ps @ qs) = items_tokens ps @ items_tokens qs"
  by (induction ps rule: items_tokens.induct) auto

section \<open>Round trip\<close>

text \<open>Element and attribute names: no white space, slash, equals sign, quote or angle bracket.\<close>

definition html_name :: "jstring \<Rightarrow> bool" where
  "html_name n \<longleftrightarrow> n \<noteq> [] \<and> list_all (\<lambda>u. u \<notin> {32, 34, 47, 60, 61, 62}) n"

fun wf_tag :: "tag \<Rightarrow> bool" where
  "wf_tag (Open n as) = (html_name n \<and> list_all (\<lambda>(a, v). html_name a) as)"
| "wf_tag (Close n) = html_name n"

definition wf_fragment :: "fragment \<Rightarrow> bool" where
  "wf_fragment f \<longleftrightarrow> list_all (\<lambda>(g, t). wf_tag g) (snd f)"

lemma lex_Data: "60 \<notin> set x \<Longrightarrow> lex (Data acc) (x @ s) = lex (Data (acc @ x)) s"
  by (induction x arbitrary: acc) auto

lemma lex_EndName: "62 \<notin> set x \<Longrightarrow> lex (EndName acc) (x @ s) = lex (EndName (acc @ x)) s"
  by (induction x arbitrary: acc) auto

lemma lex_TagName:
  "62 \<notin> set x \<Longrightarrow> 32 \<notin> set x \<Longrightarrow> lex (TagName acc) (x @ s) = lex (TagName (acc @ x)) s"
  by (induction x arbitrary: acc) auto

lemma lex_AttrName:
  "61 \<notin> set x \<Longrightarrow> lex (AttrName n as acc) (x @ s) = lex (AttrName n as (acc @ x)) s"
  by (induction x arbitrary: acc) auto

lemma lex_Value: "34 \<notin> set x \<Longrightarrow> lex (Value n as a acc) (x @ s) = lex (Value n as a (acc @ x)) s"
  by (induction x arbitrary: acc) auto

lemma esc_units [simp]: "34 \<notin> set (esc s)" "60 \<notin> set (esc s)" "62 \<notin> set (esc s)"
  using esc_no_markup [of s] by auto

lemma html_name_units:
  "html_name n \<Longrightarrow> 62 \<notin> set n \<and> 32 \<notin> set n \<and> 61 \<notin> set n \<and> 47 \<notin> set n"
  by (auto simp: html_name_def list_all_iff)

lemma lex_attrs:
  "list_all (\<lambda>(a, v). html_name a) bs \<Longrightarrow>
   lex (AfterValue n as) (render_attrs bs @ 62 # s) = emit (Tag (Open n (as @ bs))) (lex (Data []) s)"
proof (induction bs arbitrary: as)
  case Nil
  then show ?case by simp
next
  case (Cons b bs)
  obtain a v where b: "b = (a, v)" by fastforce
  with Cons.prems have a: "61 \<notin> set a" by (simp add: html_name_units)
  have "lex (AfterValue n as) (render_attrs (b # bs) @ 62 # s)
      = lex (AttrName n as []) (a @ 61 # 34 # esc v @ 34 # render_attrs bs @ 62 # s)"
    by (simp add: b)
  also have "\<dots> = lex (Value n as a []) (esc v @ 34 # render_attrs bs @ 62 # s)"
    using a by (simp add: lex_AttrName)
  also have "\<dots> = lex (AfterValue n (as @ [b])) (render_attrs bs @ 62 # s)"
    by (simp add: lex_Value unescape_esc b)
  finally show ?case
    using Cons by simp
qed

lemma lex_open:
  assumes "wf_tag (Open n as)"
  shows "lex TagOpen (n @ render_attrs as @ 62 # s) = emit (Tag (Open n as)) (lex (Data []) s)"
proof -
  obtain u m where n: "n = u # m" and u: "u \<noteq> 47" and m: "62 \<notin> set m" "32 \<notin> set m"
    using assms by (cases n) (auto simp: html_name_def list_all_iff)
  have "lex TagOpen (n @ render_attrs as @ 62 # s) = lex (TagName n) (render_attrs as @ 62 # s)"
    using u m by (simp add: n lex_TagName)
  also have "\<dots> = lex (AfterValue n []) (render_attrs as @ 62 # s)"
    by (cases as rule: render_attrs.cases) auto
  finally show ?thesis
    using assms by (simp add: lex_attrs)
qed

lemma lex_close:
  assumes "wf_tag (Close n)"
  shows "lex TagOpen (47 # n @ 62 # s) = emit (Tag (Close n)) (lex (Data []) s)"
  using assms by (simp add: lex_EndName html_name_units)

lemma lex_tag:
  "wf_tag g \<Longrightarrow> lex (Data acc) (render_tag g @ s)
     = emit (Text (unescape acc)) (emit (Tag g) (lex (Data []) s))"
  by (cases g) (auto simp: lex_open lex_close simp del: lex.simps(3) wf_tag.simps)

lemma lex_items:
  "list_all (\<lambda>(g, t). wf_tag g) ps \<Longrightarrow>
   lex (Data (esc x)) (render_items ps) = Some (Text x # items_tokens ps)"
proof (induction ps arbitrary: x rule: items_tokens.induct)
  case 1
  then show ?case by (simp add: unescape_esc)
next
  case (2 g t ps)
  have "lex (Data []) (esc t @ render_items ps) = lex (Data (esc t)) (render_items ps)"
    using lex_Data [of "esc t" "[]"] by simp
  with 2 show ?case by (simp add: lex_tag unescape_esc)
qed

theorem tokenize_render: "wf_fragment f \<Longrightarrow> tokenize (render f) = Some (tokens_of f)"
  using lex_Data [of "esc (fst f)" "[]" "render_items (snd f)"]
  by (simp add: tokenize_def render_def tokens_of_def wf_fragment_def lex_items)

end
