(* ===== verification/Stop_Detail_Popup.thy ===== *)
theory Stop_Detail_Popup
  imports Html_Markup Js_Uri
begin

text \<open>
  \<open>static/js/stop-detail-popup.js\<close>: the HTML builders of the map popups.  A field read from the
  detail or map JSON is a \<open>jsval\<close>, so missing and null fields take the code's branches; the
  current time, date parsing and locale formatting of the browser are parameters.  Every builder
  is shown to be \<open>render\<close> of a fragment that holds the data unescaped, which is the statement
  that data cannot leave its text node or attribute.
\<close>

section \<open>Helpers\<close>

definition escapeHtml :: "jsval \<Rightarrow> jstring" where
  "escapeHtml s =
     (if s = JNull \<or> s = JUndef then []
      else replace_all 34 (lit ''&quot;'')
             (replace_all 62 (lit ''&gt;'')
               (replace_all 60 (lit ''&lt;'')
                 (replace_all 38 (lit ''&amp;'') (to_str s)))))"

definition featureBoolToEmoji :: "jsval \<Rightarrow> jstring" where
  "featureBoolToEmoji v =
     (if v = JBool True then [0x2705] else if v = JBool False then [0x274C] else [0x2014])"

text \<open>\<open>fetchStopDetailed\<close>: the URL it requests, and what its promise becomes for a response.\<close>

definition stop_detailed_url :: "jsval \<Rightarrow> jstring option" where
  "stop_detailed_url stopId =
     map_option (\<lambda>e. lit ''/api/v1/stop/'' @ e @ lit ''/detailed'')
       (encodeURIComponent (to_str stopId))"

fun fetchStopDetailed :: "'a response \<Rightarrow> exn + 'a" where
  "fetchStopDetailed (HttpOk json) = Inr json"
| "fetchStopDetailed HttpError = Inl (GenericError ''Stop details not available'')"
| "fetchStopDetailed NetworkError = Inl (TypeError ''Failed to fetch'')"

section \<open>The builders\<close>

record route_summary =
  rs_route_id :: jsval
  rs_short_name :: jsval
  rs_long_name :: jsval

record stop_features =
  sf_wheelchair_accessible :: jsval
  sf_shelter_active :: jsval
  sf_rtpi_active :: jsval

record detailed_stop =
  ds_id :: jsval
  ds_code :: jsval
  ds_name :: jsval

text \<open>An absent or null object or array is \<open>None\<close>.\<close>

record stop_detailed =
  sd_stop :: "detailed_stop option"
  sd_routes :: "route_summary list option"
  sd_stop_features :: "stop_features option"
  sd_street_view_url :: jsval

text \<open>\<open>`${code} - ${stop.name}`.trim()\<close> with \<open>code = stop.code || ""\<close>.\<close>

definition stop_title :: "jsval \<Rightarrow> jsval \<Rightarrow> jstring" where
  "stop_title code name =
     js_trim (to_str (js_or code (JStr [])) @ lit '' - '' @ to_str name)"

definition route_link_html :: "jstring \<Rightarrow> route_summary \<Rightarrow> jstring" where
  \<open>route_link_html dir r =
     lit ''<a href="/realtime/route/'' @ escapeHtml (rs_route_id r) @ lit ''/'' @ dir @ lit ''">''
       @ escapeHtml (rs_short_name r) @ lit ''</a> '' @ [0x2014] @ lit '' ''
       @ escapeHtml (rs_long_name r)\<close>

definition features_html :: "stop_features option \<Rightarrow> jstring" where
  \<open>features_html f =
     (case f of
        None \<Rightarrow> []
      | Some sf \<Rightarrow>
          lit ''<p class="map-popup-block map-popup-muted">Wheelchair accessible: ''
            @ featureBoolToEmoji (sf_wheelchair_accessible sf) @ lit ''<br>''
            @ lit ''Bus shelter: '' @ featureBoolToEmoji (sf_shelter_active sf) @ lit ''<br>''
            @ lit ''Realtime display: '' @ featureBoolToEmoji (sf_rtpi_active sf) @ lit ''</p>'')\<close>

definition street_html :: "jsval \<Rightarrow> jstring" where
  \<open>street_html url =
     (let streetUrl = js_or url (JStr []) in
      if truthy streetUrl
      then lit ''<p class="map-popup-block"><a class="map-popup-link" href="''
             @ escapeHtml streetUrl
             @ lit ''" target="_blank" rel="noopener noreferrer">Street view</a></p>''
      else [])\<close>

definition buildPopupHtmlFromDetailed :: "stop_detailed \<Rightarrow> jsval \<Rightarrow> exn + jstring" where
  \<open>buildPopupHtmlFromDetailed detail directionForRouteLinks =
     (case sd_stop detail of
        None \<Rightarrow> Inl (TypeError ''Cannot read properties of undefined'')
      | Some stop \<Rightarrow>
          let title = stop_title (ds_code stop) (ds_name stop);
              routes = (case sd_routes detail of None \<Rightarrow> [] | Some rs \<Rightarrow> rs);
              dir = to_str (js_or directionForRouteLinks (JStr (lit ''OUTBOUND'')));
              routesHtml = js_join (lit ''<br>'') (map (route_link_html dir) routes)
          in Inr
            (lit ''<div class="map-popup-inner">''
              @ lit ''<h4 class="map-popup-title"><a href="/realtime/stop/''
              @ escapeHtml (ds_id stop) @ lit ''">'' @ escapeHtml (JStr title) @ lit ''</a></h4>''
              @ street_html (sd_street_view_url detail)
              @ features_html (sd_stop_features detail)
              @ lit ''<p class="map-popup-block map-popup-routes-head"><strong>''
              @ nat_str (length routes) @ lit '' Routes</strong></p>''
              @ lit ''<p class="map-popup-routes">'' @ routesHtml @ lit ''</p>''
              @ lit ''</div>''))\<close>

record map_stop_ref =
  ms_stop_id :: jsval
  ms_code :: jsval
  ms_name :: jsval

definition popup_head :: "map_stop_ref \<Rightarrow> jstring" where
  \<open>popup_head stop =
     lit ''<div class="map-popup-inner">''
       @ lit ''<h4 class="map-popup-title"><a href="/realtime/stop/''
       @ escapeHtml (ms_stop_id stop) @ lit ''">''
       @ escapeHtml (JStr (stop_title (ms_code stop) (ms_name stop))) @ lit ''</a></h4>''\<close>

definition buildLoadingPopupHtml :: "map_stop_ref \<Rightarrow> jstring" where
  \<open>buildLoadingPopupHtml stop =
     popup_head stop @ lit ''<p class="map-popup-muted">Loading routes'' @ [0x2026] @ lit ''</p>''
       @ lit ''</div>''\<close>

definition buildErrorPopupHtml :: "map_stop_ref \<Rightarrow> jstring" where
  \<open>buildErrorPopupHtml stop =
     popup_head stop @ lit ''<p class="map-popup-muted">Could not load stop details.</p>''
       @ lit ''</div>''\<close>

definition buildStopTooltipHtml :: "map_stop_ref \<Rightarrow> jstring" where
  \<open>buildStopTooltipHtml stop =
     lit ''<div class="map-stop-tooltip-inner">''
       @ escapeHtml (JStr (stop_title (ms_code stop) (ms_name stop))) @ lit ''</div>''\<close>

section \<open>Vehicle popup\<close>

definition formatRelativeFromIso :: "date_env \<Rightarrow> jsval \<Rightarrow> jstring" where
  "formatRelativeFromIso env isoTime =
     (if \<not> truthy isoTime then []
      else case date_value env isoTime of
             None \<Rightarrow> []
           | Some t \<Rightarrow>
               let mins = (now env - t) div 60000 in
               if mins < 1 then lit ''Less than a minute ago''
               else if mins = 1 then lit ''1 min ago''
               else int_str mins @ lit '' mins ago'')"

record vehicle_props =
  vp_route_short_name :: jsval
  vp_route_id :: jsval
  vp_agency_name :: jsval
  vp_map_direction :: jsval
  vp_time_of_update :: jsval

definition vehicle_title :: "vehicle_props \<Rightarrow> jstring" where
  "vehicle_title props =
     (let routeLabel = js_or (js_or (vp_route_short_name props) (vp_route_id props)) (JStr []);
          agency = js_or (vp_agency_name props) (JStr []);
          joined = js_join (lit '' - '') (map to_str (filter truthy [routeLabel, agency]))
      in to_str (js_or (JStr joined) (JStr (lit ''Vehicle''))))"

definition vehicle_href :: "vehicle_props \<Rightarrow> jstring option" where
  "vehicle_href props =
     (let dir = (if vp_map_direction props \<noteq> JUndef \<and> vp_map_direction props \<noteq> JNull
                 then to_str (vp_map_direction props) else lit ''OUTBOUND'')
      in case encodeURIComponent (to_str (vp_route_id props)) of
           None \<Rightarrow> None
         | Some rid \<Rightarrow>
             map_option (\<lambda>d. lit ''/realtime/route/'' @ rid @ lit ''/'' @ d)
               (encodeURIComponent dir))"

definition last_updated_html :: "date_env \<Rightarrow> jsval \<Rightarrow> jstring" where
  \<open>last_updated_html env isoTime =
     (if truthy isoTime
      then let local = (case date_value env isoTime of
                          Some t \<Rightarrow> JStr (date_local env t) | None \<Rightarrow> isoTime);
               rel = formatRelativeFromIso env isoTime
           in lit ''<p class="map-popup-block map-popup-muted">Last updated: ''
                @ escapeHtml local @ lit ''<br>'' @ escapeHtml (JStr rel) @ lit ''</p>''
      else [])\<close>

definition buildVehiclePopupHtml :: "date_env \<Rightarrow> vehicle_props \<Rightarrow> exn + jstring" where
  \<open>buildVehiclePopupHtml env props =
     (case vehicle_href props of
        None \<Rightarrow> Inl URIError
      | Some routeHref \<Rightarrow>
          let titleText = vehicle_title props;
              titleInner =
                (if \<not> nullish (vp_route_id props) \<and> vp_route_id props \<noteq> JStr []
                 then lit ''<a class="map-popup-link map-popup-vehicle-head-link" href="''
                        @ routeHref @ lit ''">'' @ escapeHtml (JStr titleText) @ lit ''</a>''
                 else escapeHtml (JStr titleText));
              isoTime = js_or (vp_time_of_update props) (JStr [])
          in Inr
            (lit ''<div class="map-popup-inner map-popup-inner--vehicle">''
              @ lit ''<h4 class="map-popup-vehicle-head">'' @ titleInner @ lit ''</h4>''
              @ last_updated_html env isoTime
              @ lit ''</div>''))\<close>


section \<open>What the markup denotes\<close>

text \<open>The text of a field: \<open>null\<close> and \<open>undefined\<close> are empty, as in \<open>escapeHtml\<close>.\<close>

definition field_text :: "jsval \<Rightarrow> jstring" where
  "field_text v = (if nullish v then [] else to_str v)"

lemma field_text_JStr [simp]: "field_text (JStr s) = s"
  by (simp add: field_text_def)

lemma replace_all_concat:
  "replace_all c r (concat (map f s)) = concat (map (\<lambda>u. replace_all c r (f u)) s)"
  by (induction s) auto

lemma escapeHtml_esc: "escapeHtml v = esc (field_text v)"
proof (cases "nullish v")
  case True
  then show ?thesis by (auto simp: escapeHtml_def field_text_def nullish_def)
next
  case False
  have chain: "replace_all 34 (lit ''&quot;'') (replace_all 62 (lit ''&gt;'')
      (replace_all 60 (lit ''&lt;'') (replace_all 38 (lit ''&amp;'') s))) = esc s" for s
    by (induction s) (simp_all add: esc_Cons esc_unit_def lit_def)
  from False show ?thesis
    by (simp add: escapeHtml_def field_text_def nullish_def chain)
qed

lemma escapeHtml_JStr: "escapeHtml (JStr s) = esc s"
  by (simp add: escapeHtml_esc field_text_def)

text \<open>Start tags with their attributes, in source order.\<close>

abbreviation elem :: "string \<Rightarrow> (string \<times> jstring) list \<Rightarrow> tag" where
  "elem n as \<equiv> Open (lit n) (map (\<lambda>(a, v). (lit a, v)) as)"

abbreviation endtag :: "string \<Rightarrow> tag" where
  "endtag n \<equiv> Close (lit n)"

definition head_items :: "jsval \<Rightarrow> jstring \<Rightarrow> (tag \<times> jstring) list" where
  "head_items sid title =
     [(elem ''div'' [(''class'', lit ''map-popup-inner'')], []),
      (elem ''h4'' [(''class'', lit ''map-popup-title'')], []),
      (elem ''a'' [(''href'', lit ''/realtime/stop/'' @ field_text sid)], title),
      (endtag ''a'', []), (endtag ''h4'', [])]"

definition muted_items :: "jstring \<Rightarrow> (tag \<times> jstring) list" where
  "muted_items t =
     [(elem ''p'' [(''class'', lit ''map-popup-muted'')], t), (endtag ''p'', []), (endtag ''div'', [])]"

definition route_items :: "jstring \<Rightarrow> route_summary \<Rightarrow> (tag \<times> jstring) list" where
  "route_items dir r =
     [(elem ''a'' [(''href'',
         lit ''/realtime/route/'' @ field_text (rs_route_id r) @ lit ''/'' @ dir)],
       field_text (rs_short_name r)),
      (endtag ''a'', lit '' '' @ [0x2014] @ lit '' '' @ field_text (rs_long_name r))]"

fun routes_items :: "jstring \<Rightarrow> route_summary list \<Rightarrow> (tag \<times> jstring) list" where
  "routes_items dir [] = []"
| "routes_items dir [r] = route_items dir r"
| "routes_items dir (r # q # rs) =
     route_items dir r @ (elem ''br'' [], []) # routes_items dir (q # rs)"

definition features_items :: "stop_features option \<Rightarrow> (tag \<times> jstring) list" where
  "features_items f =
     (case f of
        None \<Rightarrow> []
      | Some sf \<Rightarrow>
          [(elem ''p'' [(''class'', lit ''map-popup-block map-popup-muted'')],
            lit ''Wheelchair accessible: '' @ featureBoolToEmoji (sf_wheelchair_accessible sf)),
           (elem ''br'' [], lit ''Bus shelter: '' @ featureBoolToEmoji (sf_shelter_active sf)),
           (elem ''br'' [], lit ''Realtime display: '' @ featureBoolToEmoji (sf_rtpi_active sf)),
           (endtag ''p'', [])])"

definition street_items :: "jsval \<Rightarrow> (tag \<times> jstring) list" where
  "street_items url =
     (if truthy url
      then [(elem ''p'' [(''class'', lit ''map-popup-block'')], []),
            (elem ''a'' [(''class'', lit ''map-popup-link''), (''href'', to_str url),
               (''target'', lit ''_blank''), (''rel'', lit ''noopener noreferrer'')],
             lit ''Street view''),
            (endtag ''a'', []), (endtag ''p'', [])]
      else [])"

definition detailed_fragment :: "detailed_stop \<Rightarrow> stop_detailed \<Rightarrow> jstring \<Rightarrow> fragment" where
  "detailed_fragment stop detail dir =
     (let routes = (case sd_routes detail of None \<Rightarrow> [] | Some rs \<Rightarrow> rs) in
      ([], head_items (ds_id stop) (stop_title (ds_code stop) (ds_name stop))
           @ street_items (sd_street_view_url detail)
           @ features_items (sd_stop_features detail)
           @ [(elem ''p'' [(''class'', lit ''map-popup-block map-popup-routes-head'')], []),
              (elem ''strong'' [], nat_str (length routes) @ lit '' Routes''),
              (endtag ''strong'', []), (endtag ''p'', []),
              (elem ''p'' [(''class'', lit ''map-popup-routes'')], [])]
           @ routes_items dir routes
           @ [(endtag ''p'', []), (endtag ''div'', [])]))"

definition loading_fragment :: "map_stop_ref \<Rightarrow> fragment" where
  "loading_fragment stop =
     ([], head_items (ms_stop_id stop) (stop_title (ms_code stop) (ms_name stop))
          @ muted_items (lit ''Loading routes'' @ [0x2026]))"

definition error_fragment :: "map_stop_ref \<Rightarrow> fragment" where
  "error_fragment stop =
     ([], head_items (ms_stop_id stop) (stop_title (ms_code stop) (ms_name stop))
          @ muted_items (lit ''Could not load stop details.''))"

definition tooltip_fragment :: "map_stop_ref \<Rightarrow> fragment" where
  "tooltip_fragment stop =
     ([], [(elem ''div'' [(''class'', lit ''map-stop-tooltip-inner'')],
            stop_title (ms_code stop) (ms_name stop)), (endtag ''div'', [])])"

definition vehicle_fragment :: "date_env \<Rightarrow> vehicle_props \<Rightarrow> jstring \<Rightarrow> fragment" where
  "vehicle_fragment env props href =
     ([], [(elem ''div'' [(''class'', lit ''map-popup-inner map-popup-inner--vehicle'')], [])]
          @ (if field_text (vp_route_id props) \<noteq> []
             then [(elem ''h4'' [(''class'', lit ''map-popup-vehicle-head'')], []),
                   (elem ''a'' [(''class'', lit ''map-popup-link map-popup-vehicle-head-link''),
                      (''href'', href)], vehicle_title props),
                   (endtag ''a'', [])]
             else [(elem ''h4'' [(''class'', lit ''map-popup-vehicle-head'')], vehicle_title props)])
          @ [(endtag ''h4'', [])]
          @ (if truthy (vp_time_of_update props)
             then [(elem ''p'' [(''class'', lit ''map-popup-block map-popup-muted'')],
                    lit ''Last updated: '' @
                      (case date_value env (vp_time_of_update props) of
                         Some t \<Rightarrow> date_local env t | None \<Rightarrow> to_str (vp_time_of_update props))),
                   (elem ''br'' [], formatRelativeFromIso env (vp_time_of_update props)),
                   (endtag ''p'', [])]
             else [])
          @ [(endtag ''div'', [])])"

section \<open>The builders render their fragments\<close>

text \<open>Evaluating literals on both sides.\<close>

lemmas markup_eval = lit_def esc_Cons esc_unit_def escapeHtml_esc

lemma popup_head_render:
  "popup_head stop = render_items
     (head_items (ms_stop_id stop) (stop_title (ms_code stop) (ms_name stop)))"
  by (simp add: popup_head_def head_items_def markup_eval field_text_def)

lemma digit_plain: "d < 10 \<Longrightarrow> 48 + of_nat d \<notin> {34, 38, 60, 62 :: 16 word}"
proof -
  assume "d < 10"
  then have "d \<in> set [0..<10]" by simp
  moreover have "list_all (\<lambda>d. 48 + of_nat d \<notin> {34, 38, 60, 62 :: 16 word}) [0..<10]"
    by code_simp
  ultimately show ?thesis by (simp only: list_all_iff) blast
qed

lemma nat_str_plain: "plain (nat_str n)"
proof (induction n rule: nat_str.induct)
  case (1 n)
  then show ?case
    using digit_plain [of n] digit_plain [of "n mod 10"]
    by (subst nat_str.simps) (simp add: plain_def)
qed

lemma emoji_plain: "plain (featureBoolToEmoji v)"
  by (simp add: featureBoolToEmoji_def plain_def)

lemmas esc_ids = esc_plain [OF nat_str_plain] esc_plain [OF emoji_plain]

lemma loading_render: "buildLoadingPopupHtml stop = render (loading_fragment stop)"
  by (simp add: buildLoadingPopupHtml_def loading_fragment_def render_def popup_head_render
      muted_items_def markup_eval)

lemma error_render: "buildErrorPopupHtml stop = render (error_fragment stop)"
  by (simp add: buildErrorPopupHtml_def error_fragment_def render_def popup_head_render
      muted_items_def markup_eval)

lemma tooltip_render: "buildStopTooltipHtml stop = render (tooltip_fragment stop)"
  by (simp add: buildStopTooltipHtml_def tooltip_fragment_def render_def markup_eval field_text_def)

lemma route_render:
  "plain dir \<Longrightarrow> route_link_html dir r = render_items (route_items dir r)"
  by (simp add: route_link_html_def route_items_def markup_eval esc_plain)

lemma routes_render:
  "plain dir \<Longrightarrow>
   js_join (lit ''<br>'') (map (route_link_html dir) rs) = render_items (routes_items dir rs)"
  by (induction dir rs rule: routes_items.induct)
    (simp_all add: route_render lit_def)

lemmas routes_render_eval = routes_render [unfolded lit_def list.map, simplified]

lemma features_render: "features_html f = render_items (features_items f)"
  by (simp add: features_html_def features_items_def markup_eval esc_ids split: option.splits)

lemma street_render: "street_html url = render_items (street_items url)"
  by (cases url) (simp_all add: street_html_def street_items_def js_or_def Let_def markup_eval
      field_text_def)

lemma detailed_render:
  assumes "sd_stop detail = Some stop"
    and "dir = to_str (js_or d (JStr (lit ''OUTBOUND'')))" and "plain dir"
  shows "buildPopupHtmlFromDetailed detail d = Inr (render (detailed_fragment stop detail dir))"
  using assms
  by (simp add: buildPopupHtmlFromDetailed_def detailed_fragment_def Let_def render_def
      routes_render_eval features_render street_render head_items_def markup_eval esc_ids
      field_text_def)

lemma vehicle_href_plain: "vehicle_href props = Some h \<Longrightarrow> plain h"
  by (auto simp: vehicle_href_def Let_def plain_def lit_def list_all_iff split: option.splits
      dest!: encode_units component_unit_not_special)

lemma last_updated_render:
  "last_updated_html env isoTime =
     (if truthy isoTime
      then render_items
        [(elem ''p'' [(''class'', lit ''map-popup-block map-popup-muted'')],
           lit ''Last updated: '' @
             (case date_value env isoTime of Some t \<Rightarrow> date_local env t | None \<Rightarrow> to_str isoTime)),
         (elem ''br'' [], formatRelativeFromIso env isoTime), (endtag ''p'', [])]
      else [])"
  by (auto simp: last_updated_html_def Let_def markup_eval field_text_def truthy_not_nullish
      split: option.splits)

lemma vehicle_render:
  assumes "vehicle_href props = Some h"
  shows "buildVehiclePopupHtml env props = Inr (render (vehicle_fragment env props h))"
proof -
  have link: "\<not> nullish (vp_route_id props) \<and> vp_route_id props \<noteq> JStr [] \<longleftrightarrow>
      field_text (vp_route_id props) \<noteq> []"
    by (simp add: field_text_def to_str_empty)
  have plain: "esc h = h"
    using assms by (simp add: vehicle_href_plain esc_plain)
  show ?thesis
    unfolding buildVehiclePopupHtml_def Let_def link assms option.case last_updated_render
    by (auto simp: vehicle_fragment_def render_def plain markup_eval js_or_def split: option.splits)
qed

section \<open>Well-formedness, and what the browser reads\<close>

lemma routes_wf: "wf_fragment ([], routes_items dir rs)"
  by (induction dir rs rule: routes_items.induct)
    (simp_all add: wf_fragment_def route_items_def html_name_def lit_def)

lemma detailed_wf: "wf_fragment (detailed_fragment stop detail dir)"
  using routes_wf [of dir]
  by (auto simp: wf_fragment_def detailed_fragment_def Let_def head_items_def street_items_def
      features_items_def html_name_def lit_def split: option.splits)

lemma loading_wf: "wf_fragment (loading_fragment stop)"
  by (simp add: wf_fragment_def loading_fragment_def head_items_def muted_items_def html_name_def
      lit_def)

lemma error_wf: "wf_fragment (error_fragment stop)"
  by (simp add: wf_fragment_def error_fragment_def head_items_def muted_items_def html_name_def
      lit_def)

lemma tooltip_wf: "wf_fragment (tooltip_fragment stop)"
  by (simp add: wf_fragment_def tooltip_fragment_def html_name_def lit_def)

lemma vehicle_wf: "wf_fragment (vehicle_fragment env props h)"
  by (simp add: wf_fragment_def vehicle_fragment_def html_name_def lit_def)

section \<open>Dates\<close>

text \<open>
  The server's own label, \<open>RTVehicleModel.mins_ago_updated\<close>: Python's \<open>timedelta.seconds\<close> is the
  seconds part of a difference kept in days, seconds and microseconds.
\<close>

definition timedelta_seconds :: "int \<Rightarrow> int" where
  "timedelta_seconds us = (us div 1000000) mod 86400"

definition mins_ago_updated :: "int \<Rightarrow> int \<Rightarrow> jstring" where
  "mins_ago_updated now_us update_us =
     (let mins = timedelta_seconds (now_us - update_us) div 60 in
      if mins = 0 then lit ''Less than a minute ago''
      else if mins = 1 then lit ''1 min ago''
      else int_str mins @ lit '' mins ago'')"

lemma minutes_of_micros: "(ms * 1000) div 1000000 div 60 = ms div (60000 :: int)"
proof -
  have "(ms * 1000) div 1000000 div 60 = (ms * 1000) div (1000 * 60000)"
    by (subst zdiv_zmult2_eq [symmetric]) simp_all
  also have "\<dots> = ms div 60000" using div_mult_mult2 [of "1000 :: int" ms 60000] by (simp add: mult.commute)
  finally show ?thesis .
qed

lemma mins_ago_eq:
  assumes "0 \<le> now_ms - t" and "now_ms - t < 86400000"
  shows "timedelta_seconds (now_ms * 1000 - t * 1000) div 60 = (now_ms - t) div 60000"
proof -
  have "(now_ms * 1000 - t * 1000) div 1000000 < 86400" and "0 \<le> (now_ms * 1000 - t * 1000) div 1000000"
    using assms by linarith+
  then have "timedelta_seconds (now_ms * 1000 - t * 1000) = ((now_ms - t) * 1000) div 1000000"
    by (simp add: timedelta_seconds_def left_diff_distrib)
  then show ?thesis by (simp only: minutes_of_micros)
qed

section \<open>Properties\<close>

text \<open>
  C1: For every stop detail, as long as the direction segment has no markup character, the popup is the
  intended document: a browser that tokenizes the HTML reads exactly the tags, attribute values
  and texts of \<open>detailed_fragment\<close>, with every other field of the JSON inside its own text or attribute.
  The direction, which is a field of the map's JSON too, is the one value that the code does not escape:
  \<open>direction_injects\<close> shows what it can do.
\<close>

theorem detailed_popup_markup:
  assumes "sd_stop detail = Some stop"
    and "plain (to_str (js_or direction (JStr (lit ''OUTBOUND''))))"
  shows "\<exists>html. buildPopupHtmlFromDetailed detail direction = Inr html
     \<and> tokenize html
         = Some (tokens_of (detailed_fragment stop detail (to_str (js_or direction (JStr (lit ''OUTBOUND''))))))"
  using detailed_render [OF assms(1) refl assms(2)] tokenize_render [OF detailed_wf] by simp

definition stop_w :: detailed_stop where
  "stop_w = \<lparr>ds_id = JStr (lit ''8220DB000002''), ds_code = JStr (lit ''2''),
     ds_name = JStr (lit ''<Parnell & Sq>'')\<rparr>"

definition detail_w :: stop_detailed where
  "detail_w = \<lparr>sd_stop = Some stop_w,
     sd_routes = Some [\<lparr>rs_route_id = JStr (lit ''7''), rs_short_name = JStr (lit ''46A''),
        rs_long_name = JNull\<rparr>],
     sd_stop_features = None, sd_street_view_url = JStr []\<rparr>"

lemma detailed_popup_markup_witness:
  "\<exists>html. buildPopupHtmlFromDetailed detail_w (JStr (lit ''INBOUND'')) = Inr html
     \<and> tokenize html = Some (tokens_of (detailed_fragment stop_w detail_w (lit ''INBOUND'')))"
  using detailed_popup_markup [of detail_w stop_w "JStr (lit ''INBOUND'')"]
  by (simp add: detail_w_def js_or_def plain_def lit_def)

text \<open>
  The condition on the direction is needed: it goes into the link as it is, so one with a quotation mark
  ends the attribute and brings its own tags.
\<close>

lemma direction_injects:
  "tokenize (route_link_html (34 # lit ''><img>'') \<lparr>rs_route_id = JNull, rs_short_name = JNull, rs_long_name = JNull\<rparr>)
    = Some [Text [], Tag (Open (lit ''a'') [(lit ''href'', lit ''/realtime/route//'')]), Text [], Tag (Open (lit ''img'') []),
        Text (34 # lit ''>''), Tag (Close (lit ''a'')), Text (lit '' '' @ [0x2014] @ lit '' '')]"
  by code_simp

text \<open>
  C15: The vehicle popup either throws \<open>URIError\<close>, exactly when the route id or direction cannot be
  percent-encoded, or is the intended document \<open>vehicle_fragment\<close> after tokenizing.
\<close>

theorem vehicle_popup_markup:
  "(case buildVehiclePopupHtml env props of
      Inl e \<Rightarrow> e = URIError \<and> vehicle_href props = None
    | Inr html \<Rightarrow> (\<exists>h. vehicle_href props = Some h
        \<and> tokenize html = Some (tokens_of (vehicle_fragment env props h))))"
proof (cases "vehicle_href props")
  case None
  then show ?thesis by (simp add: buildVehiclePopupHtml_def)
next
  case (Some h)
  then show ?thesis by (simp add: vehicle_render tokenize_render vehicle_wf)
qed

text \<open>
  The loading popup, the error popup and the hover tooltip tokenize to their intended
  documents, whatever the stop's id, code and name contain.
\<close>

theorem stop_popup_markup:
  "tokenize (buildLoadingPopupHtml stop) = Some (tokens_of (loading_fragment stop))
   \<and> tokenize (buildErrorPopupHtml stop) = Some (tokens_of (error_fragment stop))
   \<and> tokenize (buildStopTooltipHtml stop) = Some (tokens_of (tooltip_fragment stop))"
  by (simp only: loading_render error_render tooltip_render tokenize_render loading_wf error_wf
      tooltip_wf simp_thms)

text \<open>
  \<open>escapeHtml\<close> loses nothing and lets no markup through: reading the entities back gives the
  text of the value, and the result holds no angle bracket or double quote.
\<close>

theorem escapeHtml_roundtrip:
  "unescape (escapeHtml v) = field_text v \<and> set (escapeHtml v) \<inter> {34, 60, 62} = {}"
  by (simp only: escapeHtml_esc unescape_esc esc_no_markup simp_thms)

text \<open>
  The request for a stop's details addresses that stop: the path segment decodes to the id
  and holds no slash, question mark or hash sign that would end it.
\<close>

theorem stop_detailed_url_segment:
  assumes "stop_detailed_url sid = Some url"
  shows "\<exists>seg. url = lit ''/api/v1/stop/'' @ seg @ lit ''/detailed''
     \<and> decodeURIComponent seg = Some (to_str sid) \<and> set seg \<inter> {35, 47, 63} = {}"
proof -
  from assms obtain seg where e: "encodeURIComponent (to_str sid) = Some seg"
    and "url = lit ''/api/v1/stop/'' @ seg @ lit ''/detailed''"
    by (auto simp: stop_detailed_url_def)
  moreover have "set seg \<inter> {35, 47, 63} = {}"
    using encode_no_special [OF e] by auto
  ultimately show ?thesis using decode_encode [OF e] by blast
qed

lemma stop_detailed_url_segment_witness:
  "\<exists>url seg. stop_detailed_url (JStr (lit ''8220DB/2'')) = Some url
     \<and> url = lit ''/api/v1/stop/'' @ seg @ lit ''/detailed''
     \<and> decodeURIComponent seg = Some (lit ''8220DB/2'') \<and> set seg \<inter> {35, 47, 63} = {}"
proof -
  have "well_formed (lit ''8220DB/2'')"
    by (simp add: lit_def lead_surrogate_def trail_surrogate_def)
  then obtain url where u: "stop_detailed_url (JStr (lit ''8220DB/2'')) = Some url"
    using encode_defined [of "lit ''8220DB/2''"] by (auto simp: stop_detailed_url_def)
  from stop_detailed_url_segment [OF u] u show ?thesis by (auto simp only: to_str.simps)
qed

text \<open>
  C40: The relative label agrees with the server's \<open>mins_ago_updated\<close> for every update of the last
  24 hours, with the clocks in milliseconds.
\<close>

theorem relative_label_matches_server:
  assumes "truthy v" and "date_value env v = Some t"
    and "0 \<le> now env - t" and "now env - t < 86400000"
  shows "formatRelativeFromIso env v = mins_ago_updated (now env * 1000) (t * 1000)"
proof -
  have "0 \<le> (now env - t) div 60000" using assms(3) by (simp add: pos_imp_zdiv_nonneg_iff)
  then show ?thesis
    using assms mins_ago_eq [of "now env" t]
    by (auto simp: formatRelativeFromIso_def mins_ago_updated_def Let_def)
qed

definition clock_w :: date_env where
  "clock_w = \<lparr>now = 1000000, date_value = (\<lambda>v. Some 700000), date_local = (\<lambda>t. [])\<rparr>"

lemma relative_label_matches_server_witness:
  "formatRelativeFromIso clock_w (JStr (lit ''t'')) = mins_ago_updated 1000000000 700000000"
  using relative_label_matches_server [of "JStr (lit ''t'')" clock_w 700000]
  by (simp add: clock_w_def lit_def)

text \<open>
  Outside that range the two labels part, although the comment says that the client mirrors
  the server: for an update of exactly \<open>d\<close> days ago the client counts all minutes and the server,
  which drops the days, says that it was just now.
\<close>

theorem relative_label_days_differ:
  assumes "truthy v" and "date_value env v = Some t" and "0 < d" and "now env - t = d * 86400000"
  shows "formatRelativeFromIso env v = int_str (d * 1440) @ lit '' mins ago''
     \<and> mins_ago_updated (now env * 1000) (t * 1000) = lit ''Less than a minute ago''"
proof -
  have "(now env - t) div 60000 = d * 1440" unfolding assms(4) by simp
  moreover have "timedelta_seconds (now env * 1000 - t * 1000) = 0"
  proof -
    have "now env * 1000 - t * 1000 = d * 86400 * 1000000" using assms(4) by linarith
    then show ?thesis by (simp add: timedelta_seconds_def)
  qed
  ultimately show ?thesis
    using assms by (simp add: formatRelativeFromIso_def mins_ago_updated_def Let_def mult.commute)
qed

lemma relative_label_days_differ_witness:
  "formatRelativeFromIso (clock_w\<lparr>now := 700000 + 86400000\<rparr>) (JStr (lit ''t'')) = int_str 1440 @ lit '' mins ago''"
  using relative_label_days_differ [of "JStr (lit ''t'')" "clock_w\<lparr>now := 700000 + 86400000\<rparr>" 700000 1]
  by (simp add: clock_w_def lit_def)

end
