(* ===== verification/Map_Payload.thy ===== *)
theory Map_Payload
  imports Map_Shared Stop_Detail_Popup
begin

text \<open>
  The JSON payloads of \<open>/api/v1/map/...\<close> that the pages draw, and the GeoJSON features that all
  pages build from them.  Scalars are \<open>jsval\<close>s, coordinates are numbers, a null line is \<open>None\<close>.
\<close>

section \<open>Payloads\<close>

record map_stop = map_stop_ref +
  ms_lon :: real
  ms_lat :: real
  ms_is_focus :: jsval

record map_route =
  mr_route_id :: jsval
  mr_short_name :: jsval
  mr_color :: jsval
  mr_line :: "(real \<times> real) list option"

record map_vehicle =
  mv_vehicle_id :: jsval
  mv_trip_id :: jsval
  mv_route_id :: jsval
  mv_color :: jsval
  mv_route_short_name :: jsval
  mv_agency_name :: jsval
  mv_time_of_update :: jsval
  mv_lon :: real
  mv_lat :: real

section \<open>Features\<close>

text \<open>\<open>s.code != null && s.code !== "" ? s.code : s.stop_id\<close>\<close>

definition stop_code :: "map_stop \<Rightarrow> jsval" where
  "stop_code s = (if \<not> nullish (ms_code s) \<and> ms_code s \<noteq> JStr [] then ms_code s else ms_stop_id s)"

definition point_feature :: "(string \<times> jsval) list \<Rightarrow> (string \<times> real) list \<Rightarrow> real \<Rightarrow> real \<Rightarrow> feature" where
  "point_feature ps ns lon lat = \<lparr>f_geometry = Some (Point lon lat), f_props = ps, f_nums = ns\<rparr>"

definition vehicle_feature :: "date_env \<Rightarrow> jsval \<Rightarrow> real \<Rightarrow> map_vehicle \<Rightarrow> feature" where
  "vehicle_feature env direction heading v =
     point_feature
       [(''route_id'', mv_route_id v), (''color'', mv_color v), (''vehicle_id'', mv_vehicle_id v),
        (''trip_id'', mv_trip_id v), (''route_short_name'', mv_route_short_name v),
        (''agency_name'', mv_agency_name v), (''time_of_update'', mv_time_of_update v),
        (''pulse_active'', JBool (vehiclePulseIsActive env (mv_time_of_update v))),
        (''map_direction'', direction)]
       [(''heading_deg'', heading)] (mv_lon v) (mv_lat v)"

text \<open>The feature of a route line: \<open>geometry: route.line\<close>.\<close>

definition line_feature :: "map_route \<Rightarrow> feature" where
  "line_feature r = \<lparr>f_geometry = map_option LineString (mr_line r), f_props = [], f_nums = []\<rparr>"

section \<open>Layers that several pages share\<close>

definition line_layer :: "jstring \<Rightarrow> jstring \<Rightarrow> jsval \<Rightarrow> real \<Rightarrow> real \<Rightarrow> layer" where
  "line_layer lid srcId color width opacity =
     \<lparr>l_id = lid, l_type = ''line'', l_source = srcId, l_minzoom = None, l_filter = None,
      l_layout = [(''visibility'', PStr (lit ''visible'')), (''line-join'', PStr (lit ''round'')),
                  (''line-cap'', PStr (lit ''round''))],
      l_paint = [(''line-color'', PExpr (Lit color)), (''line-width'', PNum width),
                 (''line-opacity'', PNum opacity)]\<rparr>"

definition circle_layer :: "jstring \<Rightarrow> expr option \<Rightarrow> real \<Rightarrow> string \<Rightarrow> real \<Rightarrow> string \<Rightarrow> layer" where
  "circle_layer lid filt radius color strokeWidth strokeColor =
     \<lparr>l_id = lid, l_type = ''circle'', l_source = lit ''stops-src'', l_minzoom = None,
      l_filter = filt, l_layout = [],
      l_paint = [(''circle-radius'', PNum radius), (''circle-color'', PStr (lit color)),
                 (''circle-stroke-width'', PNum strokeWidth),
                 (''circle-stroke-color'', PStr (lit strokeColor))]\<rparr>"

definition stop_label_layer :: "jstring \<Rightarrow> expr option \<Rightarrow> layer" where
  "stop_label_layer lid filt =
     \<lparr>l_id = lid, l_type = ''symbol'', l_source = lit ''stops-src'',
      l_minzoom = Some STOP_LABEL_MIN_ZOOM, l_filter = filt,
      l_layout = [(''text-field'', PExpr (ToString (Get ''stop_code''))), (''text-size'', PNum 11),
                  (''text-offset'', PNums STOP_LABEL_TEXT_OFFSET), (''text-anchor'', PStr (lit ''top'')),
                  (''text-allow-overlap'', PBool True), (''text-font'', PStrs LABEL_FONT)],
      l_paint = MAP_LABEL_BADGE_PAINT\<rparr>"

definition of_route :: "jsval \<Rightarrow> expr" where
  "of_route rid = EqE (Get ''route_id'') (Lit rid)"

definition pulse_active_of :: "jsval \<Rightarrow> expr" where
  "pulse_active_of rid = AllE [of_route rid, EqE (Get ''pulse_active'') (Lit (JBool True))]"

definition vehicle_pulse_layer :: "jstring \<Rightarrow> jsval \<Rightarrow> layer" where
  "vehicle_pulse_layer lid rid =
     \<lparr>l_id = lid, l_type = ''circle'', l_source = lit ''vehicles-src'', l_minzoom = None,
      l_filter = Some (pulse_active_of rid), l_layout = [],
      l_paint = [(''circle-radius'', PNum 11), (''circle-color'', PExpr (Get ''color'')),
                 (''circle-opacity'', PNum 0.28), (''circle-blur'', PNum 0.42)]\<rparr>"

definition vehicle_layer :: "jstring \<Rightarrow> jstring \<Rightarrow> jsval \<Rightarrow> layer" where
  "vehicle_layer lid iconId rid =
     \<lparr>l_id = lid, l_type = ''symbol'', l_source = lit ''vehicles-src'', l_minzoom = None,
      l_filter = Some (of_route rid),
      l_layout = [(''icon-image'', PStr iconId), (''icon-size'', PNum VEHICLE_MAIN_ICON_SIZE),
                  (''icon-allow-overlap'', PBool True), (''icon-ignore-placement'', PBool True),
                  (''icon-rotation-alignment'', PStr (lit ''map'')),
                  (''icon-rotate'', PExpr (Get ''heading_deg''))],
      l_paint = [(''icon-opacity'', PNum 1)]\<rparr>"

definition vehicle_label_layer :: "jstring \<Rightarrow> jsval \<Rightarrow> layer" where
  "vehicle_label_layer lid rid =
     \<lparr>l_id = lid, l_type = ''symbol'', l_source = lit ''vehicles-src'', l_minzoom = None,
      l_filter = Some (of_route rid),
      l_layout = [(''text-rotation-alignment'', PStr (lit ''viewport'')),
                  (''text-field'', PExpr (ToString (Coalesce
                      [Get ''route_short_name'', Get ''route_id'', Lit (JStr [])]))),
                  (''text-size'', PNum 11), (''text-offset'', PNums VEHICLE_INLINE_LABEL_OFFSET),
                  (''text-anchor'', PStr (lit ''center'')), (''text-allow-overlap'', PBool True),
                  (''text-ignore-placement'', PBool True), (''text-font'', PStrs LABEL_FONT)],
      l_paint = VEHICLE_INLINE_LABEL_PAINT\<rparr>"

lemma layer_fields [simp]:
  "l_id (line_layer lid srcId color width opacity) = lid"
  "l_id (circle_layer lid filt radius c1 sw c2) = lid"
  "l_id (stop_label_layer lid filt) = lid"
  "l_id (vehicle_pulse_layer lid rid) = lid"
  "l_id (vehicle_layer lid iconId rid) = lid"
  "l_id (vehicle_label_layer lid rid) = lid"
  by (simp_all add: line_layer_def circle_layer_def stop_label_layer_def vehicle_pulse_layer_def
      vehicle_layer_def vehicle_label_layer_def)

lemma layer_visible_fresh [simp]:
  "layer_visible (line_layer lid srcId color width opacity)"
  "layer_visible (circle_layer lid filt radius c1 sw c2)"
  "layer_visible (stop_label_layer lid filt)"
  "layer_visible (vehicle_pulse_layer lid rid)"
  "layer_visible (vehicle_layer lid iconId rid)"
  "layer_visible (vehicle_label_layer lid rid)"
  by (simp_all add: layer_visible_def line_layer_def circle_layer_def stop_label_layer_def
      vehicle_pulse_layer_def vehicle_layer_def vehicle_label_layer_def lit_def)

section \<open>What the filters select\<close>

lemma get_vehicle_route:
  "get_prop (vehicle_feature env d h v) ''route_id'' =
     (if mv_route_id v = JUndef then JNull else mv_route_id v)"
  by (simp add: get_prop_def vehicle_feature_def point_feature_def)

lemma vehicle_drawn:
  assumes "mv_route_id v \<noteq> JUndef" and "rid \<noteq> JUndef"
  shows "draws (vehicle_layer lid iconId rid) (vehicle_feature env d h v) \<longleftrightarrow> mv_route_id v = rid"
    and "draws (vehicle_label_layer lid rid) (vehicle_feature env d h v) \<longleftrightarrow> mv_route_id v = rid"
    and "draws (vehicle_pulse_layer lid rid) (vehicle_feature env d h v) \<longleftrightarrow>
       mv_route_id v = rid \<and> vehiclePulseIsActive env (mv_time_of_update v)"
proof -
  have "get_prop (vehicle_feature env d h v) ''pulse_active''
      = JBool (vehiclePulseIsActive env (mv_time_of_update v))"
    by (simp add: get_prop_def vehicle_feature_def point_feature_def)
  then show "draws (vehicle_layer lid iconId rid) (vehicle_feature env d h v) \<longleftrightarrow> mv_route_id v = rid"
    and "draws (vehicle_label_layer lid rid) (vehicle_feature env d h v) \<longleftrightarrow> mv_route_id v = rid"
    and "draws (vehicle_pulse_layer lid rid) (vehicle_feature env d h v) \<longleftrightarrow>
       mv_route_id v = rid \<and> vehiclePulseIsActive env (mv_time_of_update v)"
    using assms
    by (simp_all add: draws_def vehicle_layer_def vehicle_label_layer_def vehicle_pulse_layer_def
        of_route_def pulse_active_of_def get_vehicle_route)
qed

text \<open>The label under a stop is its code, or its id when it has none.\<close>

lemma stop_label_text:
  assumes "map_of ps ''stop_code'' = Some (stop_code s)" and "\<not> nullish (ms_stop_id s)"
  shows "eval (point_feature ps ns lon lat) (ToString (Get ''stop_code'')) =
     JStr (to_str (if \<not> nullish (ms_code s) \<and> ms_code s \<noteq> JStr [] then ms_code s else ms_stop_id s))"
  using assms by (auto simp: get_prop_def point_feature_def expr_to_string_def stop_code_def nullish_def)

end
