(* ===== verification/Layer_Panel.thy ===== *)
theory Layer_Panel
  imports Map_Payload
begin

text \<open>
  What the layer panels of the pages have in common: each checkbox stands for a group of layers.
  \<open>mirrors\<close> says that the layers of every group that are on the map are shown exactly when the
  group's checkbox is checked.  The lemmas are proved in the contract \<open>layer_store\<close> and used
  through its interpretation on \<open>setLayerVisibility\<close>.
\<close>

definition mirrors ::
  "('m \<Rightarrow> 'i \<Rightarrow> bool) \<Rightarrow> ('m \<Rightarrow> 'i \<Rightarrow> bool) \<Rightarrow> 'i list list \<Rightarrow> bool list \<Rightarrow> 'm \<Rightarrow> bool" where
  "mirrors has shown gs cs m \<longleftrightarrow> length cs = length gs
     \<and> (\<forall>i < length gs. \<forall>j \<in> set (gs ! i). has m j \<longrightarrow> shown m j = cs ! i)"

definition disjoint_groups :: "'i list list \<Rightarrow> bool" where
  "disjoint_groups gs \<longleftrightarrow>
     (\<forall>i < length gs. \<forall>k < length gs. i \<noteq> k \<longrightarrow> set (gs ! i) \<inter> set (gs ! k) = {})"

context layer_store
begin

lemma mirrors_put_group:
  assumes "mirrors has shown gs cs m" and "disjoint_groups gs" and "k < length gs"
  shows "mirrors has shown gs (cs[k := b]) (fold (\<lambda>i. put i b) (gs ! k) m)"
  unfolding mirrors_def
proof (intro conjI allI impI ballI)
  show "length (cs[k := b]) = length gs" using assms(1) by (simp add: mirrors_def)
  fix i j
  assume i: "i < length gs" and j: "j \<in> set (gs ! i)" and has: "has (fold (\<lambda>i. put i b) (gs ! k) m) j"
  then have m: "has m j" by (simp add: has_fold)
  show "shown (fold (\<lambda>i. put i b) (gs ! k) m) j = cs[k := b] ! i"
  proof (cases "i = k")
    case True
    with m j assms show ?thesis by (simp add: shown_fold_in mirrors_def)
  next
    case False
    with i j assms(2,3) have "j \<notin> set (gs ! k)" by (auto simp: disjoint_groups_def)
    with False m i j assms(1) show ?thesis by (simp add: shown_fold_notin mirrors_def)
  qed
qed

lemma mirrors_put_all:
  "mirrors has shown gs (replicate (length gs) b) (fold (\<lambda>i. put i b) (concat gs) m)"
proof -
  have "j \<in> set (concat gs)" if "i < length gs" "j \<in> set (gs ! i)" for i j
    using that nth_mem [of i gs] by auto
  then show ?thesis by (simp only: mirrors_def length_replicate nth_replicate has_fold shown_fold_in)
    (simp add: shown_fold_in)
qed

end

text \<open>A group of layers set one after the other is a fold.\<close>

lemma fold_set_append:
  "fold f (xs @ ys) m = fold f ys (fold f xs m)"
  by simp

text \<open>The text of the toggle button.\<close>

definition toggle_label :: "bool \<Rightarrow> jstring" where
  "toggle_label allOn = (if allOn then lit ''Toggle all off'' else lit ''Toggle all on'')"

lemma concat_fold_groups:
  "fold (\<lambda>i. f i) (concat gs) m = fold (\<lambda>g. fold f g) gs m"
  by (induction gs arbitrary: m) simp_all

end
