(* ===== verification/Stop_Map.thy ===== *)
theory Stop_Map
  imports Layer_Panel
begin

text \<open>
  \<open>static/js/stop-map.js\<close>: the map of one stop with its routes, vehicles and neighbouring stops.
  The GeoJSON builders, the \<open>load\<close> handler as a block of statements on the page, the layer
  panel and its three kinds of events.  Fetching, refreshing and cleaning up are in
  \<open>Map_Lifecycle\<close>, the popups in \<open>Map_Popups\<close>.
\<close>

section \<open>Data\<close>

record stop_map_payload =
  sp_direction :: jsval
  sp_stops :: "map_stop list"
  sp_routes :: "map_route list"
  sp_vehicles :: "map_vehicle list"

text \<open>An object used as a dictionary is a map keyed by the text of the id.\<close>

definition routeCoordinatesById :: "map_route list \<Rightarrow> jstring \<rightharpoonup> (real \<times> real) list" where
  "routeCoordinatesById routes =
     fold (\<lambda>route m. case mr_line route of
         None \<Rightarrow> m
       | Some coords \<Rightarrow> m(to_str (mr_route_id route) \<mapsto> coords)) routes Map.empty"

definition focus_stop_feature :: "map_stop \<Rightarrow> feature" where
  "focus_stop_feature s =
     point_feature [(''stop_id'', ms_stop_id s), (''is_focus'', ms_is_focus s), (''stop_code'', stop_code s)]
       [] (ms_lon s) (ms_lat s)"

definition stopsGeojson :: "stop_map_payload \<Rightarrow> source" where
  "stopsGeojson payload = CollectionData (map focus_stop_feature (sp_stops payload))"

definition vehicle_heading :: "fpu \<Rightarrow> map_route list \<Rightarrow> map_vehicle \<Rightarrow> real" where
  "vehicle_heading F routes v =
     vehicleIconRotateDegreesFromLineString F
       (Some (case routeCoordinatesById routes (to_str (mv_route_id v)) of
          Some coords \<Rightarrow> coords | None \<Rightarrow> []))
       (mv_lon v) (mv_lat v)"

definition vehiclesGeojson :: "fpu \<Rightarrow> date_env \<Rightarrow> stop_map_payload \<Rightarrow> feature list option" where
  "vehiclesGeojson F env payload =
     (if sp_vehicles payload = [] then None
      else Some (map (\<lambda>v. vehicle_feature env (sp_direction payload)
                            (vehicle_heading F (sp_routes payload) v) v) (sp_vehicles payload)))"

section \<open>The page\<close>

record route_layers =
  st_line :: jstring
  st_vehicle :: "jstring option"
  st_vehiclePulse :: "jstring option"
  st_vehicleLabel :: "jstring option"

record panel =
  pn_allOn :: bool
  pn_text :: jstring
  pn_routes :: "bool list"
  pn_stops :: bool

record stop_page =
  pg_map :: style_map
  pg_routes :: "jstring \<rightharpoonup> route_layers"
  pg_stops :: bool
  pg_pulse :: bool
  pg_panel :: "panel option"

definition new_stop_page :: stop_page where
  "new_stop_page = \<lparr>pg_map = addDefaultMapControls True (map_of_style (createOsmRasterStyle None)),
     pg_routes = Map.empty, pg_stops = True, pg_pulse = False, pg_panel = None\<rparr>"

definition with_map :: "(style_map \<Rightarrow> style_map outcome) \<Rightarrow> stop_page \<Rightarrow> stop_page outcome" where
  "with_map f pg = (case f (pg_map pg) of
      Done m \<Rightarrow> Done (pg\<lparr>pg_map := m\<rparr>)
    | Thrown e m \<Rightarrow> Thrown e (pg\<lparr>pg_map := m\<rparr>))"

definition route_key :: "map_route \<Rightarrow> jstring" where
  "route_key route = to_str (mr_route_id route)"

definition line_id :: "jstring \<Rightarrow> jstring" where "line_id k = lit ''route-line-'' @ k"
definition src_id :: "jstring \<Rightarrow> jstring" where "src_id k = lit ''route-src-'' @ k"
definition vehicle_id :: "jstring \<Rightarrow> jstring" where "vehicle_id k = lit ''vehicle-'' @ k"
definition pulse_id :: "jstring \<Rightarrow> jstring" where "pulse_id k = lit ''vehicle-pulse-'' @ k"
definition label_id :: "jstring \<Rightarrow> jstring" where "label_id k = lit ''vehicle-label-'' @ k"

definition route_layers_of :: "bool \<Rightarrow> jstring \<Rightarrow> route_layers" where
  "route_layers_of hasVehicles k =
     \<lparr>st_line = line_id k,
      st_vehicle = (if hasVehicles then Some (vehicle_id k) else None),
      st_vehiclePulse = (if hasVehicles then Some (pulse_id k) else None),
      st_vehicleLabel = (if hasVehicles then Some (label_id k) else None)\<rparr>"

section \<open>The load handler\<close>

definition add_route_line :: "bool \<Rightarrow> map_route \<Rightarrow> stop_page \<Rightarrow> stop_page outcome" where
  "add_route_line hasVehicles route =
     run_steps
      [with_map (addSource (src_id (route_key route)) (FeatureData (line_feature route))),
       with_map (\<lambda>m. Done (addLayer (line_layer (line_id (route_key route)) (src_id (route_key route))
                                     (mr_color route) 6 0.95) m)),
       \<lambda>pg. Done (pg\<lparr>pg_routes := (pg_routes pg)(route_key route \<mapsto>
                          route_layers_of hasVehicles (route_key route))\<rparr>)]"

definition add_route_vehicles :: "canvas_env \<Rightarrow> map_route \<Rightarrow> style_map \<Rightarrow> style_map outcome" where
  "add_route_vehicles cv route =
     (let k = route_key route;
          iconId = vehicle_icon_id (mr_route_id route) (mr_color route) in
      run_steps
       [registerVehicleIconForRoute cv (mr_route_id route) (mr_color route),
        \<lambda>m. Done (addLayer (vehicle_pulse_layer (pulse_id k) (mr_route_id route)) m),
        \<lambda>m. Done (addLayer (vehicle_layer (vehicle_id k) iconId (mr_route_id route)) m),
        \<lambda>m. Done (addLayer (vehicle_label_layer (label_id k) (mr_route_id route)) m)])"

definition is_focus :: "bool \<Rightarrow> expr" where
  "is_focus b = EqE (Get ''is_focus'') (Lit (JBool b))"

definition pointer_on :: "jstring \<Rightarrow> style_map \<Rightarrow> style_map" where
  "pointer_on i m = on_layer ''mouseleave'' i CursorReset (on_layer ''mouseenter'' i CursorPointer m)"

definition listen_vehicle :: "map_route \<Rightarrow> style_map \<Rightarrow> style_map" where
  "listen_vehicle route m =
     (let vid = vehicle_id (route_key route); vLabelId = label_id (route_key route) in
      if getLayer m vid = None then m
      else let m = on_layer ''click'' vid VehiclePopup m;
               m = (if getLayer m vLabelId = None then m
                    else pointer_on vLabelId (on_layer ''click'' vLabelId VehiclePopup m))
           in pointer_on vid m)"

definition listen_stops :: "jstring \<Rightarrow> style_map \<Rightarrow> style_map" where
  "listen_stops layerId m = pointer_on layerId (on_layer ''click'' layerId StopPopup m)"

definition stop_layer_ids :: "jstring list" where
  "stop_layer_ids = [lit ''stops-focus'', lit ''stops-other'', lit ''stops-labels-focus'',
     lit ''stops-labels-other'']"

text \<open>\<open>features.some((f) => f.properties.pulse_active === true)\<close>\<close>

definition any_pulse :: "feature list \<Rightarrow> bool" where
  "any_pulse fs \<longleftrightarrow> list_ex (\<lambda>f. get_prop f ''pulse_active'' = JBool True) fs"

definition new_panel :: "map_route list \<Rightarrow> panel" where
  "new_panel routes = \<lparr>pn_allOn = True, pn_text = lit ''Toggle all off'',
     pn_routes = replicate (length routes) True, pn_stops = True\<rparr>"

definition stop_map_load ::
  "fpu \<Rightarrow> date_env \<Rightarrow> canvas_env \<Rightarrow> stop_map_payload \<Rightarrow> stop_page \<Rightarrow> stop_page outcome" where
  "stop_map_load F env cv payload =
     (let routes = sp_routes payload;
          vehicles = vehiclesGeojson F env payload;
          lay = (\<lambda>l. with_map (\<lambda>m. Done (addLayer l m))) in
      run_steps
       [with_map (addSource (lit ''stops-src'') (stopsGeojson payload)),
        for_each (add_route_line (vehicles \<noteq> None)) routes,
        lay (circle_layer (lit ''stops-other'') (Some (is_focus False)) 5 ''#ffffff'' 2 ''#333333''),
        lay (circle_layer (lit ''stops-focus'') (Some (is_focus True)) 10 ''#2563eb'' 2 ''#ffffff''),
        (case vehicles of
           None \<Rightarrow> Done
         | Some fs \<Rightarrow>
             run_steps
              [with_map (addSource (lit ''vehicles-src'') (CollectionData fs)),
               for_each (\<lambda>r. with_map (add_route_vehicles cv r)) routes,
               \<lambda>pg. Done (if any_pulse fs then pg\<lparr>pg_pulse := True\<rparr> else pg)]),
        lay (stop_label_layer (lit ''stops-labels-focus'') (Some (is_focus True))),
        lay (stop_label_layer (lit ''stops-labels-other'') (Some (is_focus False))),
        \<lambda>pg. Done (pg\<lparr>pg_panel := Some (new_panel routes)\<rparr>),
        (if vehicles = None then Done
         else with_map (\<lambda>m. Done (fold listen_vehicle routes m))),
        with_map (\<lambda>m. Done (fold listen_stops stop_layer_ids m))])"

text \<open>The callback of the pulse animation.\<close>

definition pulse_layer_ids :: "map_route list \<Rightarrow> style_map \<Rightarrow> jstring list" where
  "pulse_layer_ids routes m =
     filter (\<lambda>i. getLayer m i \<noteq> None) (map (\<lambda>r. pulse_id (route_key r)) routes)"

section \<open>The layer panel\<close>

definition set_route_layers :: "route_layers \<Rightarrow> bool \<Rightarrow> style_map \<Rightarrow> style_map" where
  "set_route_layers st vis m =
     (let put = (\<lambda>i m. case i of None \<Rightarrow> m | Some v \<Rightarrow> setLayerVisibility v vis m)
      in put (st_vehicleLabel st) (put (st_vehiclePulse st) (put (st_vehicle st)
           (setLayerVisibility (st_line st) vis m))))"

definition set_route :: "(jstring \<rightharpoonup> route_layers) \<Rightarrow> bool \<Rightarrow> map_route \<Rightarrow> style_map \<Rightarrow> style_map" where
  "set_route rs vis route m =
     (case rs (route_key route) of None \<Rightarrow> m | Some st \<Rightarrow> set_route_layers st vis m)"

definition set_stops :: "bool \<Rightarrow> style_map \<Rightarrow> style_map" where
  "set_stops vis m = setLayerVisibility (lit ''stops-labels-other'') vis
     (setLayerVisibility (lit ''stops-other'') vis m)"

definition toggle_all :: "map_route list \<Rightarrow> stop_page \<Rightarrow> panel \<Rightarrow> stop_page" where
  "toggle_all routes pg p =
     (let allOn = (\<not> pn_allOn p) in
      pg\<lparr>pg_map := set_stops allOn (fold (set_route (pg_routes pg) allOn) routes (pg_map pg)),
         pg_panel := Some \<lparr>pn_allOn = allOn, pn_text = toggle_label allOn,
            pn_routes = replicate (length routes) allOn, pn_stops = allOn\<rparr>\<rparr>)"

text \<open>The user flips a checkbox; its \<open>change\<close> listener then reads \<open>checked\<close>.\<close>

definition route_change :: "map_route list \<Rightarrow> nat \<Rightarrow> stop_page \<Rightarrow> panel \<Rightarrow> stop_page" where
  "route_change routes i pg p =
     (if length routes \<le> i then pg
      else let vis = (\<not> pn_routes p ! i)
           in pg\<lparr>pg_map := set_route (pg_routes pg) vis (routes ! i) (pg_map pg),
                 pg_panel := Some (p\<lparr>pn_routes := (pn_routes p)[i := vis]\<rparr>)\<rparr>)"

definition stops_change :: "stop_page \<Rightarrow> panel \<Rightarrow> stop_page" where
  "stops_change pg p =
     (let vis = (\<not> pn_stops p)
      in pg\<lparr>pg_stops := vis, pg_map := set_stops vis (pg_map pg),
            pg_panel := Some (p\<lparr>pn_stops := vis\<rparr>)\<rparr>)"

datatype panel_event = ToggleAll | RouteChange nat | StopsChange

definition on_panel_event :: "map_route list \<Rightarrow> panel_event \<Rightarrow> stop_page \<Rightarrow> stop_page" where
  "on_panel_event routes e pg =
     (case pg_panel pg of
        None \<Rightarrow> pg
      | Some p \<Rightarrow>
          (case e of
             ToggleAll \<Rightarrow> toggle_all routes pg p
           | RouteChange i \<Rightarrow> route_change routes i pg p
           | StopsChange \<Rightarrow> stops_change pg p))"

section \<open>Layer ids\<close>

lemma id_inj [simp]:
  "line_id a = line_id b \<longleftrightarrow> a = b" "src_id a = src_id b \<longleftrightarrow> a = b"
  "vehicle_id a = vehicle_id b \<longleftrightarrow> a = b" "pulse_id a = pulse_id b \<longleftrightarrow> a = b"
  "label_id a = label_id b \<longleftrightarrow> a = b"
  by (simp_all add: line_id_def src_id_def vehicle_id_def pulse_id_def label_id_def)

lemma id_kinds [simp]:
  "line_id a \<noteq> vehicle_id b" "line_id a \<noteq> pulse_id b" "line_id a \<noteq> label_id b"
  "vehicle_id b \<noteq> line_id a" "pulse_id b \<noteq> line_id a" "label_id b \<noteq> line_id a"
  "pulse_id a \<noteq> label_id b" "label_id b \<noteq> pulse_id a"
  by (simp_all add: line_id_def vehicle_id_def pulse_id_def label_id_def lit_def)

lemma vehicle_id_collision:
  "vehicle_id a = pulse_id b \<longleftrightarrow> a = lit ''pulse-'' @ b"
  "vehicle_id a = label_id b \<longleftrightarrow> a = lit ''label-'' @ b"
  "pulse_id b = vehicle_id a \<longleftrightarrow> a = lit ''pulse-'' @ b"
  "label_id b = vehicle_id a \<longleftrightarrow> a = lit ''label-'' @ b"
  by (auto simp: vehicle_id_def pulse_id_def label_id_def lit_def)

text \<open>The ids that do not depend on a route.\<close>

definition fixed_ids :: "jstring list" where
  "fixed_ids = [lit ''osm'', lit ''stops-other'', lit ''stops-focus'', lit ''stops-labels-focus'',
     lit ''stops-labels-other'']"

lemma id_fixed [simp]:
  "line_id a \<notin> set fixed_ids" "vehicle_id a \<notin> set fixed_ids" "pulse_id a \<notin> set fixed_ids"
  "label_id a \<notin> set fixed_ids"
  by (simp_all add: fixed_ids_def line_id_def vehicle_id_def pulse_id_def label_id_def lit_def)

lemma fixed_distinct: "distinct fixed_ids"
  by (simp add: fixed_ids_def lit_def)

lemma src_fixed [simp]:
  "src_id a \<noteq> lit ''osm''" "src_id a \<noteq> lit ''stops-src''" "src_id a \<noteq> lit ''vehicles-src''"
  by (simp_all add: src_id_def lit_def)

text \<open>
  Route ids that are distinct as texts and do not collide in the id namespace: \<open>vehicle-<a>\<close> is
  also \<open>vehicle-pulse-<b>\<close> when \<open>a\<close> is \<open>pulse-<b>\<close>.
\<close>

definition route_keys_ok :: "map_route list \<Rightarrow> bool" where
  "route_keys_ok rs \<longleftrightarrow> distinct (map route_key rs)
     \<and> (\<forall>a \<in> set rs. \<forall>b \<in> set rs. route_key a \<noteq> lit ''pulse-'' @ route_key b
          \<and> route_key a \<noteq> lit ''label-'' @ route_key b)"

lemma route_keys_okD:
  assumes "route_keys_ok (r # rs)" and "q \<in> set rs"
  shows "route_key q \<noteq> route_key r" "route_key q \<noteq> lit ''pulse-'' @ route_key r"
    "route_key q \<noteq> lit ''label-'' @ route_key r" "route_key r \<noteq> lit ''pulse-'' @ route_key q"
    "route_key r \<noteq> lit ''label-'' @ route_key q"
proof -
  have "route_key r \<notin> route_key ` set rs" using assms(1) by (simp add: route_keys_ok_def)
  then show "route_key q \<noteq> route_key r" using assms(2) by (metis imageI)
qed (use assms in \<open>auto simp: route_keys_ok_def\<close>)

lemma route_keys_ok_Cons: "route_keys_ok (r # rs) \<Longrightarrow> route_keys_ok rs \<and> route_keys_ok [r]"
  unfolding route_keys_ok_def by auto

lemma with_map_Done: "f (pg_map pg) = Done m \<Longrightarrow> with_map f pg = Done (pg\<lparr>pg_map := m\<rparr>)"
  by (simp add: with_map_def)

section \<open>Loading adds the layers in paint order\<close>

definition route_line :: "map_route \<Rightarrow> layer" where
  "route_line r = line_layer (line_id (route_key r)) (src_id (route_key r)) (mr_color r) 6 0.95"

definition route_vehicles :: "map_route \<Rightarrow> layer list" where
  "route_vehicles r =
     [vehicle_pulse_layer (pulse_id (route_key r)) (mr_route_id r),
      vehicle_layer (vehicle_id (route_key r)) (vehicle_icon_id (mr_route_id r) (mr_color r)) (mr_route_id r),
      vehicle_label_layer (label_id (route_key r)) (mr_route_id r)]"

lemma route_vehicles_ids [simp]:
  "map l_id (route_vehicles r) = [pulse_id (route_key r), vehicle_id (route_key r), label_id (route_key r)]"
  "l_id ` set (route_vehicles r) = {pulse_id (route_key r), vehicle_id (route_key r), label_id (route_key r)}"
  by (simp_all add: route_vehicles_def)

lemma concat_vehicles_ids:
  "map l_id (concat (map route_vehicles rs)) =
     concat (map (\<lambda>r. [pulse_id (route_key r), vehicle_id (route_key r), label_id (route_key r)]) rs)"
  by (simp add: map_concat comp_def)

definition put_lines :: "map_route list \<Rightarrow> style_map \<Rightarrow> style_map" where
  "put_lines rs m =
     m\<lparr>m_sources := fold (\<lambda>r S. S(src_id (route_key r) \<mapsto> FeatureData (line_feature r))) rs (m_sources m),
       m_layers := m_layers m @ map route_line rs\<rparr>"

definition put_routes :: "bool \<Rightarrow> map_route list \<Rightarrow> (jstring \<rightharpoonup> route_layers) \<Rightarrow> jstring \<rightharpoonup> route_layers" where
  "put_routes hv rs R = fold (\<lambda>r R. R(route_key r \<mapsto> route_layers_of hv (route_key r))) rs R"

lemma put_Cons:
  "put_lines rs (put_lines [r] m) = put_lines (r # rs) m"
  "put_routes hv rs (put_routes hv [r] R) = put_routes hv (r # rs) R"
  by (simp_all add: put_lines_def put_routes_def)

lemma add_route_line_Done:
  assumes "m_sources (pg_map pg) (src_id (route_key r)) = None"
    and "line_id (route_key r) \<notin> set (layer_ids (pg_map pg))"
  shows "add_route_line hv r pg =
     Done (pg\<lparr>pg_map := put_lines [r] (pg_map pg), pg_routes := put_routes hv [r] (pg_routes pg)\<rparr>)"
  using assms
  by (simp add: add_route_line_def with_map_def addSource_def addLayer_def getLayer_None_iff
      layer_ids_def put_lines_def put_routes_def route_line_def)

lemma add_lines:
  "distinct (map route_key rs) \<Longrightarrow>
   \<forall>r \<in> set rs. m_sources (pg_map pg) (src_id (route_key r)) = None
     \<and> line_id (route_key r) \<notin> set (layer_ids (pg_map pg)) \<Longrightarrow>
   for_each (add_route_line hv) rs pg =
     Done (pg\<lparr>pg_map := put_lines rs (pg_map pg), pg_routes := put_routes hv rs (pg_routes pg)\<rparr>)"
proof (induction rs arbitrary: pg)
  case Nil
  then show ?case by (simp add: put_lines_def put_routes_def)
next
  case (Cons r rs)
  let ?pg = "pg\<lparr>pg_map := put_lines [r] (pg_map pg), pg_routes := put_routes hv [r] (pg_routes pg)\<rparr>"
  have r: "add_route_line hv r pg = Done ?pg" using Cons.prems by (intro add_route_line_Done) auto
  have ne: "\<forall>q \<in> set rs. route_key q \<noteq> route_key r" using Cons.prems(1) by simp (metis imageI)
  have "\<forall>q \<in> set rs. m_sources (pg_map ?pg) (src_id (route_key q)) = None
     \<and> line_id (route_key q) \<notin> set (layer_ids (pg_map ?pg))"
    using Cons.prems ne by (auto simp: put_lines_def layer_ids_def route_line_def)
  with Cons.IH [of ?pg] Cons.prems(1) have "for_each (add_route_line hv) rs ?pg =
      Done (?pg\<lparr>pg_map := put_lines rs (pg_map ?pg), pg_routes := put_routes hv rs (pg_routes ?pg)\<rparr>)"
    by (simp only: list.map distinct.simps)
  with r show ?case by (simp add: put_Cons)
qed

lemma register_Done:
  assumes "cv_context cv"
  shows "\<exists>I. registerVehicleIconForRoute cv rid c m = Done (m\<lparr>m_images := I\<rparr>)"
proof -
  obtain n where n: "registerVehicleIconForRoute cv rid c m = Done n"
    using assms
    by (cases "hasImage m (vehicle_icon_id rid c)")
      (auto simp: registerVehicleIconForRoute_def createVehicleChevronImageData_def Let_def)
  with register_frame [of cv rid c m] show ?thesis by (metis state_of.simps(1))
qed

lemma add_route_vehicles_Done:
  assumes "cv_context cv"
    and "set (map l_id (route_vehicles r)) \<inter> set (layer_ids m) = {}" and "route_keys_ok [r]"
  shows "\<exists>I. add_route_vehicles cv r m =
     Done (m\<lparr>m_images := I, m_layers := m_layers m @ route_vehicles r\<rparr>)"
proof -
  obtain I where I: "registerVehicleIconForRoute cv (mr_route_id r) (mr_color r) m = Done (m\<lparr>m_images := I\<rparr>)"
    using register_Done [OF assms(1)] by blast
  with assms(2,3) show ?thesis
    by (intro exI [of _ I])
      (simp add: add_route_vehicles_def Let_def addLayer_def getLayer_None_iff layer_ids_def
        route_vehicles_def vehicle_id_collision route_keys_ok_def)
qed

lemma vehicle_ids_distinct:
  assumes "route_keys_ok rs"
  shows "distinct (map l_id (concat (map route_vehicles rs)))"
  using assms unfolding concat_vehicles_ids
proof (induction rs)
  case Nil
  then show ?case by simp
next
  case (Cons r rs)
  let ?ids = "\<lambda>rs. concat (map (\<lambda>r. [pulse_id (route_key r), vehicle_id (route_key r), label_id (route_key r)]) rs)"
  let ?I = "{pulse_id (route_key r), vehicle_id (route_key r), label_id (route_key r)}"
  have IH: "distinct (?ids rs)" using Cons.IH route_keys_ok_Cons [OF Cons.prems] by blast
  have "\<forall>q \<in> set rs. pulse_id (route_key q) \<notin> ?I \<and> vehicle_id (route_key q) \<notin> ?I \<and> label_id (route_key q) \<notin> ?I"
    using route_keys_okD [OF Cons.prems] by (simp add: vehicle_id_collision)
  then have "?I \<inter> set (?ids rs) = {}" by auto
  moreover have "distinct [pulse_id (route_key r), vehicle_id (route_key r), label_id (route_key r)]"
    by (simp add: vehicle_id_collision lit_def)
  ultimately show ?case using IH by (simp only: list.map concat.simps distinct_append) simp
qed

lemma add_vehicles:
  "cv_context cv \<Longrightarrow> route_keys_ok rs \<Longrightarrow>
   set (map l_id (concat (map route_vehicles rs))) \<inter> set (layer_ids (pg_map pg)) = {} \<Longrightarrow>
   \<exists>I. for_each (\<lambda>r. with_map (add_route_vehicles cv r)) rs pg =
     Done (pg\<lparr>pg_map := (pg_map pg)\<lparr>m_images := I,
        m_layers := m_layers (pg_map pg) @ concat (map route_vehicles rs)\<rparr>\<rparr>)"
proof (induction rs arbitrary: pg)
  case Nil
  then show ?case by (intro exI [of _ "m_images (pg_map pg)"]) simp
next
  case (Cons r rs)
  have ok: "route_keys_ok [r]" "route_keys_ok rs"
    using Cons.prems(2) by (auto simp: route_keys_ok_def)
  let ?R = "set (map l_id (route_vehicles r))" and ?S = "set (map l_id (concat (map route_vehicles rs)))"
  have sets: "(?R \<union> ?S) \<inter> set (layer_ids (pg_map pg)) = {}" using Cons.prems(3) by simp
  have disj: "?R \<inter> ?S = {}" using vehicle_ids_distinct [OF Cons.prems(2)] by simp
  from sets have fresh: "?R \<inter> set (layer_ids (pg_map pg)) = {}" by blast
  obtain I where I: "add_route_vehicles cv r (pg_map pg) =
      Done ((pg_map pg)\<lparr>m_images := I, m_layers := m_layers (pg_map pg) @ route_vehicles r\<rparr>)"
    using add_route_vehicles_Done [OF Cons.prems(1) fresh ok(1)] by blast
  let ?pg = "pg\<lparr>pg_map := (pg_map pg)\<lparr>m_images := I, m_layers := m_layers (pg_map pg) @ route_vehicles r\<rparr>\<rparr>"
  have "set (layer_ids (pg_map ?pg)) = set (layer_ids (pg_map pg)) \<union> ?R" by (simp add: layer_ids_def)
  with sets disj have "?S \<inter> set (layer_ids (pg_map ?pg)) = {}" by blast
  from Cons.IH [OF Cons.prems(1) ok(2) this] obtain J where
    "for_each (\<lambda>r. with_map (add_route_vehicles cv r)) rs ?pg =
     Done (?pg\<lparr>pg_map := (pg_map ?pg)\<lparr>m_images := J,
        m_layers := m_layers (pg_map ?pg) @ concat (map route_vehicles rs)\<rparr>\<rparr>)" by blast
  with with_map_Done [where f = "add_route_vehicles cv r" and pg = pg, OF I] show ?case by (intro exI [of _ J]) simp
qed

definition osm_layer :: layer where
  "osm_layer = hd (m_layers (map_of_style (createOsmRasterStyle None)))"

definition stop_circles :: "layer list" where
  "stop_circles =
     [circle_layer (lit ''stops-other'') (Some (is_focus False)) 5 ''#ffffff'' 2 ''#333333'',
      circle_layer (lit ''stops-focus'') (Some (is_focus True)) 10 ''#2563eb'' 2 ''#ffffff'']"

definition stop_labels :: "layer list" where
  "stop_labels =
     [stop_label_layer (lit ''stops-labels-focus'') (Some (is_focus True)),
      stop_label_layer (lit ''stops-labels-other'') (Some (is_focus False))]"

text \<open>The layers after loading, from the bottom up.\<close>

definition stop_map_layers :: "bool \<Rightarrow> map_route list \<Rightarrow> layer list" where
  "stop_map_layers hv routes =
     osm_layer # map route_line routes @ stop_circles
       @ (if hv then concat (map route_vehicles routes) else []) @ stop_labels"

definition vehicle_listeners :: "map_route \<Rightarrow> (string \<times> jstring \<times> handler) list" where
  "vehicle_listeners r =
     (let v = vehicle_id (route_key r); l = label_id (route_key r) in
      [(''click'', v, VehiclePopup), (''click'', l, VehiclePopup),
       (''mouseenter'', l, CursorPointer), (''mouseleave'', l, CursorReset),
       (''mouseenter'', v, CursorPointer), (''mouseleave'', v, CursorReset)])"

definition stop_listeners :: "jstring \<Rightarrow> (string \<times> jstring \<times> handler) list" where
  "stop_listeners i = [(''click'', i, StopPopup), (''mouseenter'', i, CursorPointer),
     (''mouseleave'', i, CursorReset)]"

lemma lay_Done:
  "l_id l \<notin> set (layer_ids (pg_map pg)) \<Longrightarrow>
   with_map (\<lambda>m. Done (addLayer l m)) pg =
     Done (pg\<lparr>pg_map := (pg_map pg)\<lparr>m_layers := m_layers (pg_map pg) @ [l]\<rparr>\<rparr>)"
  by (simp add: with_map_def addLayer_fresh)

lemma listen_vehicles_fold:
  "\<forall>r \<in> set rs. getLayer m (vehicle_id (route_key r)) \<noteq> None \<and> getLayer m (label_id (route_key r)) \<noteq> None \<Longrightarrow>
   fold listen_vehicle rs m = m\<lparr>m_listeners := m_listeners m @ concat (map vehicle_listeners rs)\<rparr>"
proof (induction rs arbitrary: m)
  case Nil
  then show ?case by simp
next
  case (Cons r rs)
  have g: "getLayer (n\<lparr>m_listeners := L\<rparr>) i = getLayer n i" for n L i by (simp add: getLayer_def)
  have "listen_vehicle r m = m\<lparr>m_listeners := m_listeners m @ vehicle_listeners r\<rparr>"
    using Cons.prems
    by (simp add: listen_vehicle_def Let_def pointer_on_def on_layer_def vehicle_listeners_def g)
  with Cons show ?case by (simp add: g)
qed

lemma listen_stops_fold:
  "fold listen_stops is m = m\<lparr>m_listeners := m_listeners m @ concat (map stop_listeners is)\<rparr>"
  by (induction "is" arbitrary: m)
    (simp_all add: listen_stops_def pointer_on_def on_layer_def stop_listeners_def)

lemma new_page_map:
  "m_layers (pg_map new_stop_page) = [osm_layer]" "l_id osm_layer = lit ''osm''"
  "m_sources (pg_map new_stop_page) = [lit ''osm'' \<mapsto> RasterTiles
     [lit ''https://tile.openstreetmap.org/{z}/{x}/{y}.png'']]"
  "m_listeners (pg_map new_stop_page) = []" "pg_routes new_stop_page = Map.empty"
  by (simp_all add: new_stop_page_def osm_layer_def map_of_style_def createOsmRasterStyle_def
      empty_map_def addDefaultMapControls_def addControl_def)

lemma stop_map_layer_ids:
  "map l_id (stop_map_layers hv routes) =
     lit ''osm'' # map (\<lambda>r. line_id (route_key r)) routes
       @ [lit ''stops-other'', lit ''stops-focus'']
       @ (if hv then concat (map (\<lambda>r. [pulse_id (route_key r), vehicle_id (route_key r),
            label_id (route_key r)]) routes) else [])
       @ [lit ''stops-labels-focus'', lit ''stops-labels-other'']"
  by (simp add: stop_map_layers_def stop_circles_def stop_labels_def new_page_map concat_vehicles_ids
      route_line_def comp_def)

lemma in_fixed:
  "lit ''osm'' \<in> set fixed_ids" "lit ''stops-other'' \<in> set fixed_ids" "lit ''stops-focus'' \<in> set fixed_ids"
  "lit ''stops-labels-focus'' \<in> set fixed_ids" "lit ''stops-labels-other'' \<in> set fixed_ids"
  by (simp_all add: fixed_ids_def)

lemma fixed_neq:
  "i \<in> set fixed_ids \<Longrightarrow> line_id a \<noteq> i" "i \<in> set fixed_ids \<Longrightarrow> vehicle_id a \<noteq> i"
  "i \<in> set fixed_ids \<Longrightarrow> pulse_id a \<noteq> i" "i \<in> set fixed_ids \<Longrightarrow> label_id a \<noteq> i"
  using id_fixed by auto

lemmas fixed_not = fixed_neq [OF in_fixed(1)] fixed_neq [OF in_fixed(2)] fixed_neq [OF in_fixed(3)]
  fixed_neq [OF in_fixed(4)] fixed_neq [OF in_fixed(5)]

lemma stop_map_ids_distinct:
  assumes "route_keys_ok routes"
  shows "distinct (map l_id (stop_map_layers hv routes))"
proof -
  have "distinct (map (\<lambda>r. line_id (route_key r)) routes)"
    using assms by (simp add: route_keys_ok_def distinct_map inj_on_def)
  moreover have "distinct (concat (map (\<lambda>r. [pulse_id (route_key r), vehicle_id (route_key r),
            label_id (route_key r)]) routes))"
    using vehicle_ids_distinct [OF assms] by (simp only: concat_vehicles_ids)
  moreover have "distinct [lit ''osm'', lit ''stops-other'', lit ''stops-focus'',
      lit ''stops-labels-focus'', lit ''stops-labels-other'']"
    using fixed_distinct by (simp add: fixed_ids_def)
  ultimately show ?thesis
    unfolding stop_map_layer_ids by (auto simp: fixed_not fixed_not [symmetric])
qed

lemma put_lines_sources:
  assumes "distinct (map route_key rs)" and "r \<in> set rs"
  shows "m_sources (put_lines rs m) (src_id (route_key r)) = Some (FeatureData (line_feature r))"
proof -
  have "distinct (map (\<lambda>r. src_id (route_key r)) rs)"
    using assms(1) by (simp add: distinct_map inj_on_def)
  from fold_update_at [OF this assms(2), where v = "\<lambda>r. FeatureData (line_feature r)"]
  show ?thesis by (simp add: put_lines_def del: fun_upd_apply)
qed

lemma put_lines_other:
  "(\<And>k. i \<noteq> src_id k) \<Longrightarrow> m_sources (put_lines rs m) i = m_sources m i"
  by (simp add: put_lines_def fold_update_other del: fun_upd_apply) (simp add: fold_update_other image_iff)

lemma put_routes_at:
  "distinct (map route_key rs) \<Longrightarrow> r \<in> set rs \<Longrightarrow>
   put_routes hv rs R (route_key r) = Some (route_layers_of hv (route_key r))"
  unfolding put_routes_def by (rule fold_update_at)

text \<open>The statements before the vehicles: sources and lines, then the two circle layers.\<close>

lemma load_lines:
  assumes "route_keys_ok routes"
  shows "\<exists>S. run_steps
       [with_map (addSource (lit ''stops-src'') stops),
        for_each (add_route_line hv) routes,
        with_map (\<lambda>m. Done (addLayer (stop_circles ! 0) m)),
        with_map (\<lambda>m. Done (addLayer (stop_circles ! Suc 0) m))] new_stop_page
     = Done (new_stop_page\<lparr>pg_map := (pg_map new_stop_page)\<lparr>m_sources := S,
          m_layers := osm_layer # map route_line routes @ stop_circles\<rparr>,
          pg_routes := put_routes hv routes Map.empty\<rparr>)
     \<and> S (lit ''stops-src'') = Some stops \<and> S (lit ''vehicles-src'') = None
     \<and> (\<forall>r \<in> set routes. S (src_id (route_key r)) = Some (FeatureData (line_feature r)))
     \<and> S (lit ''osm'') = m_sources (pg_map new_stop_page) (lit ''osm'')"
proof -
  define m where "m = pg_map new_stop_page"
  define m1 where "m1 = m\<lparr>m_sources := (m_sources m)(lit ''stops-src'' \<mapsto> stops)\<rparr>"
  define m2 where "m2 = put_lines routes m1"
  let ?p1 = "new_stop_page\<lparr>pg_map := m1\<rparr>"
  let ?p2 = "new_stop_page\<lparr>pg_map := m2, pg_routes := put_routes hv routes Map.empty\<rparr>"
  let ?c = "stop_circles ! 0" and ?d = "stop_circles ! Suc 0"
  let ?p3 = "?p2\<lparr>pg_map := m2\<lparr>m_layers := m_layers m2 @ [?c]\<rparr>\<rparr>"
  have d: "distinct (map route_key routes)" using assms by (simp add: route_keys_ok_def)
  have n: "lit ''stops-src'' \<noteq> lit ''osm''" "lit ''vehicles-src'' \<noteq> lit ''osm''"
    "lit ''vehicles-src'' \<noteq> lit ''stops-src''" "lit ''stops-other'' \<noteq> lit ''osm''"
    "lit ''stops-focus'' \<noteq> lit ''osm''" "lit ''stops-focus'' \<noteq> lit ''stops-other''"
    by (simp_all add: lit_def)
  have m1: "m_layers m1 = [osm_layer]" by (simp add: m1_def m_def new_page_map)
  have s1: "m_sources m1 (lit ''stops-src'') = Some stops" "m_sources m1 (lit ''vehicles-src'') = None"
    "m_sources m1 (src_id k) = None" for k
    by (simp_all add: m1_def m_def new_page_map n)
  have p1: "with_map (addSource (lit ''stops-src'') stops) new_stop_page = Done ?p1"
    by (simp add: with_map_def addSource_def new_page_map n m1_def m_def)
  have p2: "for_each (add_route_line hv) routes ?p1 = Done ?p2"
    using add_lines [OF d, of ?p1 hv]
    by (simp add: layer_ids_def m1 s1 new_page_map fixed_not m2_def)
  have l2: "m_layers m2 = osm_layer # map route_line routes" by (simp add: m2_def put_lines_def m1)
  have f: "l_id ?c = lit ''stops-other''" "l_id ?d = lit ''stops-focus''"
    by (simp_all add: stop_circles_def)
  have l4: "m_layers m2 @ [?c, ?d] = osm_layer # map route_line routes @ stop_circles"
    by (simp add: l2 stop_circles_def)
  have ids: "set (layer_ids m2) = insert (lit ''osm'') ((\<lambda>r. line_id (route_key r)) ` set routes)"
    by (simp add: layer_ids_def l2 new_page_map route_line_def image_image)
  have nl: "lit ''stops-other'' \<notin> set (layer_ids m2)" "lit ''stops-focus'' \<notin> set (layer_ids m2)"
    by (auto simp: ids n fixed_not [symmetric])
  have p3: "with_map (\<lambda>m. Done (addLayer ?c m)) ?p2 = Done ?p3"
    using lay_Done [of ?c ?p2] nl by (simp add: f)
  have p4: "with_map (\<lambda>m. Done (addLayer ?d m)) ?p3
      = Done (?p3\<lparr>pg_map := m2\<lparr>m_layers := m_layers m2 @ [?c, ?d]\<rparr>\<rparr>)"
    using lay_Done [of ?d ?p3] nl by (simp add: layer_ids_def f n)
  have "run_steps
       [with_map (addSource (lit ''stops-src'') stops), for_each (add_route_line hv) routes,
        with_map (\<lambda>m. Done (addLayer ?c m)), with_map (\<lambda>m. Done (addLayer ?d m))] new_stop_page
     = Done (?p3\<lparr>pg_map := m2\<lparr>m_layers := m_layers m2 @ [?c, ?d]\<rparr>\<rparr>)"
    using p1 p2 p3 p4 by (simp only: run_steps.simps and_then.simps)
  also have "\<dots> = Done (new_stop_page\<lparr>pg_map := m\<lparr>m_sources := m_sources m2,
          m_layers := osm_layer # map route_line routes @ stop_circles\<rparr>,
          pg_routes := put_routes hv routes Map.empty\<rparr>)"
    unfolding l4 by (simp add: m2_def m1_def put_lines_def m_def)
  finally show ?thesis
    using put_lines_sources [OF d, of _ m1] put_lines_other [OF src_fixed(2) [symmetric], of routes m1]
      put_lines_other [OF src_fixed(3) [symmetric], of routes m1]
      put_lines_other [OF src_fixed(1) [symmetric], of routes m1] s1
    by (intro exI [of _ "m_sources m2"]) (simp add: m2_def m_def m1_def n [symmetric])
qed

definition stop_map_listeners :: "bool \<Rightarrow> map_route list \<Rightarrow> (string \<times> jstring \<times> handler) list" where
  "stop_map_listeners hv routes =
     (if hv then concat (map vehicle_listeners routes) else [])
       @ concat (map stop_listeners stop_layer_ids)"

text \<open>
  The statements after the vehicles, on a page whose layers are the ones below the labels.
\<close>

lemma load_rest:
  assumes "route_keys_ok routes"
    and "m_layers (pg_map pg) = osm_layer # map route_line routes @ stop_circles
       @ (if hv then concat (map route_vehicles routes) else [])"
    and "m_listeners (pg_map pg) = []"
  shows "run_steps
      [with_map (\<lambda>m. Done (addLayer (stop_labels ! 0) m)),
       with_map (\<lambda>m. Done (addLayer (stop_labels ! Suc 0) m)),
       \<lambda>pg. Done (pg\<lparr>pg_panel := Some (new_panel routes)\<rparr>),
       if \<not> hv then Done else with_map (\<lambda>m. Done (fold listen_vehicle routes m)),
       with_map (\<lambda>m. Done (fold listen_stops stop_layer_ids m))] pg
    = Done (pg\<lparr>pg_panel := Some (new_panel routes),
        pg_map := (pg_map pg)\<lparr>m_layers := stop_map_layers hv routes,
           m_listeners := stop_map_listeners hv routes\<rparr>\<rparr>)"
proof -
  let ?c = "stop_labels ! 0" and ?d = "stop_labels ! Suc 0"
  define L where "L = m_layers (pg_map pg)"
  have f: "l_id ?c = lit ''stops-labels-focus''" "l_id ?d = lit ''stops-labels-other''"
    by (simp_all add: stop_labels_def)
  have l2: "L @ [?c, ?d] = stop_map_layers hv routes"
    unfolding L_def assms(2) by (simp add: stop_map_layers_def stop_labels_def)
  have "distinct (map l_id (L @ [?c, ?d]))"
    using stop_map_ids_distinct [OF assms(1)] by (simp only: l2)
  then have nl: "l_id ?c \<notin> l_id ` set L" "l_id ?d \<notin> l_id ` set L" "l_id ?d \<noteq> l_id ?c" by auto
  let ?p1 = "pg\<lparr>pg_map := (pg_map pg)\<lparr>m_layers := L @ [?c]\<rparr>\<rparr>"
  have p1: "with_map (\<lambda>m. Done (addLayer ?c m)) pg = Done ?p1"
    using lay_Done [of ?c pg] nl by (simp add: layer_ids_def L_def)
  let ?m2 = "(pg_map pg)\<lparr>m_layers := stop_map_layers hv routes\<rparr>"
  let ?p2 = "pg\<lparr>pg_map := ?m2\<rparr>"
  have p2: "with_map (\<lambda>m. Done (addLayer ?d m)) ?p1 = Done ?p2"
    using lay_Done [of ?d ?p1] nl l2 by (simp add: layer_ids_def)
  have ids: "set (layer_ids ?m2) = set (map l_id (stop_map_layers hv routes))" by (simp add: layer_ids_def)
  have "getLayer ?m2 (vehicle_id (route_key r)) \<noteq> None \<and> getLayer ?m2 (label_id (route_key r)) \<noteq> None"
    if "hv" "r \<in> set routes" for r
    unfolding getLayer_None_iff ids stop_map_layer_ids using that by auto
  then have v: "hv \<Longrightarrow> fold listen_vehicle routes ?m2
      = ?m2\<lparr>m_listeners := concat (map vehicle_listeners routes)\<rparr>"
    using listen_vehicles_fold [of routes ?m2] assms(3) by simp
  show ?thesis
    using p1 p2 v assms(3)
    by (cases hv) (simp_all add: with_map_def listen_stops_fold stop_map_listeners_def)
qed

text \<open>The vehicles' statements.\<close>

definition vehicle_steps ::
  "canvas_env \<Rightarrow> map_route list \<Rightarrow> feature list option \<Rightarrow> stop_page \<Rightarrow> stop_page outcome" where
  "vehicle_steps cv routes vehicles =
     (case vehicles of
           None \<Rightarrow> Done
         | Some fs \<Rightarrow>
             run_steps
              [with_map (addSource (lit ''vehicles-src'') (CollectionData fs)),
               for_each (\<lambda>r. with_map (add_route_vehicles cv r)) routes,
               \<lambda>pg. Done (if any_pulse fs then pg\<lparr>pg_pulse := True\<rparr> else pg)])"

lemma load_vehicles:
  assumes "cv_context cv" and "route_keys_ok routes" and "\<not> pg_pulse pg"
    and "m_layers (pg_map pg) = osm_layer # map route_line routes @ stop_circles"
    and "m_sources (pg_map pg) (lit ''vehicles-src'') = None"
  shows "\<exists>I. vehicle_steps cv routes vehicles pg = Done (pg\<lparr>pg_map := (pg_map pg)\<lparr>
       m_sources := (case vehicles of None \<Rightarrow> m_sources (pg_map pg)
          | Some fs \<Rightarrow> (m_sources (pg_map pg))(lit ''vehicles-src'' \<mapsto> CollectionData fs)),
       m_images := I,
       m_layers := osm_layer # map route_line routes @ stop_circles
         @ (if vehicles \<noteq> None then concat (map route_vehicles routes) else [])\<rparr>,
       pg_pulse := (case vehicles of None \<Rightarrow> False | Some fs \<Rightarrow> any_pulse fs)\<rparr>)"
proof (cases vehicles)
  case None
  with assms(3,4) show ?thesis
    by (intro exI [of _ "m_images (pg_map pg)"]) (simp add: vehicle_steps_def)
next
  case (Some fs)
  let ?p1 = "pg\<lparr>pg_map := (pg_map pg)\<lparr>m_sources := (m_sources (pg_map pg))(lit ''vehicles-src'' \<mapsto> CollectionData fs)\<rparr>\<rparr>"
  have p1: "with_map (addSource (lit ''vehicles-src'') (CollectionData fs)) pg = Done ?p1"
    using assms(5) by (simp add: with_map_def addSource_def)
  have mid: "set ys \<inter> set xs = {}" if "distinct (xs @ ys @ zs)" for xs ys zs :: "jstring list"
    using that by auto
  have "map l_id (stop_map_layers True routes)
      = layer_ids (pg_map ?p1) @ map l_id (concat (map route_vehicles routes)) @ map l_id stop_labels"
    using assms(4) by (simp add: stop_map_layers_def layer_ids_def)
  with stop_map_ids_distinct [OF assms(2), of True] have
    "set (map l_id (concat (map route_vehicles routes))) \<inter> set (layer_ids (pg_map ?p1)) = {}"
    by (intro mid) (simp only:)
  from add_vehicles [OF assms(1,2) this] obtain I where
    "for_each (\<lambda>r. with_map (add_route_vehicles cv r)) routes ?p1 =
     Done (?p1\<lparr>pg_map := (pg_map ?p1)\<lparr>m_images := I,
        m_layers := m_layers (pg_map ?p1) @ concat (map route_vehicles routes)\<rparr>\<rparr>)" by blast
  with p1 Some assms(3,4) show ?thesis
    by (intro exI [of _ I]) (simp add: vehicle_steps_def)
qed

lemma stop_map_load_steps:
  "stop_map_load F env cv payload pg =
     and_then (run_steps
       [with_map (addSource (lit ''stops-src'') (stopsGeojson payload)),
        for_each (add_route_line (vehiclesGeojson F env payload \<noteq> None)) (sp_routes payload),
        with_map (\<lambda>m. Done (addLayer (stop_circles ! 0) m)),
        with_map (\<lambda>m. Done (addLayer (stop_circles ! Suc 0) m))] pg)
     (\<lambda>pg. and_then (vehicle_steps cv (sp_routes payload) (vehiclesGeojson F env payload) pg)
     (\<lambda>pg. run_steps
      [with_map (\<lambda>m. Done (addLayer (stop_labels ! 0) m)),
       with_map (\<lambda>m. Done (addLayer (stop_labels ! Suc 0) m)),
       \<lambda>pg. Done (pg\<lparr>pg_panel := Some (new_panel (sp_routes payload))\<rparr>),
       if \<not> vehiclesGeojson F env payload \<noteq> None then Done
         else with_map (\<lambda>m. Done (fold listen_vehicle (sp_routes payload) m)),
       with_map (\<lambda>m. Done (fold listen_stops stop_layer_ids m))] pg))"
proof -
  let ?v = "vehiclesGeojson F env payload" and ?rs = "sp_routes payload"
  let ?A = "[with_map (addSource (lit ''stops-src'') (stopsGeojson payload)),
        for_each (add_route_line (?v \<noteq> None)) ?rs,
        with_map (\<lambda>m. Done (addLayer (stop_circles ! 0) m)),
        with_map (\<lambda>m. Done (addLayer (stop_circles ! Suc 0) m))]"
  let ?C = "[with_map (\<lambda>m. Done (addLayer (stop_labels ! 0) m)),
       with_map (\<lambda>m. Done (addLayer (stop_labels ! Suc 0) m)),
       \<lambda>pg. Done (pg\<lparr>pg_panel := Some (new_panel ?rs)\<rparr>),
       if \<not> ?v \<noteq> None then Done else with_map (\<lambda>m. Done (fold listen_vehicle ?rs m)),
       with_map (\<lambda>m. Done (fold listen_stops stop_layer_ids m))]"
  have "stop_map_load F env cv payload pg = run_steps (?A @ vehicle_steps cv ?rs ?v # ?C) pg"
    by (simp add: stop_map_load_def Let_def stop_circles_def stop_labels_def vehicle_steps_def
        del: run_steps.simps)
  then show ?thesis by (simp only: run_steps_split)
qed

lemma load_lib:
  assumes "cv_context cv" and "route_keys_ok (sp_routes payload)"
  shows "\<exists>pg. stop_map_load F env cv payload new_stop_page = Done pg
     \<and> m_layers (pg_map pg) = stop_map_layers (sp_vehicles payload \<noteq> []) (sp_routes payload)
     \<and> m_listeners (pg_map pg) = stop_map_listeners (sp_vehicles payload \<noteq> []) (sp_routes payload)
     \<and> pg_routes pg = put_routes (sp_vehicles payload \<noteq> []) (sp_routes payload) Map.empty
     \<and> pg_panel pg = Some (new_panel (sp_routes payload)) \<and> pg_stops pg
     \<and> m_sources (pg_map pg) (lit ''stops-src'') = Some (stopsGeojson payload)
     \<and> m_sources (pg_map pg) (lit ''vehicles-src'') = map_option CollectionData (vehiclesGeojson F env payload)
     \<and> (\<forall>r \<in> set (sp_routes payload).
          m_sources (pg_map pg) (src_id (route_key r)) = Some (FeatureData (line_feature r)))
     \<and> m_sources (pg_map pg) (lit ''osm'') = m_sources (pg_map new_stop_page) (lit ''osm'')"
proof -
  let ?v = "vehiclesGeojson F env payload" and ?rs = "sp_routes payload"
  have hv: "?v \<noteq> None \<longleftrightarrow> sp_vehicles payload \<noteq> []" by (simp add: vehiclesGeojson_def)
  have n: "lit ''stops-src'' \<noteq> lit ''vehicles-src''" "lit ''osm'' \<noteq> lit ''vehicles-src''" by (simp_all add: lit_def)
  let ?p = "\<lambda>S. new_stop_page\<lparr>pg_map := (pg_map new_stop_page)\<lparr>m_sources := S,
          m_layers := osm_layer # map route_line ?rs @ stop_circles\<rparr>,
          pg_routes := put_routes (?v \<noteq> None) ?rs Map.empty\<rparr>"
  obtain S p1 where p1: "p1 = ?p S" and l: "run_steps
       [with_map (addSource (lit ''stops-src'') (stopsGeojson payload)),
        for_each (add_route_line (?v \<noteq> None)) ?rs,
        with_map (\<lambda>m. Done (addLayer (stop_circles ! 0) m)),
        with_map (\<lambda>m. Done (addLayer (stop_circles ! Suc 0) m))] new_stop_page = Done p1"
    and S: "S (lit ''stops-src'') = Some (stopsGeojson payload)" "S (lit ''vehicles-src'') = None"
      "\<forall>r \<in> set ?rs. S (src_id (route_key r)) = Some (FeatureData (line_feature r))"
      "S (lit ''osm'') = m_sources (pg_map new_stop_page) (lit ''osm'')"
    using load_lines [OF assms(2)] by metis
  have f1: "\<not> pg_pulse p1" "m_layers (pg_map p1) = osm_layer # map route_line ?rs @ stop_circles"
    "m_sources (pg_map p1) = S" "m_listeners (pg_map p1) = []" "pg_stops p1"
    "pg_routes p1 = put_routes (?v \<noteq> None) ?rs Map.empty"
    by (simp_all add: p1 new_stop_page_def) (simp add: new_page_map [unfolded new_stop_page_def, simplified])
  let ?S = "case ?v of None \<Rightarrow> S | Some fs \<Rightarrow> S(lit ''vehicles-src'' \<mapsto> CollectionData fs)"
  let ?L = "osm_layer # map route_line ?rs @ stop_circles
         @ (if ?v \<noteq> None then concat (map route_vehicles ?rs) else [])"
  obtain I p2 where p2: "p2 = p1\<lparr>pg_map := (pg_map p1)\<lparr>m_sources := ?S, m_images := I, m_layers := ?L\<rparr>,
       pg_pulse := (case ?v of None \<Rightarrow> False | Some fs \<Rightarrow> any_pulse fs)\<rparr>"
    and v: "vehicle_steps cv ?rs ?v p1 = Done p2"
    using load_vehicles [OF assms f1(1,2), of ?v] S(2) unfolding f1(3) by metis
  have f2: "m_layers (pg_map p2) = ?L" "m_listeners (pg_map p2) = []" by (simp_all add: p2 f1)
  have "stop_map_load F env cv payload new_stop_page =
      Done (p2\<lparr>pg_panel := Some (new_panel ?rs),
        pg_map := (pg_map p2)\<lparr>m_layers := stop_map_layers (?v \<noteq> None) ?rs,
           m_listeners := stop_map_listeners (?v \<noteq> None) ?rs\<rparr>\<rparr>)"
    unfolding stop_map_load_steps l and_then.simps v by (rule load_rest [OF assms(2) f2])
  then show ?thesis
    using S hv n f1 by (auto simp: p2 split: option.splits)
qed

end
