(* ===== verification/Plain_Stops.thy ===== *)
theory Plain_Stops
  imports Stop_Map
begin

text \<open>
  What the route, nearby and static maps share: stop features without a focus flag, and the
  listeners of a pair of stop layers.
\<close>

definition plain_stop_feature :: "map_stop \<Rightarrow> feature" where
  "plain_stop_feature s =
     point_feature [(''stop_id'', ms_stop_id s), (''stop_code'', stop_code s)] [] (ms_lon s) (ms_lat s)"

definition plainStopsGeojson :: "map_stop list \<Rightarrow> source" where
  "plainStopsGeojson stops = CollectionData (map plain_stop_feature stops)"

text \<open>\<open>click\<close> on both layers, then \<open>mouseenter\<close> on both, then \<open>mouseleave\<close> on both.\<close>

definition listen_pair :: "handler \<Rightarrow> jstring \<Rightarrow> jstring \<Rightarrow> style_map \<Rightarrow> style_map" where
  "listen_pair h a b m =
     on_layer ''mouseleave'' b CursorReset (on_layer ''mouseleave'' a CursorReset
       (on_layer ''mouseenter'' b CursorPointer (on_layer ''mouseenter'' a CursorPointer
         (on_layer ''click'' b h (on_layer ''click'' a h m)))))"

definition pair_listeners :: "handler \<Rightarrow> jstring \<Rightarrow> jstring \<Rightarrow> (string \<times> jstring \<times> handler) list" where
  "pair_listeners h a b =
     [(''click'', a, h), (''click'', b, h), (''mouseenter'', a, CursorPointer),
      (''mouseenter'', b, CursorPointer), (''mouseleave'', a, CursorReset), (''mouseleave'', b, CursorReset)]"

lemma listen_pair_eq: "listen_pair h a b m = m\<lparr>m_listeners := m_listeners m @ pair_listeners h a b\<rparr>"
  by (simp add: listen_pair_def on_layer_def pair_listeners_def)

text \<open>Statements that add layers to a map whose layers have other ids.\<close>

lemma fresh_layers:
  "distinct (layer_ids m @ map l_id ls) \<Longrightarrow>
   run_steps (map (\<lambda>l m. Done (addLayer l m)) ls) m = Done (m\<lparr>m_layers := m_layers m @ ls\<rparr>)"
proof (induction ls arbitrary: m)
  case Nil
  then show ?case by simp
next
  case (Cons l ls)
  let ?m = "m\<lparr>m_layers := m_layers m @ [l]\<rparr>"
  have "addLayer l m = ?m" using Cons.prems by (intro addLayer_fresh) auto
  moreover have "distinct (layer_ids ?m @ map l_id ls)" using Cons.prems by (auto simp: layer_ids_def)
  ultimately show ?case using Cons.IH [of ?m] by simp
qed

text \<open>Rules that run a block of statements one by one.\<close>

lemma step_source:
  "m_sources m i = None \<Longrightarrow> run_steps (addSource i s # fs) m =
     run_steps fs (m\<lparr>m_sources := (m_sources m)(i \<mapsto> s)\<rparr>)"
  by (simp add: addSource_def)

lemma step_Done: "run_steps ((\<lambda>m. Done (f m)) # fs) m = run_steps fs (f m)"
  by simp

lemma steps_end: "run_steps [] m = Done m"
  by simp

lemmas steps = step_source step_Done steps_end addLayer_fresh layer_ids_def

lemma osm_visible: "layer_visible osm_layer"
  by (simp add: osm_layer_def map_of_style_def createOsmRasterStyle_def layer_visible_def)

lemma plain_stop_text:
  "\<not> nullish (ms_stop_id s) \<Longrightarrow>
   eval (plain_stop_feature s) (ToString (Get ''stop_code'')) =
     JStr (to_str (if nullish (ms_code s) \<or> ms_code s = JStr [] then ms_stop_id s else ms_code s))"
  unfolding plain_stop_feature_def using stop_label_text by simp

end
