(* ===== verification/Nearby_Map.thy ===== *)
theory Nearby_Map
  imports Plain_Stops Map_Geometry
begin

text \<open>
  \<open>static/js/nearby-map.js\<close> and \<open>static/js/static-stop-map.js\<close>: the maps of the stops around a
  position and of an aggregated set of stops.  The search circle, the query string, and the
  \<open>load\<close> handlers; the nearby one runs inside the callback of the marker image.
\<close>

section \<open>The search circle\<close>

definition circle_point :: "fpu \<Rightarrow> real \<Rightarrow> real \<Rightarrow> real \<Rightarrow> nat \<Rightarrow> nat \<Rightarrow> real \<times> real" where
  "circle_point F lon lat radiusMeters n i =
     (let ang = fmul F (fmul F (fdiv F (real i) (real n)) 2) (fpi F);
          dx = fdiv F (fdiv F (fmul F radiusMeters (fsin F ang)) 111320)
                 (fcos F (fdiv F (fmul F lat (fpi F)) 180));
          dy = fdiv F (fmul F radiusMeters (fcos F ang)) 110540
      in (fadd F lon dx, fadd F lat dy))"

definition roughCirclePolygon :: "fpu \<Rightarrow> real \<Rightarrow> real \<Rightarrow> real \<Rightarrow> nat \<Rightarrow> feature" where
  "roughCirclePolygon F lon lat radiusMeters steps =
     (let n = (if steps = 0 then 64 else steps);
          ring = map (circle_point F lon lat radiusMeters n) [0..<Suc n]
      in \<lparr>f_geometry = Some (Polygon [ring]), f_props = [], f_nums = []\<rparr>)"

section \<open>The request\<close>

text \<open>
  \<open>URLSearchParams\<close> serializes the texts of two numbers, which are ASCII: letters, digits and
  \<open>* - . _\<close> stay, a space is \<open>+\<close>, anything else is percent-encoded.
\<close>

definition form_unit :: "16 word \<Rightarrow> jstring" where
  "form_unit u =
     (if uri_unreserved u \<and> u \<notin> set (lit ''!~()'') \<and> u \<noteq> 39 \<or> u \<in> set (lit ''*-._'') then [u]
      else if u = 32 then lit ''+'' else pct (unat u))"

definition nearby_url :: "jstring \<Rightarrow> jstring \<Rightarrow> jstring" where
  "nearby_url latitude longitude =
     lit ''/api/v1/map/stop/nearby?latitude='' @ concat (map form_unit latitude)
       @ lit ''&longitude='' @ concat (map form_unit longitude)"

section \<open>The nearby map\<close>

record nearby_payload =
  nb_user_lon :: real
  nb_user_lat :: real
  nb_radius_meters :: real
  nb_stops :: "map_stop list"

definition new_map :: style_map where
  "new_map = addDefaultMapControls True (map_of_style (createOsmRasterStyle None))"

definition user_point :: "nearby_payload \<Rightarrow> source" where
  "user_point payload = CollectionData [point_feature [] [] (nb_user_lon payload) (nb_user_lat payload)]"

definition radius_fill :: layer where
  "radius_fill = \<lparr>l_id = lit ''search-radius'', l_type = ''fill'', l_source = lit ''radius-src'',
     l_minzoom = None, l_filter = None, l_layout = [],
     l_paint = [(''fill-color'', PStr (lit ''#2563eb'')), (''fill-opacity'', PNum 0.08)]\<rparr>"

definition radius_outline :: layer where
  "radius_outline = \<lparr>l_id = lit ''search-radius-outline'', l_type = ''line'', l_source = lit ''radius-src'',
     l_minzoom = None, l_filter = None, l_layout = [],
     l_paint = [(''line-color'', PStr (lit ''#2563eb'')), (''line-width'', PNum 2),
                (''line-opacity'', PNum 0.35)]\<rparr>"

definition user_icon :: layer where
  "user_icon = \<lparr>l_id = lit ''user-loc'', l_type = ''symbol'', l_source = lit ''user-src'',
     l_minzoom = None, l_filter = None,
     l_layout = [(''icon-image'', PStr MONO_MARKER_IMAGE_ID), (''icon-size'', PNum 0.48),
                 (''icon-anchor'', PStr (lit ''bottom'')), (''icon-allow-overlap'', PBool True)],
     l_paint = []\<rparr>"

definition user_dot :: layer where
  "user_dot = \<lparr>l_id = lit ''user-loc'', l_type = ''circle'', l_source = lit ''user-src'',
     l_minzoom = None, l_filter = None, l_layout = [],
     l_paint = [(''circle-radius'', PNum 9), (''circle-color'', PStr (lit ''#dc2626'')),
                (''circle-stroke-width'', PNum 2), (''circle-stroke-color'', PStr (lit ''#ffffff''))]\<rparr>"

text \<open>The callback of \<open>loadMonoMarkerImage\<close>.\<close>

definition nearby_on_marker :: "fpu \<Rightarrow> nearby_payload \<Rightarrow> bool \<Rightarrow> style_map \<Rightarrow> style_map outcome" where
  "nearby_on_marker F payload monoOk =
     run_steps
      [addSource (lit ''radius-src'') (FeatureData
         (roughCirclePolygon F (nb_user_lon payload) (nb_user_lat payload) (nb_radius_meters payload) 64)),
       \<lambda>m. Done (addLayer radius_fill m),
       \<lambda>m. Done (addLayer radius_outline m),
       addSource (lit ''user-src'') (user_point payload),
       \<lambda>m. Done (addLayer (if monoOk \<and> hasImage m MONO_MARKER_IMAGE_ID then user_icon else user_dot) m),
       addSource (lit ''stops-src'') (plainStopsGeojson (nb_stops payload)),
       \<lambda>m. Done (addLayer (circle_layer (lit ''stops-nearby'') None 6 ''#ffffff'' 2 ''#333333'') m),
       \<lambda>m. Done (addLayer (stop_label_layer (lit ''stops-labels-nearby'') None) m),
       \<lambda>m. Done (listen_pair PlainStopPopup (lit ''stops-nearby'') (lit ''stops-labels-nearby'') m)]"

definition nearby_map_load :: "fpu \<Rightarrow> raster_env \<Rightarrow> nearby_payload \<Rightarrow> style_map \<Rightarrow> style_map outcome" where
  "nearby_map_load F env payload = loadMonoMarkerImage env (nearby_on_marker F payload)"

section \<open>The static map\<close>

definition static_stop_map_url :: "jstring \<Rightarrow> jstring option" where
  "static_stop_map_url mapType =
     map_option (\<lambda>e. lit ''/api/v1/map/stop/aggregated/'' @ e) (encodeURIComponent mapType)"

definition static_stop_map_load :: "map_stop list \<Rightarrow> style_map \<Rightarrow> style_map outcome" where
  "static_stop_map_load stops =
     run_steps
      [addSource (lit ''stops-src'') (plainStopsGeojson stops),
       \<lambda>m. Done (addLayer (circle_layer (lit ''stops-static'') None 5 ''#2563eb'' 1 ''#ffffff'') m),
       \<lambda>m. Done (addLayer (stop_label_layer (lit ''stops-labels-static'') None) m),
       \<lambda>m. Done (listen_pair PlainStopPopup (lit ''stops-static'') (lit ''stops-labels-static'') m)]"

section \<open>Loading the maps\<close>

lemma new_map: "m_layers new_map = [osm_layer]" "m_listeners new_map = []" "m_images new_map = Map.empty"
  "m_sources new_map = [lit ''osm'' \<mapsto> RasterTiles [lit ''https://tile.openstreetmap.org/{z}/{x}/{y}.png'']]"
  by (simp_all add: new_map_def osm_layer_def map_of_style_def createOsmRasterStyle_def
      empty_map_def addDefaultMapControls_def addControl_def)

lemma small_layers [simp]:
  "l_id radius_fill = lit ''search-radius''" "l_id radius_outline = lit ''search-radius-outline''"
  "l_id user_icon = lit ''user-loc''" "l_id user_dot = lit ''user-loc''"
  "l_source radius_fill = lit ''radius-src''" "l_source radius_outline = lit ''radius-src''"
  "l_source user_icon = lit ''user-src''" "l_source user_dot = lit ''user-src''"
  by (simp_all add: radius_fill_def radius_outline_def user_icon_def user_dot_def)

definition nearby_layers :: "bool \<Rightarrow> layer list" where
  "nearby_layers icon = [osm_layer, radius_fill, radius_outline, if icon then user_icon else user_dot,
     circle_layer (lit ''stops-nearby'') None 6 ''#ffffff'' 2 ''#333333'',
     stop_label_layer (lit ''stops-labels-nearby'') None]"

lemma nearby_on_marker_Done:
  assumes "m_layers m = [osm_layer]" and "m_sources m = m_sources new_map" and "m_listeners m = []"
  shows "nearby_on_marker F payload ok m =
    Done (m\<lparr>m_layers := nearby_layers (ok \<and> hasImage m MONO_MARKER_IMAGE_ID),
       m_sources := (m_sources new_map)
        (lit ''radius-src'' \<mapsto> FeatureData
          (roughCirclePolygon F (nb_user_lon payload) (nb_user_lat payload) (nb_radius_meters payload) 64),
         lit ''user-src'' \<mapsto> user_point payload, lit ''stops-src'' \<mapsto> plainStopsGeojson (nb_stops payload)),
       m_listeners := pair_listeners PlainStopPopup (lit ''stops-nearby'') (lit ''stops-labels-nearby'')\<rparr>)"
proof -
  have img: "hasImage (m\<lparr>m_layers := L, m_sources := S\<rparr>) k = hasImage m k" for L S k
    by (simp add: hasImage_def)
  have "l_id (if b then user_icon else user_dot) = lit ''user-loc''" for b by simp
  then show ?thesis
    by (simp add: nearby_on_marker_def steps assms new_map lit_eq_iff new_page_map(2) listen_pair_eq
        nearby_layers_def img del: run_steps.simps)
qed

lemma nearby_load_lib:
  "\<exists>m. nearby_map_load F env payload new_map = Done m
     \<and> m_layers m = nearby_layers (hasImage m MONO_MARKER_IMAGE_ID)
     \<and> m_sources m = (m_sources new_map)
        (lit ''radius-src'' \<mapsto> FeatureData
          (roughCirclePolygon F (nb_user_lon payload) (nb_user_lat payload) (nb_radius_meters payload) 64),
         lit ''user-src'' \<mapsto> user_point payload, lit ''stops-src'' \<mapsto> plainStopsGeojson (nb_stops payload))
     \<and> m_listeners m = pair_listeners PlainStopPopup (lit ''stops-nearby'') (lit ''stops-labels-nearby'')
     \<and> m_images m = m_images (snd (marker_loaded env new_map)) \<and> m_glyphs m = m_glyphs new_map"
proof -
  let ?d = "nearby_on_marker F payload" and ?n = "snd (marker_loaded env new_map)"
  have "returned (?d ok new_map)" "returned (?d ok (addImage MONO_MARKER_IMAGE_ID img new_map))" for ok img
    using nearby_on_marker_Done [of new_map]
      nearby_on_marker_Done [of "addImage MONO_MARKER_IMAGE_ID img new_map"]
    by (simp_all add: new_map addImage_def)
  from load_marker_at [OF this] have l: "nearby_map_load F env payload new_map
      = ?d (fst (marker_loaded env new_map)) ?n" unfolding nearby_map_load_def .
  have n: "m_layers ?n = [osm_layer]" "m_sources ?n = m_sources new_map" "m_listeners ?n = []"
    by (subst marker_loaded_frame, simp add: new_map)+
  have h: "hasImage (?n\<lparr>m_layers := L, m_sources := S, m_listeners := K\<rparr>) k = hasImage ?n k" for L S K k
    by (simp add: hasImage_def)
  show ?thesis
    unfolding l nearby_on_marker_Done [OF n] by (simp add: marker_loaded_image h)
qed

text \<open>The static map's handler has no path that throws.\<close>

lemma static_load_lib:
  "static_stop_map_load stops new_map = Done (new_map\<lparr>
     m_sources := (m_sources new_map)(lit ''stops-src'' \<mapsto> plainStopsGeojson stops),
     m_layers := [osm_layer, circle_layer (lit ''stops-static'') None 5 ''#2563eb'' 1 ''#ffffff'',
        stop_label_layer (lit ''stops-labels-static'') None],
     m_listeners := pair_listeners PlainStopPopup (lit ''stops-static'') (lit ''stops-labels-static'')\<rparr>)"
  by (simp add: static_stop_map_load_def steps new_map lit_eq_iff new_page_map(2) listen_pair_eq
      del: run_steps.simps)

section \<open>Properties\<close>

lemma circle_point_exact:
  "circle_point exact_fpu lon lat r n i =
     (lon + r * sin (real i / real n * 2 * pi) / 111320 / cos (lat * pi / 180),
      lat + r * cos (real i / real n * 2 * pi) / 110540)"
  by (simp add: circle_point_def Let_def fadd_def fmul_def fdiv_def)

lemma on_circle:
  assumes "\<bar>lat\<bar> < 90" and "(x, y) = circle_point exact_fpu lon lat r n i"
  shows "((x - lon) * 111320 * cos (lat * pi / 180))\<^sup>2 + ((y - lat) * 110540)\<^sup>2 = r\<^sup>2"
proof -
  let ?a = "real i / real n * 2 * pi"
  have l: "\<bar>lat * pi / 180\<bar> < pi / 2"
  proof -
    have "\<bar>lat\<bar> * pi < 90 * pi" using assms(1) by (intro mult_strict_right_mono) auto
    then show ?thesis by (simp add: abs_mult)
  qed
  then have "cos (lat * pi / 180) > 0" by (intro cos_gt_zero_pi) (auto simp: abs_less_iff)
  with assms(2) have "(x - lon) * 111320 * cos (lat * pi / 180) = r * sin ?a" "(y - lat) * 110540 = r * cos ?a"
    by (simp_all add: circle_point_exact)
  then have "((x - lon) * 111320 * cos (lat * pi / 180))\<^sup>2 + ((y - lat) * 110540)\<^sup>2
      = r\<^sup>2 * ((sin ?a)\<^sup>2 + (cos ?a)\<^sup>2)"
    by (simp only: power_mult_distrib distrib_left)
  then show ?thesis by simp
qed

lemma circle_closed:
  "0 < n \<Longrightarrow> circle_point exact_fpu lon lat r n n = circle_point exact_fpu lon lat r n 0"
  by (simp add: circle_point_exact)

text \<open>
  In exact arithmetic the search circle away from the poles is a closed ring of \<open>steps + 1\<close>
  vertices (65 when \<open>steps\<close> is 0) which all lie at the given distance from the centre, measured
  with 111320 metres per degree of longitude on the equator and 110540 per degree of latitude.
\<close>

theorem search_circle:
  assumes "\<bar>lat\<bar> < 90"
  shows "\<exists>ring. f_geometry (roughCirclePolygon exact_fpu lon lat r steps) = Some (Polygon [ring])
     \<and> length ring = (if steps = 0 then 65 else steps + 1) \<and> hd ring = last ring
     \<and> (\<forall>(x, y) \<in> set ring.
          ((x - lon) * 111320 * cos (lat * pi / 180))\<^sup>2 + ((y - lat) * 110540)\<^sup>2 = r\<^sup>2)"
proof -
  define n where "n = (if steps = 0 then 64 else steps)"
  have n: "0 < n" by (simp add: n_def)
  let ?ring = "map (circle_point exact_fpu lon lat r n) [0..<Suc n]"
  have "f_geometry (roughCirclePolygon exact_fpu lon lat r steps) = Some (Polygon [?ring])"
    by (simp add: roughCirclePolygon_def n_def del: upt.simps)
  moreover have "hd ?ring = last ?ring"
  proof -
    have "hd ?ring = circle_point exact_fpu lon lat r n 0" by (simp only: upt_conv_Cons zero_less_Suc list.map list.sel)
    then show ?thesis using circle_closed [OF n] by simp
  qed
  moreover have "\<forall>(x, y) \<in> set ?ring.
      ((x - lon) * 111320 * cos (lat * pi / 180))\<^sup>2 + ((y - lat) * 110540)\<^sup>2 = r\<^sup>2"
  proof (rule ballI)
    fix p
    assume "p \<in> set ?ring"
    then obtain i where "p = circle_point exact_fpu lon lat r n i" by (auto simp del: upt.simps)
    then show "case p of (x, y) \<Rightarrow>
      ((x - lon) * 111320 * cos (lat * pi / 180))\<^sup>2 + ((y - lat) * 110540)\<^sup>2 = r\<^sup>2"
      using on_circle [OF assms, of "fst p" "snd p"] by (simp add: case_prod_beta del: right_diff_distrib_numeral left_diff_distrib_numeral)
  qed
  moreover have "length ?ring = (if steps = 0 then 65 else steps + 1)"
    by (simp add: n_def del: upt.simps)
  ultimately show ?thesis by blast
qed

lemma search_circle_witness:
  "\<exists>ring. f_geometry (roughCirclePolygon exact_fpu (- 6) 53 1000 64) = Some (Polygon [ring])
     \<and> length ring = 65 \<and> hd ring = last ring"
  using search_circle [of 53 "- 6" 1000 64] by auto

text \<open>
  Whatever happens to the marker image (it decodes, only the fetch fallback gives it, or it
  cannot be had at all), the nearby map ends up complete: the load handler returns with the
  search circle, its outline, the user's position, the stops and their labels in this order, all on
  sources that hold the payload's data.  The user's position is the marker when the map has the
  image and a red dot otherwise.
\<close>

theorem nearby_map_loaded:
  shows "\<exists>m. nearby_map_load F env payload new_map = Done m
     \<and> layer_ids m = map lit [''osm'', ''search-radius'', ''search-radius-outline'', ''user-loc'',
          ''stops-nearby'', ''stops-labels-nearby'']
     \<and> getLayer m (lit ''user-loc'') = Some (if hasImage m MONO_MARKER_IMAGE_ID then user_icon else user_dot)
     \<and> m_sources m (lit ''radius-src'') = Some (FeatureData
          (roughCirclePolygon F (nb_user_lon payload) (nb_user_lat payload) (nb_radius_meters payload) 64))
     \<and> m_sources m (lit ''user-src'') = Some (user_point payload)
     \<and> m_sources m (lit ''stops-src'') = Some (plainStopsGeojson (nb_stops payload))
     \<and> (re_context env \<and> \<not> re_draw_throws env \<and> re_img_loads env \<longrightarrow> hasImage m MONO_MARKER_IMAGE_ID)"
proof -
  obtain m where l: "nearby_map_load F env payload new_map = Done m"
    "m_layers m = nearby_layers (hasImage m MONO_MARKER_IMAGE_ID)"
    "m_sources m = (m_sources new_map)
        (lit ''radius-src'' \<mapsto> FeatureData
          (roughCirclePolygon F (nb_user_lon payload) (nb_user_lat payload) (nb_radius_meters payload) 64),
         lit ''user-src'' \<mapsto> user_point payload, lit ''stops-src'' \<mapsto> plainStopsGeojson (nb_stops payload))"
    "m_images m = m_images (snd (marker_loaded env new_map))"
    using nearby_load_lib [of F env payload] by blast
  have "hasImage m MONO_MARKER_IMAGE_ID = hasImage (snd (marker_loaded env new_map)) MONO_MARKER_IMAGE_ID"
    using l(4) by (simp add: hasImage_def)
  moreover have "re_context env \<and> \<not> re_draw_throws env \<and> re_img_loads env \<longrightarrow> fst (marker_loaded env new_map)"
    by (simp add: marker_loaded_def marker_bitmap_def)
  ultimately show ?thesis
    using l(1-3) marker_loaded_image [of env new_map]
    by (intro exI [of _ m])
      (simp add: layer_ids_def nearby_layers_def getLayer_def new_page_map(2) lit_eq_iff)
qed

lemma nearby_map_loaded_witness:
  "\<exists>m. nearby_map_load exact_fpu \<lparr>re_img_loads = True, re_has_fetch = True, re_fetch = HttpOk (),
       re_blob_loads = True, re_context = True, re_draw_throws = False\<rparr>
       \<lparr>nb_user_lon = - 6, nb_user_lat = 53, nb_radius_meters = 1000, nb_stops = []\<rparr> new_map = Done m
     \<and> getLayer m (lit ''user-loc'') = Some user_icon"
proof -
  let ?env = "\<lparr>re_img_loads = True, re_has_fetch = True, re_fetch = HttpOk (),
       re_blob_loads = True, re_context = True, re_draw_throws = False\<rparr>"
  show ?thesis
    using nearby_map_loaded [of exact_fpu ?env
      "\<lparr>nb_user_lon = - 6, nb_user_lat = 53, nb_radius_meters = 1000, nb_stops = []\<rparr>"] by auto
qed

end
