(* ===== verification/Stop_Layers.thy ===== *)
theory Stop_Layers
  imports Stop_Map
begin

text \<open>
  What the loaded stop map shows: which layers draw which stop and which vehicle, in which order,
  and what happens when a route occurs twice.
\<close>

section \<open>An example payload\<close>

definition sample_route :: "string \<Rightarrow> string \<Rightarrow> map_route" where
  "sample_route i c = \<lparr>mr_route_id = JStr (lit i), mr_short_name = JStr (lit i), mr_color = JStr (lit c),
     mr_line = Some [(0, 0), (1, 1)]\<rparr>"

definition sample_vehicle :: map_vehicle where
  "sample_vehicle = \<lparr>mv_vehicle_id = JStr (lit ''v1''), mv_trip_id = JStr (lit ''t1''),
     mv_route_id = JStr (lit ''46A''), mv_color = JStr (lit ''#e6194b''),
     mv_route_short_name = JStr (lit ''46A''), mv_agency_name = JStr (lit ''Dublin Bus''),
     mv_time_of_update = JNull, mv_lon = 0, mv_lat = 0\<rparr>"

definition sample_payload :: stop_map_payload where
  "sample_payload = \<lparr>sp_direction = JInt 0,
     sp_stops = [\<lparr>ms_stop_id = JStr (lit ''s1''), ms_code = JStr (lit ''1234''),
        ms_name = JStr (lit ''Main Street''), ms_lon = 0, ms_lat = 0, ms_is_focus = JBool True\<rparr>],
     sp_routes = [sample_route ''46A'' ''#e6194b'', sample_route ''145'' ''#3cb44b''],
     sp_vehicles = [sample_vehicle]\<rparr>"

lemma sample_routes_ok: "route_keys_ok (sp_routes sample_payload)"
  by (simp add: route_keys_ok_def sample_payload_def sample_route_def route_key_def lit_def)

section \<open>Which layers draw a feature\<close>

lemma draws_focus:
  "ms_is_focus s \<noteq> JUndef \<Longrightarrow> l_filter l = Some (is_focus b) \<Longrightarrow>
   draws l (focus_stop_feature s) \<longleftrightarrow> ms_is_focus s = JBool b"
  by (simp add: draws_def is_focus_def get_prop_def focus_stop_feature_def point_feature_def)

lemma vehicle_draws:
  assumes "mv_route_id v \<noteq> JUndef"
  shows "filter (\<lambda>l. draws l (vehicle_feature env d h v)) (route_vehicles r) =
     (if mr_route_id r \<noteq> mv_route_id v then []
      else if vehiclePulseIsActive env (mv_time_of_update v) then route_vehicles r
      else tl (route_vehicles r))"
proof (cases "mr_route_id r = JUndef")
  case True
  with assms show ?thesis
    by (simp add: route_vehicles_def draws_def vehicle_layer_def vehicle_label_layer_def
        vehicle_pulse_layer_def of_route_def pulse_active_of_def get_vehicle_route)
next
  case False
  from vehicle_drawn [OF assms this] show ?thesis by (auto simp: route_vehicles_def)
qed

lemma layer_sources:
  "l_source osm_layer = lit ''osm''" "l_source (route_line r) = src_id (route_key r)"
  "l \<in> set stop_circles \<Longrightarrow> l_source l = lit ''stops-src''"
  "l \<in> set stop_labels \<Longrightarrow> l_source l = lit ''stops-src''"
  "l \<in> set (route_vehicles r) \<Longrightarrow> l_source l = lit ''vehicles-src''"
  by (auto simp: osm_layer_def map_of_style_def createOsmRasterStyle_def route_line_def line_layer_def
      stop_circles_def circle_layer_def stop_labels_def stop_label_layer_def route_vehicles_def
      vehicle_pulse_layer_def vehicle_layer_def vehicle_label_layer_def)

lemma source_names:
  "lit ''osm'' \<noteq> lit ''stops-src''" "lit ''osm'' \<noteq> lit ''vehicles-src''"
  "lit ''stops-src'' \<noteq> lit ''vehicles-src''" "lit ''vehicles-src'' \<noteq> lit ''stops-src''"
  by (simp_all add: lit_def)

text \<open>The layers on a source, from the bottom up.\<close>

lemma layers_of_stops:
  "filter (\<lambda>l. l_source l = lit ''stops-src'') (stop_map_layers hv routes) = stop_circles @ stop_labels"
proof -
  let ?P = "\<lambda>l. l_source l = lit ''stops-src''"
  have "filter ?P (map route_line routes) = []"
    by (simp add: filter_empty_conv layer_sources)
  moreover have "filter ?P (concat (map route_vehicles routes)) = []"
    by (auto simp: filter_empty_conv layer_sources source_names)
  moreover have "filter ?P stop_circles = stop_circles" "filter ?P stop_labels = stop_labels"
    by (simp_all add: filter_id_conv layer_sources)
  ultimately show ?thesis
    by (simp add: stop_map_layers_def layer_sources source_names)
qed

lemma layers_of_vehicles:
  "filter (\<lambda>l. l_source l = lit ''vehicles-src'') (stop_map_layers True routes)
     = concat (map route_vehicles routes)"
proof -
  let ?P = "\<lambda>l. l_source l = lit ''vehicles-src''"
  have "filter ?P (map route_line routes) = []"
    by (simp add: filter_empty_conv layer_sources)
  moreover have "filter ?P (concat (map route_vehicles routes)) = concat (map route_vehicles routes)"
    by (auto simp: filter_id_conv layer_sources)
  moreover have "filter ?P stop_circles = []" "filter ?P stop_labels = []"
    by (auto simp: filter_empty_conv layer_sources source_names)
  ultimately show ?thesis
    by (simp add: stop_map_layers_def layer_sources source_names)
qed

lemma filter_both: "filter (\<lambda>x. P x \<and> Q x) xs = filter Q (filter P xs)"
  by (simp add: conj_commute)

lemma concat_filter:
  "concat (map (\<lambda>r. if P r then [] else f r) rs) = concat (map f (filter (\<lambda>r. \<not> P r) rs))"
  by (induction rs) auto

section \<open>Properties\<close>

text \<open>
  C12: The load handler of the stop map returns, whatever stops, routes and vehicles the payload has
  (for routes whose ids do not collide), and leaves the layers in exactly this paint order: base
  map, one line per route, the two circle layers of the stops, per route the pulse, the vehicle and
  its label (only when there are vehicles), and the labels of the stops on top; no layer id occurs
  twice.  The sources hold the payload's stops, lines and vehicles, and every listener is bound to
  a layer that exists.
\<close>

theorem stop_map_loaded:
  assumes "cv_context cv" and "route_keys_ok (sp_routes payload)"
  shows "\<exists>pg. stop_map_load F env cv payload new_stop_page = Done pg
     \<and> m_layers (pg_map pg) = osm_layer # map route_line (sp_routes payload) @ stop_circles
          @ (if sp_vehicles payload = [] then [] else concat (map route_vehicles (sp_routes payload)))
          @ stop_labels
     \<and> distinct (layer_ids (pg_map pg))
     \<and> m_sources (pg_map pg) (lit ''stops-src'') = Some (stopsGeojson payload)
     \<and> m_sources (pg_map pg) (lit ''vehicles-src'') = map_option CollectionData (vehiclesGeojson F env payload)
     \<and> (\<forall>r \<in> set (sp_routes payload).
          m_sources (pg_map pg) (src_id (route_key r)) = Some (FeatureData (line_feature r)))
     \<and> fst ` snd ` set (m_listeners (pg_map pg)) \<subseteq> set (layer_ids (pg_map pg))
     \<and> pg_panel pg = Some (new_panel (sp_routes payload))"
proof -
  let ?hv = "sp_vehicles payload \<noteq> []" and ?rs = "sp_routes payload"
  obtain pg where l: "stop_map_load F env cv payload new_stop_page = Done pg"
    "m_layers (pg_map pg) = stop_map_layers ?hv ?rs" "m_listeners (pg_map pg) = stop_map_listeners ?hv ?rs"
    "pg_panel pg = Some (new_panel ?rs)"
    "m_sources (pg_map pg) (lit ''stops-src'') = Some (stopsGeojson payload)"
    "m_sources (pg_map pg) (lit ''vehicles-src'') = map_option CollectionData (vehiclesGeojson F env payload)"
    "\<forall>r \<in> set ?rs. m_sources (pg_map pg) (src_id (route_key r)) = Some (FeatureData (line_feature r))"
    using load_lib [OF assms, of F env] by blast
  have ids: "layer_ids (pg_map pg) = map l_id (stop_map_layers ?hv ?rs)" by (simp add: layer_ids_def l(2))
  have "fst ` snd ` set (stop_map_listeners ?hv ?rs) \<subseteq> set (map l_id (stop_map_layers ?hv ?rs))"
    unfolding stop_map_layer_ids
    by (auto simp: stop_map_listeners_def vehicle_listeners_def stop_listeners_def stop_layer_ids_def Let_def)
  then show ?thesis
    using l stop_map_ids_distinct [OF assms(2), of ?hv]
    by (intro exI [of _ pg]) (simp add: ids stop_map_layers_def)
qed

lemma stop_map_loaded_witness:
  "\<exists>pg. stop_map_load exact_fpu \<lparr>now = 0, date_value = (\<lambda>v. None), date_local = (\<lambda>i. [])\<rparr>
      \<lparr>cv_context = True, cv_roundRect = False\<rparr> sample_payload new_stop_page = Done pg
   \<and> length (m_layers (pg_map pg)) = 13"
proof -
  have "cv_context \<lparr>cv_context = True, cv_roundRect = False\<rparr>" by simp
  from stop_map_loaded [OF this sample_routes_ok] show ?thesis
    by (rule exE [of _ ?thesis]) (auto simp: sample_payload_def stop_circles_def stop_labels_def route_vehicles_def)
qed

text \<open>
  C17: On the loaded stop map every vehicle whose route the payload lists is drawn by that route's
  chevron layer and label layer and, exactly while its last update is fresh, by the route's pulse
  layer, which lies below; no other layer draws it.  A vehicle of a route that the payload does not
  list is not drawn at all.
\<close>

theorem vehicle_drawn_by_its_route:
  assumes "cv_context cv" and "route_keys_ok (sp_routes payload)"
    and "stop_map_load F env cv payload new_stop_page = Done pg"
    and "v \<in> set (sp_vehicles payload)" and "mv_route_id v \<noteq> JUndef"
    and "f = vehicle_feature env (sp_direction payload) (vehicle_heading F (sp_routes payload) v) v"
  shows "(\<exists>fs. m_sources (pg_map pg) (lit ''vehicles-src'') = Some (CollectionData fs) \<and> f \<in> set fs)
     \<and> filter (\<lambda>l. l_source l = lit ''vehicles-src'' \<and> draws l f) (m_layers (pg_map pg))
       = concat (map (\<lambda>r. if vehiclePulseIsActive env (mv_time_of_update v) then route_vehicles r
                          else tl (route_vehicles r))
           (filter (\<lambda>r. mr_route_id r = mv_route_id v) (sp_routes payload)))"
proof -
  from assms(4) have hv: "(sp_vehicles payload \<noteq> []) = True" by auto
  from load_lib [OF assms(1,2), of F env] assms(3)
  have l: "m_layers (pg_map pg) = stop_map_layers True (sp_routes payload)"
    "m_sources (pg_map pg) (lit ''vehicles-src'') = map_option CollectionData (vehiclesGeojson F env payload)"
    unfolding hv by auto
  have "filter (\<lambda>l. draws l f) (concat (map route_vehicles rs)) =
     concat (map (\<lambda>r. if vehiclePulseIsActive env (mv_time_of_update v) then route_vehicles r
                          else tl (route_vehicles r)) (filter (\<lambda>r. mr_route_id r = mv_route_id v) rs))" for rs
    by (induction rs) (simp_all add: assms(6) vehicle_draws [OF assms(5)])
  moreover have "m_sources (pg_map pg) (lit ''vehicles-src'') = Some (CollectionData
      (map (\<lambda>v. vehicle_feature env (sp_direction payload) (vehicle_heading F (sp_routes payload) v) v)
         (sp_vehicles payload)))"
    using l(2) hv by (simp add: vehiclesGeojson_def)
  ultimately show ?thesis
    using assms(4,6) by (simp add: filter_both l(1) layers_of_vehicles)
qed

lemma vehicle_drawn_by_its_route_witness:
  "let env = \<lparr>now = 0, date_value = (\<lambda>v. None), date_local = (\<lambda>i. [])\<rparr>;
       pg = state_of (stop_map_load exact_fpu env \<lparr>cv_context = True, cv_roundRect = False\<rparr>
              sample_payload new_stop_page);
       f = vehicle_feature env (JInt 0) (vehicle_heading exact_fpu (sp_routes sample_payload) sample_vehicle)
             sample_vehicle
   in filter (\<lambda>l. l_source l = lit ''vehicles-src'' \<and> draws l f) (m_layers (pg_map pg))
        = tl (route_vehicles (sample_route ''46A'' ''#e6194b''))"
proof -
  let ?env = "\<lparr>now = 0, date_value = (\<lambda>v. None), date_local = (\<lambda>i. [])\<rparr>"
  let ?cv = "\<lparr>cv_context = True, cv_roundRect = False\<rparr>"
  let ?pg = "state_of (stop_map_load exact_fpu ?env ?cv sample_payload new_stop_page)"
  have cv: "cv_context ?cv" by simp
  from load_lib [OF this sample_routes_ok] have d:
    "stop_map_load exact_fpu ?env ?cv sample_payload new_stop_page = Done ?pg" by (metis state_of.simps(1))
  have v: "sample_vehicle \<in> set (sp_vehicles sample_payload)" "mv_route_id sample_vehicle \<noteq> JUndef"
    by (simp_all add: sample_payload_def sample_vehicle_def)
  have r: "filter (\<lambda>r. mr_route_id r = mv_route_id sample_vehicle) (sp_routes sample_payload)
      = [sample_route ''46A'' ''#e6194b'']"
    by (simp add: sample_payload_def sample_vehicle_def sample_route_def lit_def)
  have p: "\<not> vehiclePulseIsActive ?env (mv_time_of_update sample_vehicle)" "sp_direction sample_payload = JInt 0"
    by (simp_all add: vehiclePulseIsActive_def sample_vehicle_def sample_payload_def)
  show ?thesis
    using vehicle_drawn_by_its_route [OF cv sample_routes_ok d v refl] r p by (simp add: Let_def)
qed

text \<open>
  On the loaded stop map a stop is drawn by exactly one circle and, above all vehicles, one
  label: the blue circle and label of the focus layers when it is the page's own stop, the white
  ones otherwise.  The label reads the stop's code, or its id when the code is missing or empty.
\<close>

theorem stop_drawn_once:
  assumes "cv_context cv" and "route_keys_ok (sp_routes payload)"
    and "stop_map_load F env cv payload new_stop_page = Done pg"
    and "s \<in> set (sp_stops payload)" and "ms_is_focus s = JBool b" and "\<not> nullish (ms_stop_id s)"
  shows "\<exists>fs f. m_sources (pg_map pg) (lit ''stops-src'') = Some (CollectionData fs) \<and> f \<in> set fs
     \<and> f_geometry f = Some (Point (ms_lon s) (ms_lat s))
     \<and> filter (\<lambda>l. l_source l = lit ''stops-src'' \<and> draws l f) (m_layers (pg_map pg))
         = (if b then [stop_circles ! 1, stop_labels ! 0] else [stop_circles ! 0, stop_labels ! 1])
     \<and> eval f (ToString (Get ''stop_code'')) =
         JStr (to_str (if nullish (ms_code s) \<or> ms_code s = JStr [] then ms_stop_id s else ms_code s))"
proof -
  let ?f = "focus_stop_feature s"
  from load_lib [OF assms(1,2), of F env] assms(3)
  have l: "m_layers (pg_map pg) = stop_map_layers (sp_vehicles payload \<noteq> []) (sp_routes payload)"
    "m_sources (pg_map pg) (lit ''stops-src'') = Some (stopsGeojson payload)" by auto
  have d: "draws x ?f \<longleftrightarrow> b = c" if "l_filter x = Some (is_focus c)" for x c
    using draws_focus [of s x c] that assms(5) by simp
  have "filter (\<lambda>l. draws l ?f) (stop_circles @ stop_labels)
      = (if b then [stop_circles ! 1, stop_labels ! 0] else [stop_circles ! 0, stop_labels ! 1])"
    by (simp add: stop_circles_def stop_labels_def circle_layer_def stop_label_layer_def
        d [of _ True] d [of _ False])
  moreover have "eval ?f (ToString (Get ''stop_code'')) =
         JStr (to_str (if nullish (ms_code s) \<or> ms_code s = JStr [] then ms_stop_id s else ms_code s))"
    unfolding focus_stop_feature_def using stop_label_text [OF _ assms(6)] by simp
  ultimately show ?thesis
    using assms(4) l
    by (intro exI [of _ "map focus_stop_feature (sp_stops payload)"] exI [of _ ?f])
      (simp add: filter_both layers_of_stops stopsGeojson_def, simp add: focus_stop_feature_def point_feature_def)
qed

lemma stop_drawn_once_witness:
  "let env = \<lparr>now = 0, date_value = (\<lambda>v. None), date_local = (\<lambda>i. [])\<rparr>;
       pg = state_of (stop_map_load exact_fpu env \<lparr>cv_context = True, cv_roundRect = False\<rparr>
              sample_payload new_stop_page)
   in \<exists>fs f. m_sources (pg_map pg) (lit ''stops-src'') = Some (CollectionData fs) \<and> f \<in> set fs
        \<and> filter (\<lambda>l. l_source l = lit ''stops-src'' \<and> draws l f) (m_layers (pg_map pg))
            = [stop_circles ! 1, stop_labels ! 0]"
proof -
  let ?env = "\<lparr>now = 0, date_value = (\<lambda>v. None), date_local = (\<lambda>i. [])\<rparr>"
  let ?cv = "\<lparr>cv_context = True, cv_roundRect = False\<rparr>"
  let ?pg = "state_of (stop_map_load exact_fpu ?env ?cv sample_payload new_stop_page)"
  have cv: "cv_context ?cv" by simp
  from load_lib [OF this sample_routes_ok] have d:
    "stop_map_load exact_fpu ?env ?cv sample_payload new_stop_page = Done ?pg" by (metis state_of.simps(1))
  have s: "hd (sp_stops sample_payload) \<in> set (sp_stops sample_payload)"
    "ms_is_focus (hd (sp_stops sample_payload)) = JBool True"
    "\<not> nullish (ms_stop_id (hd (sp_stops sample_payload)))"
    by (simp_all add: sample_payload_def nullish_def)
  show ?thesis
    using stop_drawn_once [OF cv sample_routes_ok d s] by (auto simp: Let_def)
qed

text \<open>
  When two routes of the payload have the same id, the load handler throws at the second one's
  \<open>addSource\<close>; the statements after the routes never run.
\<close>

lemma duplicate_route_aborts:
  assumes "\<not> distinct (map route_key (sp_routes payload))"
  shows "\<exists>pg. stop_map_load F env cv payload new_stop_page
       = Thrown (GenericError ''Source already exists.'') pg
     \<and> pg_panel pg = None \<and> m_listeners (pg_map pg) = []"
proof -
  let ?hv = "vehiclesGeojson F env payload \<noteq> None" and ?rs = "sp_routes payload"
  obtain xs r ys where rs: "?rs = xs @ r # ys" and d: "distinct (map route_key xs)"
    and r: "route_key r \<in> route_key ` set xs"
  proof -
    from assms obtain as b bs where 1: "map route_key ?rs = as @ b # bs" "distinct as" "b \<in> set as"
      using not_distinct_conv_prefix by metis
    from 1(1) obtain xs qs where 2: "?rs = xs @ qs" "map route_key xs = as" "map route_key qs = b # bs"
      by (auto simp: map_eq_append_conv)
    from 2(3) obtain r ys where 3: "qs = r # ys" "route_key r = b" by auto
    show ?thesis by (rule that [of xs r ys]) (use 1 2 3 in auto)
  qed
  let ?m1 = "(pg_map new_stop_page)\<lparr>m_sources := (m_sources (pg_map new_stop_page))(lit ''stops-src'' \<mapsto> stopsGeojson payload)\<rparr>"
  let ?p1 = "new_stop_page\<lparr>pg_map := ?m1\<rparr>"
  let ?p2 = "?p1\<lparr>pg_map := put_lines xs ?m1, pg_routes := put_routes ?hv xs (pg_routes ?p1)\<rparr>"
  have p1: "with_map (addSource (lit ''stops-src'') (stopsGeojson payload)) new_stop_page = Done ?p1"
    using source_names by (simp add: with_map_def addSource_def new_page_map)
  have "for_each (add_route_line ?hv) xs ?p1 = Done ?p2"
    using add_lines [OF d, of ?p1 ?hv] by (simp add: layer_ids_def new_page_map fixed_not)
  moreover obtain q where "q \<in> set xs" "route_key r = route_key q" using r by blast
  then have "add_route_line ?hv r ?p2 = Thrown (GenericError ''Source already exists.'') ?p2"
    using put_lines_sources [OF d, of q ?m1]
    by (simp add: add_route_line_def with_map_def addSource_def)
  ultimately have l: "for_each (add_route_line ?hv) ?rs ?p1 = Thrown (GenericError ''Source already exists.'') ?p2"
    by (simp add: rs for_each_append)
  have "stop_map_load F env cv payload new_stop_page = Thrown (GenericError ''Source already exists.'') ?p2"
    unfolding stop_map_load_steps using p1 l by simp
  then show ?thesis
    by (intro exI [of _ ?p2]) (simp add: put_lines_def new_page_map, simp add: new_stop_page_def)
qed

end
