(* ===== verification/Panel_Machine.thy ===== *)
theory Panel_Machine
  imports Layer_Panel Event_Machine
begin

text \<open>
  The layer panels as machines.  The abstract panel is a list of boxes and the switch behind the
  toggle button; \<open>layer_panel\<close> is the contract of a page whose handlers follow the abstract panel
  and set the layers of the boxes that change.  Its lemmas say that the map mirrors the boxes
  after any sequence of events.
\<close>

section \<open>The abstract panel\<close>

record check_panel =
  cp_all :: bool
  cp_checks :: "bool list"

datatype check_event = SwitchAll | Flip nat

fun check_step :: "check_event \<Rightarrow> check_panel \<Rightarrow> check_panel" where
  "check_step SwitchAll c =
     \<lparr>cp_all = (\<not> cp_all c), cp_checks = replicate (length (cp_checks c)) (\<not> cp_all c)\<rparr>"
| "check_step (Flip i) c =
     (if i < length (cp_checks c) then c\<lparr>cp_checks := (cp_checks c)[i := \<not> cp_checks c ! i]\<rparr> else c)"

lemma check_step_length [simp]: "length (cp_checks (check_step e c)) = length (cp_checks c)"
  by (cases e) simp_all

section \<open>Groups of layers\<close>

lemma disjoint_groups_distinct: "distinct (concat gs) \<Longrightarrow> disjoint_groups gs"
proof -
  assume d: "distinct (concat gs)"
  have "set (gs ! i) \<inter> set (gs ! k) = {}" if "i < k" "k < length gs" for i k
  proof -
    from that have "gs = take k gs @ gs ! k # drop (Suc k) gs" by (simp add: id_take_nth_drop)
    then have "distinct (concat (take k gs) @ gs ! k @ concat (drop (Suc k) gs))"
      using d by (metis concat.simps(2) concat_append)
    moreover have "set (gs ! i) \<subseteq> set (concat (take k gs))"
      using that by (force simp: in_set_conv_nth)
    ultimately show ?thesis by auto
  qed
  then show ?thesis unfolding disjoint_groups_def by (metis inf_commute linorder_neqE_nat)
qed

lemma group_in_concat: "i < length gs \<Longrightarrow> set (gs ! i) \<subseteq> set (concat gs)"
  unfolding set_concat by (rule UN_upper) simp

section \<open>The map as the store\<close>

abbreviation on_map :: "style_map \<Rightarrow> jstring \<Rightarrow> bool" where
  "on_map m i \<equiv> i \<in> set (layer_ids m)"

lemma layer_shown_all:
  assumes "\<And>l. l \<in> set (m_layers m) \<Longrightarrow> layer_visible l" and "on_map m i"
  shows "layer_shown m i"
proof -
  from assms(2) obtain l where l: "getLayer m i = Some l" using getLayer_Some_iff by metis
  then have "l \<in> set (m_layers m)" by (auto simp: getLayer_def find_Some_iff in_set_conv_nth)
  with l assms(1) show ?thesis by (simp add: layer_shown_def)
qed

section \<open>The contract of a page's panel\<close>

locale layer_panel = layer_store has shown put
  for has :: "'m \<Rightarrow> 'i \<Rightarrow> bool" and shown :: "'m \<Rightarrow> 'i \<Rightarrow> bool" and put :: "'i \<Rightarrow> bool \<Rightarrow> 'm \<Rightarrow> 'm" +
  fixes gs :: "'i list list"
    and ok :: "'s \<Rightarrow> bool"
    and step :: "'e \<Rightarrow> 's \<Rightarrow> 's"
    and obs :: "'e \<Rightarrow> check_event"
    and store :: "'s \<Rightarrow> 'm"
    and boxes :: "'s \<Rightarrow> check_panel"
  assumes groups_disjoint: "disjoint_groups gs"
    and ok_step: "ok s \<Longrightarrow> ok (step e s)"
    and step_boxes: "ok s \<Longrightarrow> boxes (step e s) = check_step (obs e) (boxes s)"
    and step_all: "ok s \<Longrightarrow> obs e = SwitchAll \<Longrightarrow>
      store (step e s) = fold (\<lambda>i. put i (\<not> cp_all (boxes s))) (concat gs) (store s)"
    and step_flip: "ok s \<Longrightarrow> obs e = Flip k \<Longrightarrow> store (step e s) =
      (if k < length gs then fold (\<lambda>i. put i (\<not> cp_checks (boxes s) ! k)) (gs ! k) (store s) else store s)"
begin

definition in_step :: "'s \<Rightarrow> bool" where
  "in_step s \<longleftrightarrow> ok s \<and> mirrors has shown gs (cp_checks (boxes s)) (store s)"

lemma step_mirrors:
  assumes "in_step s"
  shows "in_step (step e s)"
proof -
  from assms have s: "ok s" and m: "mirrors has shown gs (cp_checks (boxes s)) (store s)"
    by (auto simp: in_step_def)
  from m have len: "length (cp_checks (boxes s)) = length gs" by (simp add: mirrors_def)
  have "mirrors has shown gs (cp_checks (boxes (step e s))) (store (step e s))"
  proof (cases "obs e")
    case SwitchAll
    then show ?thesis using s mirrors_put_all by (simp add: step_boxes step_all len)
  next
    case (Flip k)
    then show ?thesis
      using s m mirrors_put_group [OF m groups_disjoint, of k]
      by (simp add: step_boxes step_flip len)
  qed
  with s show ?thesis by (simp add: in_step_def ok_step)
qed

lemma step_has: "ok s \<Longrightarrow> has (store (step e s)) j = has (store s) j"
  by (cases "obs e") (simp_all add: step_all step_flip has_fold)

lemma step_outside:
  assumes "ok s" and "j \<notin> set (concat gs)"
  shows "shown (store (step e s)) j = shown (store s) j"
proof (cases "obs e")
  case SwitchAll
  then show ?thesis using assms by (simp add: step_all shown_fold_notin)
next
  case (Flip k)
  then show ?thesis
    using assms group_in_concat [of k gs] by (auto simp: step_flip shown_fold_notin)
qed

end

text \<open>
  Such a page is a simulation of the abstract panel, and being in step with the map is an invariant
  of its handlers.
\<close>

sublocale layer_panel \<subseteq> follows: simulation step ok check_step boxes "\<lambda>e s. [obs e]"
  by unfold_locales (simp_all add: ok_step step_boxes)

sublocale layer_panel \<subseteq> mirrored: kept step in_step
  by unfold_locales (rule step_mirrors)

context layer_panel
begin

lemma trace_obs: "follows.trace es s = map obs es"
  by (induction es arbitrary: s) simp_all

lemma run_has: "ok s \<Longrightarrow> has (store (fold step es s)) j = has (store s) j"
  by (induction es arbitrary: s) (simp_all add: ok_step step_has)

lemma run_outside: "ok s \<Longrightarrow> j \<notin> set (concat gs) \<Longrightarrow> shown (store (fold step es s)) j = shown (store s) j"
  by (induction es arbitrary: s) (simp_all add: ok_step step_outside)

text \<open>What a page's property says: boxes as the abstract panel has them, layers as the boxes say.\<close>

lemma run_panel:
  assumes "ok s" and "mirrors has shown gs (cp_checks (boxes s)) (store s)"
  shows "boxes (fold step es s) = fold check_step (map obs es) (boxes s)"
    and "i < length gs \<Longrightarrow> j \<in> set (gs ! i) \<Longrightarrow> has (store s) j \<Longrightarrow>
      shown (store (fold step es s)) j = cp_checks (boxes (fold step es s)) ! i"
    and "j \<notin> set (concat gs) \<Longrightarrow> shown (store (fold step es s)) j = shown (store s) j"
  using follows.run_abs [OF assms(1), of es] run_outside [OF assms(1)] run_has [OF assms(1)]
    mirrored.run_inv [of s es] assms
  by (auto simp: in_step_def mirrors_def trace_obs)

end

end
