(* ===== verification/Agency_Map.thy ===== *)
theory Agency_Map
  imports Plain_Stops Stop_Layers Panel_Machine
begin

text \<open>
  \<open>static/js/agency-map.js\<close>: the lines of all routes of an agency, on a style without glyphs, and
  a panel with one box per route.
\<close>

section \<open>The page\<close>

record agency_panel =
  ap_allOn :: bool
  ap_text :: jstring
  ap_routes :: "bool list"

record agency_page =
  ag_map :: style_map
  ag_lines :: "jstring \<rightharpoonup> jstring"
  ag_panel :: "agency_panel option"

definition agency_url :: "jstring \<Rightarrow> jstring option" where
  "agency_url agencyId =
     map_option (\<lambda>e. lit ''/api/v1/map/route/agency/'' @ e) (encodeURIComponent agencyId)"

definition new_agency_page :: agency_page where
  "new_agency_page =
     \<lparr>ag_map = addDefaultMapControls True (map_of_style (createOsmRasterStyle (Some (JBool False)))),
      ag_lines = Map.empty, ag_panel = None\<rparr>"

definition agency_line_id :: "jstring \<Rightarrow> jstring" where
  "agency_line_id k = lit ''agency-route-line-'' @ k"

definition agency_src_id :: "jstring \<Rightarrow> jstring" where
  "agency_src_id k = lit ''agency-route-src-'' @ k"

definition add_agency_line :: "map_route \<Rightarrow> agency_page \<Rightarrow> agency_page outcome" where
  "add_agency_line route pg =
     (let lid = agency_line_id (route_key route); srcId = agency_src_id (route_key route) in
      case addSource srcId (FeatureData (line_feature route)) (ag_map pg) of
        Thrown e m \<Rightarrow> Thrown e (pg\<lparr>ag_map := m\<rparr>)
      | Done m \<Rightarrow>
          Done (pg\<lparr>ag_map := addLayer (line_layer lid srcId (mr_color route) 5 0.9) m,
                   ag_lines := (ag_lines pg)(route_key route \<mapsto> lid)\<rparr>))"

definition agency_map_load :: "map_route list \<Rightarrow> agency_page \<Rightarrow> agency_page outcome" where
  "agency_map_load routes =
     run_steps
      [for_each add_agency_line routes,
       \<lambda>pg. Done (pg\<lparr>ag_panel := Some \<lparr>ap_allOn = True, ap_text = lit ''Toggle all off'',
                          ap_routes = replicate (length routes) True\<rparr>\<rparr>)]"

section \<open>The layer panel\<close>

definition set_agency_line :: "(jstring \<rightharpoonup> jstring) \<Rightarrow> bool \<Rightarrow> map_route \<Rightarrow> style_map \<Rightarrow> style_map" where
  "set_agency_line ls vis route m =
     (case ls (route_key route) of None \<Rightarrow> m | Some lid \<Rightarrow> setLayerVisibility lid vis m)"

definition agency_toggle_all :: "map_route list \<Rightarrow> agency_page \<Rightarrow> agency_panel \<Rightarrow> agency_page" where
  "agency_toggle_all routes pg p =
     (let allOn = (\<not> ap_allOn p) in
      pg\<lparr>ag_map := fold (set_agency_line (ag_lines pg) allOn) routes (ag_map pg),
         ag_panel := Some \<lparr>ap_allOn = allOn, ap_text = toggle_label allOn,
            ap_routes = replicate (length routes) allOn\<rparr>\<rparr>)"

definition agency_route_change :: "map_route list \<Rightarrow> nat \<Rightarrow> agency_page \<Rightarrow> agency_panel \<Rightarrow> agency_page" where
  "agency_route_change routes i pg p =
     (if length routes \<le> i then pg
      else let vis = (\<not> ap_routes p ! i)
           in pg\<lparr>ag_map := set_agency_line (ag_lines pg) vis (routes ! i) (ag_map pg),
                 ag_panel := Some (p\<lparr>ap_routes := (ap_routes p)[i := vis]\<rparr>)\<rparr>)"

definition on_agency_event :: "map_route list \<Rightarrow> check_event \<Rightarrow> agency_page \<Rightarrow> agency_page" where
  "on_agency_event routes e pg =
     (case ag_panel pg of
        None \<Rightarrow> pg
      | Some p \<Rightarrow> (case e of SwitchAll \<Rightarrow> agency_toggle_all routes pg p
                   | Flip i \<Rightarrow> agency_route_change routes i pg p))"

section \<open>Loading\<close>

definition agency_layer :: "map_route \<Rightarrow> layer" where
  "agency_layer r = line_layer (agency_line_id (route_key r)) (agency_src_id (route_key r)) (mr_color r) 5 0.9"

lemma agency_ids [simp]:
  "agency_line_id a = agency_line_id b \<longleftrightarrow> a = b" "agency_src_id a = agency_src_id b \<longleftrightarrow> a = b"
  "agency_line_id a \<noteq> lit ''osm''" "agency_src_id a \<noteq> lit ''osm''"
  by (simp_all add: agency_line_id_def agency_src_id_def lit_def)

lemma new_agency_map:
  "m_layers (ag_map new_agency_page) = [osm_layer]" "m_listeners (ag_map new_agency_page) = []"
  "m_sources (ag_map new_agency_page) = [lit ''osm'' \<mapsto> RasterTiles
     [lit ''https://tile.openstreetmap.org/{z}/{x}/{y}.png'']]"
  "ag_lines new_agency_page = Map.empty" "ag_panel new_agency_page = None"
  by (simp_all add: new_agency_page_def osm_layer_def map_of_style_def createOsmRasterStyle_def
      empty_map_def addDefaultMapControls_def addControl_def)

definition agency_lines_done :: "map_route list \<Rightarrow> agency_page \<Rightarrow> agency_page" where
  "agency_lines_done rs pg =
     pg\<lparr>ag_map := (ag_map pg)\<lparr>m_layers := m_layers (ag_map pg) @ map agency_layer rs,
          m_sources := fold (\<lambda>r S. S(agency_src_id (route_key r) \<mapsto> FeatureData (line_feature r))) rs
            (m_sources (ag_map pg))\<rparr>,
        ag_lines := fold (\<lambda>r R. R(route_key r \<mapsto> agency_line_id (route_key r))) rs (ag_lines pg)\<rparr>"

lemma add_agency_lines:
  "distinct (map route_key rs) \<Longrightarrow>
   \<forall>r \<in> set rs. m_sources (ag_map pg) (agency_src_id (route_key r)) = None
     \<and> agency_line_id (route_key r) \<notin> set (layer_ids (ag_map pg)) \<Longrightarrow>
   for_each add_agency_line rs pg = Done (agency_lines_done rs pg)"
proof (induction rs arbitrary: pg)
  case Nil
  then show ?case by (simp add: agency_lines_done_def)
next
  case (Cons r rs)
  let ?pg = "agency_lines_done [r] pg"
  have r: "add_agency_line r pg = Done ?pg"
    using Cons.prems(2)
    by (simp add: add_agency_line_def Let_def addSource_def addLayer_def getLayer_None_iff layer_ids_def
        agency_lines_done_def agency_layer_def)
  have ne: "\<forall>q \<in> set rs. route_key q \<noteq> route_key r" using Cons.prems(1) by simp (metis imageI)
  have "\<forall>q \<in> set rs. m_sources (ag_map ?pg) (agency_src_id (route_key q)) = None
     \<and> agency_line_id (route_key q) \<notin> set (layer_ids (ag_map ?pg))"
    using Cons.prems ne by (auto simp: agency_lines_done_def layer_ids_def agency_layer_def)
  with Cons.IH [of ?pg] Cons.prems(1) have "for_each add_agency_line rs ?pg = Done (agency_lines_done rs ?pg)"
    by (simp only: list.map distinct.simps)
  with r show ?case by (simp add: agency_lines_done_def)
qed

definition agency_layers :: "map_route list \<Rightarrow> layer list" where
  "agency_layers routes = osm_layer # map agency_layer routes"

lemma agency_load_lib:
  assumes "distinct (map route_key routes)"
  shows "\<exists>pg. agency_map_load routes new_agency_page = Done pg
     \<and> m_layers (ag_map pg) = agency_layers routes \<and> m_listeners (ag_map pg) = []
     \<and> (\<forall>r \<in> set routes. ag_lines pg (route_key r) = Some (agency_line_id (route_key r))
          \<and> m_sources (ag_map pg) (agency_src_id (route_key r)) = Some (FeatureData (line_feature r)))
     \<and> ag_panel pg = Some \<lparr>ap_allOn = True, ap_text = lit ''Toggle all off'',
          ap_routes = replicate (length routes) True\<rparr>
     \<and> m_sources (ag_map pg) (lit ''osm'') = m_sources (ag_map new_agency_page) (lit ''osm'')"
proof -
  let ?q = "agency_lines_done routes new_agency_page"
  have l: "for_each add_agency_line routes new_agency_page = Done ?q"
    by (rule add_agency_lines [OF assms]) (simp add: new_agency_map layer_ids_def new_page_map(2))
  have d: "distinct (map (\<lambda>r. agency_src_id (route_key r)) routes)"
    using assms by (simp add: distinct_map inj_on_def)
  have "ag_lines ?q (route_key r) = Some (agency_line_id (route_key r))
      \<and> m_sources (ag_map ?q) (agency_src_id (route_key r)) = Some (FeatureData (line_feature r))"
    if "r \<in> set routes" for r
    using fold_update_at [OF assms that, where v = "\<lambda>r. agency_line_id (route_key r)"]
      fold_update_at [OF d that, where v = "\<lambda>r. FeatureData (line_feature r)"]
    by (simp add: agency_lines_done_def del: fun_upd_apply)
  moreover have "m_sources (ag_map ?q) (lit ''osm'') = m_sources (ag_map new_agency_page) (lit ''osm'')"
    by (simp add: agency_lines_done_def fold_update_other image_iff agency_ids(4) [symmetric] del: fun_upd_apply)
  ultimately show ?thesis
    using l by (simp add: agency_map_load_def)
      (simp add: agency_lines_done_def new_agency_map agency_layers_def)
qed

section \<open>The panel as a machine\<close>

definition agency_groups :: "map_route list \<Rightarrow> jstring list list" where
  "agency_groups routes = map (\<lambda>r. [agency_line_id (route_key r)]) routes"

text \<open>For routes with distinct ids; otherwise loading throws and there is no panel.\<close>

definition agency_ok :: "map_route list \<Rightarrow> agency_page \<Rightarrow> bool" where
  "agency_ok routes pg \<longleftrightarrow>
     (\<forall>r \<in> set routes. ag_lines pg (route_key r) = Some (agency_line_id (route_key r)))
     \<and> (case ag_panel pg of None \<Rightarrow> False
        | Some p \<Rightarrow> length (ap_routes p) = length routes \<and> ap_text p = toggle_label (ap_allOn p))"

definition agency_boxes :: "agency_page \<Rightarrow> check_panel" where
  "agency_boxes pg = (case ag_panel pg of None \<Rightarrow> \<lparr>cp_all = True, cp_checks = []\<rparr>
     | Some p \<Rightarrow> \<lparr>cp_all = ap_allOn p, cp_checks = ap_routes p\<rparr>)"

lemma agency_groups_disjoint: "distinct (map route_key routes) \<Longrightarrow> disjoint_groups (agency_groups routes)"
  by (rule disjoint_groups_distinct) (simp add: agency_groups_def concat_map_singleton distinct_map inj_on_def)

lemma agency_okE:
  assumes "agency_ok routes pg"
  obtains p where "ag_panel pg = Some p" "length (ap_routes p) = length routes"
    "ap_text p = toggle_label (ap_allOn p)"
    "\<And>b r m. r \<in> set routes \<Longrightarrow> set_agency_line (ag_lines pg) b r m = setLayerVisibility (agency_line_id (route_key r)) b m"
  using assms by (auto simp: agency_ok_def set_agency_line_def split: option.splits)

lemma agency_fold:
  "(\<And>r m. r \<in> set rs \<Longrightarrow> set_agency_line L b r m = setLayerVisibility (agency_line_id (route_key r)) b m) \<Longrightarrow>
   fold (set_agency_line L b) rs m = fold (\<lambda>i. setLayerVisibility i b) (concat (agency_groups rs)) m"
  by (induction rs arbitrary: m) (simp_all add: agency_groups_def)

definition distinct_routes :: "map_route list \<Rightarrow> map_route list" where
  "distinct_routes routes = (if distinct (map route_key routes) then routes else [])"

lemma distinct_routes [simp]: "distinct (map route_key (distinct_routes rs))"
  "distinct (map route_key rs) \<Longrightarrow> distinct_routes rs = rs"
  by (simp_all add: distinct_routes_def)

interpretation agency_panel: layer_panel on_map layer_shown setLayerVisibility
  "agency_groups (distinct_routes routes)" "agency_ok (distinct_routes routes)"
  "on_agency_event (distinct_routes routes)" "\<lambda>e. e" ag_map agency_boxes
proof unfold_locales
  fix pg e k
  let ?rs = "distinct_routes routes"
  show "disjoint_groups (agency_groups ?rs)" by (rule agency_groups_disjoint) simp
  assume ok: "agency_ok ?rs pg"
  then obtain p where p: "ag_panel pg = Some p" "length (ap_routes p) = length ?rs"
    "ap_text p = toggle_label (ap_allOn p)"
    and line: "\<And>b r m. r \<in> set ?rs \<Longrightarrow>
      set_agency_line (ag_lines pg) b r m = setLayerVisibility (agency_line_id (route_key r)) b m"
    by (rule agency_okE) blast
  note defs = on_agency_event_def agency_toggle_all_def agency_route_change_def Let_def agency_boxes_def
  show "agency_ok ?rs (on_agency_event ?rs e pg)"
    using ok p by (cases e) (auto simp: defs agency_ok_def)
  show "agency_boxes (on_agency_event ?rs e pg) = check_step e (agency_boxes pg)"
    using p by (cases e) (simp_all add: defs)
  show "e = SwitchAll \<Longrightarrow> ag_map (on_agency_event ?rs e pg) =
      fold (\<lambda>i. setLayerVisibility i (\<not> cp_all (agency_boxes pg))) (concat (agency_groups ?rs)) (ag_map pg)"
    using p agency_fold [OF line] by (simp add: defs)
  show "e = Flip k \<Longrightarrow> ag_map (on_agency_event ?rs e pg) =
      (if k < length (agency_groups ?rs)
       then fold (\<lambda>i. setLayerVisibility i (\<not> cp_checks (agency_boxes pg) ! k)) (agency_groups ?rs ! k) (ag_map pg)
       else ag_map pg)"
    using p line [OF nth_mem] by (simp add: defs agency_groups_def)
qed

section \<open>Properties\<close>

text \<open>
  For routes with distinct ids the agency map loads all their lines above the base map, each
  on its own source, and over every sequence of panel events the boxes follow the abstract panel,
  whose initial boxes are all checked, and each route's line is shown exactly when its box is
  checked.
\<close>

theorem agency_panel_mirrors_map:
  assumes "distinct (map route_key routes)"
  shows "\<exists>pg. agency_map_load routes new_agency_page = Done pg
     \<and> m_layers (ag_map pg) = osm_layer # map agency_layer routes
     \<and> (\<forall>r \<in> set routes. m_sources (ag_map pg) (agency_src_id (route_key r)) = Some (FeatureData (line_feature r)))
     \<and> (\<forall>es. let q = fold (on_agency_event routes) es pg in
          agency_boxes q = fold check_step es \<lparr>cp_all = True, cp_checks = replicate (length routes) True\<rparr>
        \<and> (\<forall>i < length routes. layer_shown (ag_map q) (agency_line_id (route_key (routes ! i)))
             = cp_checks (agency_boxes q) ! i))"
proof -
  obtain pg where l: "agency_map_load routes new_agency_page = Done pg"
    and pg: "m_layers (ag_map pg) = agency_layers routes"
      "\<forall>r \<in> set routes. ag_lines pg (route_key r) = Some (agency_line_id (route_key r))
          \<and> m_sources (ag_map pg) (agency_src_id (route_key r)) = Some (FeatureData (line_feature r))"
      "ag_panel pg = Some \<lparr>ap_allOn = True, ap_text = lit ''Toggle all off'',
          ap_routes = replicate (length routes) True\<rparr>"
    using agency_load_lib [OF assms] by blast
  note d = distinct_routes(2) [OF assms]
  have ok: "agency_ok (distinct_routes routes) pg" by (simp add: d agency_ok_def pg toggle_label_def)
  have box: "agency_boxes pg = \<lparr>cp_all = True, cp_checks = replicate (length routes) True\<rparr>"
    by (simp add: agency_boxes_def pg)
  have sh: "layer_shown (ag_map pg) i" if "on_map (ag_map pg) i" for i
    using that by (intro layer_shown_all) (auto simp: pg agency_layers_def agency_layer_def osm_visible)
  have on: "on_map (ag_map pg) (agency_line_id (route_key (routes ! i)))" if "i < length routes" for i
    using that by (auto simp: layer_ids_def pg agency_layers_def agency_layer_def)
  have m: "mirrors on_map layer_shown (agency_groups (distinct_routes routes)) (cp_checks (agency_boxes pg)) (ag_map pg)"
    using sh by (auto simp: mirrors_def box d agency_groups_def)
  have "agency_boxes (fold (on_agency_event routes) es pg)
        = fold check_step es \<lparr>cp_all = True, cp_checks = replicate (length routes) True\<rparr>
      \<and> (\<forall>i < length routes. layer_shown (ag_map (fold (on_agency_event routes) es pg))
           (agency_line_id (route_key (routes ! i))) = cp_checks (agency_boxes (fold (on_agency_event routes) es pg)) ! i)" for es
    using agency_panel.run_panel(1,2) [OF ok m] on unfolding d by (simp add: box agency_groups_def)
  then show ?thesis
    using l pg(1,2) by (intro exI [of _ pg]) (simp add: agency_layers_def Let_def)
qed

lemma agency_panel_mirrors_map_witness:
  "\<exists>pg. agency_map_load (sp_routes sample_payload) new_agency_page = Done pg
     \<and> \<not> layer_shown (ag_map (fold (on_agency_event (sp_routes sample_payload)) [Flip 0] pg))
          (agency_line_id (lit ''46A''))"
proof -
  have d: "distinct (map route_key (sp_routes sample_payload))"
    using sample_routes_ok by (simp add: route_keys_ok_def)
  have k: "route_key (sp_routes sample_payload ! 0) = lit ''46A''" "length (sp_routes sample_payload) = 2"
    by (simp_all add: sample_payload_def sample_route_def route_key_def)
  show ?thesis
    using agency_panel_mirrors_map [OF d] k
    by (fastforce simp: Let_def numeral_2_eq_2 dest: spec [of _ "[Flip 0]"])
qed

end
