(* ===== verification/Route_Map.thy ===== *)
theory Route_Map
  imports Plain_Stops Stop_Layers Panel_Machine
begin

text \<open>
  \<open>static/js/route-map.js\<close>: the map of one route in one direction.  The \<open>load\<close> handler and the
  layer panel, whose vehicles row exists only when the payload has vehicles.
\<close>

section \<open>Data\<close>

record route_map_payload =
  rm_direction :: jsval
  rm_route :: map_route
  rm_stops :: "map_stop list"
  rm_vehicles :: "map_vehicle list"

definition LINE_ID :: jstring where "LINE_ID = lit ''route-line-main''"
definition VEHICLE_PULSE_ID :: jstring where "VEHICLE_PULSE_ID = lit ''vehicle-pulse-main''"
definition VEHICLE_ID :: jstring where "VEHICLE_ID = lit ''vehicle-main''"
definition VEHICLE_LABELS_ID :: jstring where "VEHICLE_LABELS_ID = lit ''vehicle-labels-main''"
definition STOPS_ID :: jstring where "STOPS_ID = lit ''stops-all''"
definition STOPS_LABELS_ID :: jstring where "STOPS_LABELS_ID = lit ''stops-labels-main''"

definition routeLineCoords :: "map_route \<Rightarrow> (real \<times> real) list" where
  "routeLineCoords r = (case mr_line r of Some coords \<Rightarrow> coords | None \<Rightarrow> [])"

definition route_vehicle_heading :: "fpu \<Rightarrow> map_route \<Rightarrow> map_vehicle \<Rightarrow> real" where
  "route_vehicle_heading F r v =
     vehicleIconRotateDegreesFromLineString F (Some (routeLineCoords r)) (mv_lon v) (mv_lat v)"

definition routeVehiclesGeojson :: "fpu \<Rightarrow> date_env \<Rightarrow> route_map_payload \<Rightarrow> feature list option" where
  "routeVehiclesGeojson F env payload =
     (if rm_vehicles payload = [] then None
      else Some (map (\<lambda>v. vehicle_feature env (rm_direction payload)
                            (route_vehicle_heading F (rm_route payload) v) v) (rm_vehicles payload)))"

section \<open>The page\<close>

text \<open>\<open>vehCb\<close> is null when there are no vehicles.\<close>

record route_panel =
  rq_allOn :: bool
  rq_text :: jstring
  rq_line :: bool
  rq_vehicles :: "bool option"
  rq_stops :: bool

record route_page =
  rp_map :: style_map
  rp_pulse :: bool
  rp_panel :: "route_panel option"

definition new_route_page :: route_page where
  "new_route_page = \<lparr>rp_map = addDefaultMapControls True (map_of_style (createOsmRasterStyle None)),
     rp_pulse = False, rp_panel = None\<rparr>"

definition on_route_map :: "(style_map \<Rightarrow> style_map outcome) \<Rightarrow> route_page \<Rightarrow> route_page outcome" where
  "on_route_map f pg = (case f (rp_map pg) of
      Done m \<Rightarrow> Done (pg\<lparr>rp_map := m\<rparr>)
    | Thrown e m \<Rightarrow> Thrown e (pg\<lparr>rp_map := m\<rparr>))"

definition new_route_panel :: "bool \<Rightarrow> route_panel" where
  "new_route_panel hasVehicles = \<lparr>rq_allOn = True, rq_text = lit ''Toggle all off'', rq_line = True,
     rq_vehicles = (if hasVehicles then Some True else None), rq_stops = True\<rparr>"

section \<open>The load handler\<close>

definition route_vehicle_steps ::
  "canvas_env \<Rightarrow> map_route \<Rightarrow> feature list \<Rightarrow> route_page \<Rightarrow> route_page outcome" where
  "route_vehicle_steps cv r fs =
     run_steps
      [on_route_map (addSource (lit ''vehicles-src'') (CollectionData fs)),
       on_route_map (registerVehicleIconForRoute cv (mr_route_id r) (mr_color r)),
       on_route_map (\<lambda>m. Done (addLayer (vehicle_pulse_layer VEHICLE_PULSE_ID (mr_route_id r)) m)),
       on_route_map (\<lambda>m. Done (addLayer (vehicle_layer VEHICLE_ID
          (vehicle_icon_id (mr_route_id r) (mr_color r)) (mr_route_id r)) m)),
       on_route_map (\<lambda>m. Done (addLayer (vehicle_label_layer VEHICLE_LABELS_ID (mr_route_id r)) m)),
       \<lambda>pg. Done (if any_pulse fs then pg\<lparr>rp_pulse := True\<rparr> else pg)]"

definition listen_route_vehicles :: "bool \<Rightarrow> style_map \<Rightarrow> style_map" where
  "listen_route_vehicles hasVehicles m =
     (if hasVehicles \<and> getLayer m VEHICLE_ID \<noteq> None
      then listen_pair VehiclePopup VEHICLE_ID VEHICLE_LABELS_ID m else m)"

definition route_map_load ::
  "fpu \<Rightarrow> date_env \<Rightarrow> canvas_env \<Rightarrow> route_map_payload \<Rightarrow> route_page \<Rightarrow> route_page outcome" where
  "route_map_load F env cv payload =
     (let r = rm_route payload;
          vehicles = routeVehiclesGeojson F env payload in
      run_steps
       [on_route_map (addSource (lit ''route-src-main'') (FeatureData (line_feature r))),
        on_route_map (\<lambda>m. Done (addLayer (line_layer LINE_ID (lit ''route-src-main'') (mr_color r) 6 0.95) m)),
        on_route_map (addSource (lit ''stops-src'') (plainStopsGeojson (rm_stops payload))),
        on_route_map (\<lambda>m. Done (addLayer (circle_layer STOPS_ID None 5 ''#ffffff'' 2 ''#333333'') m)),
        (case vehicles of None \<Rightarrow> Done | Some fs \<Rightarrow> route_vehicle_steps cv r fs),
        on_route_map (\<lambda>m. Done (addLayer (stop_label_layer STOPS_LABELS_ID None) m)),
        \<lambda>pg. Done (pg\<lparr>rp_panel := Some (new_route_panel (vehicles \<noteq> None))\<rparr>),
        on_route_map (\<lambda>m. Done (listen_route_vehicles (vehicles \<noteq> None) m)),
        on_route_map (\<lambda>m. Done (listen_pair StopPopup STOPS_ID STOPS_LABELS_ID m))])"

text \<open>The layers the pulse animation repaints.\<close>

definition route_pulse_ids :: "style_map \<Rightarrow> jstring list" where
  "route_pulse_ids m = (if getLayer m VEHICLE_PULSE_ID \<noteq> None then [VEHICLE_PULSE_ID] else [])"

section \<open>The layer panel\<close>

definition route_line_change :: "route_page \<Rightarrow> route_panel \<Rightarrow> route_page" where
  "route_line_change pg p =
     (let vis = (\<not> rq_line p) in
      pg\<lparr>rp_map := setLayerVisibility LINE_ID vis (rp_map pg),
         rp_panel := Some (p\<lparr>rq_line := vis\<rparr>)\<rparr>)"

definition set_route_vehicles :: "bool \<Rightarrow> style_map \<Rightarrow> style_map" where
  "set_route_vehicles vis m = setLayerVisibility VEHICLE_LABELS_ID vis
     (setLayerVisibility VEHICLE_ID vis (setLayerVisibility VEHICLE_PULSE_ID vis m))"

definition route_vehicles_change :: "route_page \<Rightarrow> route_panel \<Rightarrow> route_page" where
  "route_vehicles_change pg p =
     (case rq_vehicles p of
        None \<Rightarrow> pg
      | Some c \<Rightarrow>
          let vis = (\<not> c) in
          pg\<lparr>rp_map := set_route_vehicles vis (rp_map pg),
             rp_panel := Some (p\<lparr>rq_vehicles := Some vis\<rparr>)\<rparr>)"

definition set_route_stops :: "bool \<Rightarrow> style_map \<Rightarrow> style_map" where
  "set_route_stops vis m =
     setLayerVisibility STOPS_LABELS_ID vis (setLayerVisibility STOPS_ID vis m)"

definition route_stops_change :: "route_page \<Rightarrow> route_panel \<Rightarrow> route_page" where
  "route_stops_change pg p =
     (let vis = (\<not> rq_stops p) in
      pg\<lparr>rp_map := set_route_stops vis (rp_map pg),
         rp_panel := Some (p\<lparr>rq_stops := vis\<rparr>)\<rparr>)"

definition route_toggle_all :: "bool \<Rightarrow> route_page \<Rightarrow> route_panel \<Rightarrow> route_page" where
  "route_toggle_all hasVehicles pg p =
     (let allOn = (\<not> rq_allOn p);
          m = setLayerVisibility LINE_ID allOn (rp_map pg);
          m = (if hasVehicles then set_route_vehicles allOn m else m)
      in pg\<lparr>rp_map := set_route_stops allOn m,
            rp_panel := Some \<lparr>rq_allOn = allOn, rq_text = toggle_label allOn, rq_line = allOn,
              rq_vehicles = (if hasVehicles then map_option (\<lambda>c. allOn) (rq_vehicles p)
                             else rq_vehicles p),
              rq_stops = allOn\<rparr>\<rparr>)"

datatype route_panel_event = RouteToggleAll | LineChange | VehiclesChange | RouteStopsChange

definition on_route_panel_event :: "bool \<Rightarrow> route_panel_event \<Rightarrow> route_page \<Rightarrow> route_page" where
  "on_route_panel_event hasVehicles e pg =
     (case rp_panel pg of
        None \<Rightarrow> pg
      | Some p \<Rightarrow>
          (case e of
             RouteToggleAll \<Rightarrow> route_toggle_all hasVehicles pg p
           | LineChange \<Rightarrow> route_line_change pg p
           | VehiclesChange \<Rightarrow> route_vehicles_change pg p
           | RouteStopsChange \<Rightarrow> route_stops_change pg p))"

section \<open>Loading\<close>

lemmas route_id_defs = LINE_ID_def VEHICLE_PULSE_ID_def VEHICLE_ID_def VEHICLE_LABELS_ID_def
  STOPS_ID_def STOPS_LABELS_ID_def

definition route_map_layers :: "bool \<Rightarrow> map_route \<Rightarrow> layer list" where
  "route_map_layers hv r =
     [osm_layer, line_layer LINE_ID (lit ''route-src-main'') (mr_color r) 6 0.95,
      circle_layer STOPS_ID None 5 ''#ffffff'' 2 ''#333333'']
     @ (if hv then [vehicle_pulse_layer VEHICLE_PULSE_ID (mr_route_id r),
          vehicle_layer VEHICLE_ID (vehicle_icon_id (mr_route_id r) (mr_color r)) (mr_route_id r),
          vehicle_label_layer VEHICLE_LABELS_ID (mr_route_id r)] else [])
     @ [stop_label_layer STOPS_LABELS_ID None]"

lemma route_map_layer_ids:
  "map l_id (route_map_layers hv r) = lit ''osm'' # LINE_ID # STOPS_ID
     # (if hv then [VEHICLE_PULSE_ID, VEHICLE_ID, VEHICLE_LABELS_ID] else []) @ [STOPS_LABELS_ID]"
  by (simp add: route_map_layers_def new_page_map)

lemma route_ids_distinct:
  "distinct [lit ''osm'', LINE_ID, STOPS_ID, VEHICLE_PULSE_ID, VEHICLE_ID, VEHICLE_LABELS_ID, STOPS_LABELS_ID]"
  by (simp add: route_id_defs lit_def)

lemma new_route_map:
  "rp_map new_route_page = pg_map new_stop_page" "rp_pulse new_route_page = False"
  by (simp_all add: new_route_page_def new_stop_page_def)

lemma on_route_lay:
  "l_id l \<notin> set (layer_ids (rp_map pg)) \<Longrightarrow>
   on_route_map (\<lambda>m. Done (addLayer l m)) pg =
     Done (pg\<lparr>rp_map := (rp_map pg)\<lparr>m_layers := m_layers (rp_map pg) @ [l]\<rparr>\<rparr>)"
  by (simp add: on_route_map_def addLayer_fresh)

lemma on_route_source:
  "m_sources (rp_map pg) i = None \<Longrightarrow>
   on_route_map (addSource i s) pg =
     Done (pg\<lparr>rp_map := (rp_map pg)\<lparr>m_sources := (m_sources (rp_map pg))(i \<mapsto> s)\<rparr>\<rparr>)"
  by (simp add: on_route_map_def addSource_def)

lemma on_route_icon:
  assumes "cv_context cv"
  shows "\<exists>I. on_route_map (registerVehicleIconForRoute cv rid c) pg =
     Done (pg\<lparr>rp_map := (rp_map pg)\<lparr>m_images := I\<rparr>\<rparr>)"
proof -
  obtain I where "registerVehicleIconForRoute cv rid c (rp_map pg) = Done ((rp_map pg)\<lparr>m_images := I\<rparr>)"
    using register_Done [OF assms] by blast
  then show ?thesis by (intro exI [of _ I]) (simp add: on_route_map_def)
qed

lemma route_source_names:
  "lit ''route-src-main'' \<noteq> lit ''osm''" "lit ''stops-src'' \<noteq> lit ''osm''" "lit ''vehicles-src'' \<noteq> lit ''osm''"
  "lit ''stops-src'' \<noteq> lit ''route-src-main''" "lit ''vehicles-src'' \<noteq> lit ''route-src-main''"
  "lit ''vehicles-src'' \<noteq> lit ''stops-src''"
  by (simp_all add: lit_def)

lemma route_load_lib:
  assumes "cv_context cv"
  shows "\<exists>I. route_map_load F env cv payload new_route_page =
     Done \<lparr>rp_map = (pg_map new_stop_page)\<lparr>
         m_sources := (case routeVehiclesGeojson F env payload of None \<Rightarrow> id
            | Some fs \<Rightarrow> \<lambda>S. S(lit ''vehicles-src'' \<mapsto> CollectionData fs))
           ((m_sources (pg_map new_stop_page))
             (lit ''route-src-main'' \<mapsto> FeatureData (line_feature (rm_route payload)),
              lit ''stops-src'' \<mapsto> plainStopsGeojson (rm_stops payload))),
         m_layers := route_map_layers (rm_vehicles payload \<noteq> []) (rm_route payload),
         m_images := I,
         m_listeners := (if rm_vehicles payload \<noteq> [] then pair_listeners VehiclePopup VEHICLE_ID VEHICLE_LABELS_ID else [])
            @ pair_listeners StopPopup STOPS_ID STOPS_LABELS_ID\<rparr>,
       rp_pulse = (case routeVehiclesGeojson F env payload of None \<Rightarrow> False | Some fs \<Rightarrow> any_pulse fs),
       rp_panel = Some (new_route_panel (rm_vehicles payload \<noteq> []))\<rparr>"
proof -
  define m0 where "m0 = pg_map new_stop_page"
  have np: "new_route_page = \<lparr>rp_map = m0, rp_pulse = False, rp_panel = None\<rparr>"
    by (simp add: m0_def new_route_page_def new_stop_page_def)
  have m0: "m_layers m0 = [osm_layer]" "m_listeners m0 = []" "m_sources m0 (lit ''route-src-main'') = None"
    "m_sources m0 (lit ''stops-src'') = None" "m_sources m0 (lit ''vehicles-src'') = None"
    by (simp_all add: m0_def new_page_map route_source_names)
  note ne = route_ids_distinct [simplified] route_source_names new_page_map(2)
  have ne': "LINE_ID \<noteq> lit ''osm''" "STOPS_ID \<noteq> lit ''osm''" "STOPS_LABELS_ID \<noteq> lit ''osm''"
    "STOPS_ID \<noteq> LINE_ID" "STOPS_LABELS_ID \<noteq> LINE_ID" "STOPS_LABELS_ID \<noteq> STOPS_ID" "VEHICLE_PULSE_ID \<noteq> LINE_ID"
    by (simp_all add: route_id_defs lit_def)
  have ne2: "VEHICLE_ID \<noteq> LINE_ID" "VEHICLE_LABELS_ID \<noteq> LINE_ID" "VEHICLE_PULSE_ID \<noteq> STOPS_ID"
    "VEHICLE_ID \<noteq> STOPS_ID" "VEHICLE_LABELS_ID \<noteq> STOPS_ID" "VEHICLE_PULSE_ID \<noteq> lit ''osm''"
    "VEHICLE_ID \<noteq> lit ''osm''" "VEHICLE_LABELS_ID \<noteq> lit ''osm''" "VEHICLE_ID \<noteq> VEHICLE_PULSE_ID"
    "VEHICLE_LABELS_ID \<noteq> VEHICLE_PULSE_ID" "VEHICLE_LABELS_ID \<noteq> VEHICLE_ID"
    "STOPS_LABELS_ID \<noteq> VEHICLE_PULSE_ID" "STOPS_LABELS_ID \<noteq> VEHICLE_ID"
    "STOPS_LABELS_ID \<noteq> VEHICLE_LABELS_ID"
    by (simp_all add: route_id_defs lit_def)
  note go = route_map_load_def route_vehicle_steps_def Let_def on_route_map_def addSource_def addLayer_def
    getLayer_def np m0 ne ne' ne2 route_map_layers_def listen_route_vehicles_def listen_pair_eq
  show ?thesis
  proof (cases "routeVehiclesGeojson F env payload")
    case None
    then have "rm_vehicles payload = []" by (simp add: routeVehiclesGeojson_def split: if_splits)
    with None show ?thesis
      unfolding m0_def [symmetric]
      by (intro exI [of _ "m_images m0"]) (simp add: go)
  next
    case (Some fs)
    then have hv: "rm_vehicles payload \<noteq> []" by (simp add: routeVehiclesGeojson_def split: if_splits)
    let ?m = "m0\<lparr>m_layers := [osm_layer,
          line_layer LINE_ID (lit ''route-src-main'') (mr_color (rm_route payload)) 6 (19 / 20),
          circle_layer STOPS_ID None 5 ''#ffffff'' 2 ''#333333''],
        m_sources := (m_sources m0)
        (lit ''route-src-main'' \<mapsto> FeatureData (line_feature (rm_route payload)),
         lit ''stops-src'' \<mapsto> plainStopsGeojson (rm_stops payload), lit ''vehicles-src'' \<mapsto> CollectionData fs)\<rparr>"
    obtain I where I: "registerVehicleIconForRoute cv (mr_route_id (rm_route payload)) (mr_color (rm_route payload)) ?m
        = Done (?m\<lparr>m_images := I\<rparr>)"
      using register_Done [OF assms] by blast
    from Some hv I show ?thesis
      unfolding m0_def [symmetric]
      by (intro exI [of _ I]) (simp add: go)
  qed
qed

section \<open>The panel as a machine\<close>

definition route_panel_groups :: "bool \<Rightarrow> jstring list list" where
  "route_panel_groups hv = [LINE_ID] # (if hv then [[VEHICLE_PULSE_ID, VEHICLE_ID, VEHICLE_LABELS_ID]] else [])
     @ [[STOPS_ID, STOPS_LABELS_ID]]"

definition route_panel_ok :: "bool \<Rightarrow> route_page \<Rightarrow> bool" where
  "route_panel_ok hv pg \<longleftrightarrow> (case rp_panel pg of None \<Rightarrow> False
     | Some p \<Rightarrow> (rq_vehicles p \<noteq> None) = hv \<and> rq_text p = toggle_label (rq_allOn p))"

definition route_obs :: "bool \<Rightarrow> route_panel_event \<Rightarrow> check_event" where
  "route_obs hv e = (case e of RouteToggleAll \<Rightarrow> SwitchAll | LineChange \<Rightarrow> Flip 0
     | VehiclesChange \<Rightarrow> Flip (if hv then 1 else 2) | RouteStopsChange \<Rightarrow> Flip (if hv then 2 else 1))"

definition route_boxes :: "route_page \<Rightarrow> check_panel" where
  "route_boxes pg = (case rp_panel pg of None \<Rightarrow> \<lparr>cp_all = True, cp_checks = []\<rparr>
     | Some p \<Rightarrow> \<lparr>cp_all = rq_allOn p, cp_checks = rq_line p #
          (case rq_vehicles p of None \<Rightarrow> [] | Some c \<Rightarrow> [c]) @ [rq_stops p]\<rparr>)"

lemma route_groups_disjoint: "disjoint_groups (route_panel_groups hv)"
  by (rule disjoint_groups_distinct) (simp add: route_panel_groups_def route_id_defs lit_def)

lemma route_panel_okE:
  assumes "route_panel_ok hv pg"
  obtains p c where "rp_panel pg = Some p" "rq_vehicles p = (if hv then Some c else None)"
    "rq_text p = toggle_label (rq_allOn p)"
  using assms by (cases "rp_panel pg") (auto simp: route_panel_ok_def split: if_splits)

lemmas route_event_defs = on_route_panel_event_def route_toggle_all_def route_line_change_def
  route_vehicles_change_def route_stops_change_def set_route_vehicles_def set_route_stops_def
  route_obs_def route_boxes_def route_panel_ok_def route_panel_groups_def Let_def

interpretation route_panel: layer_panel on_map layer_shown setLayerVisibility "route_panel_groups hv"
  "route_panel_ok hv" "on_route_panel_event hv" "route_obs hv" rp_map route_boxes
proof unfold_locales
  fix pg e k
  assume "route_panel_ok hv pg"
  then obtain p c where p: "rp_panel pg = Some p" "rq_vehicles p = (if hv then Some c else None)"
    "rq_text p = toggle_label (rq_allOn p)" by (rule route_panel_okE)
  show "route_panel_ok hv (on_route_panel_event hv e pg)"
    using p by (cases e) (simp_all add: route_event_defs)
  show "route_boxes (on_route_panel_event hv e pg) = check_step (route_obs hv e) (route_boxes pg)"
    using p by (cases e) (simp_all add: route_event_defs numeral_2_eq_2)
  show "route_obs hv e = SwitchAll \<Longrightarrow> rp_map (on_route_panel_event hv e pg) =
      fold (\<lambda>i. setLayerVisibility i (\<not> cp_all (route_boxes pg))) (concat (route_panel_groups hv)) (rp_map pg)"
    using p by (cases e) (simp_all add: route_event_defs)
  show "route_obs hv e = Flip k \<Longrightarrow> rp_map (on_route_panel_event hv e pg) =
      (if k < length (route_panel_groups hv)
       then fold (\<lambda>i. setLayerVisibility i (\<not> cp_checks (route_boxes pg) ! k)) (route_panel_groups hv ! k) (rp_map pg)
       else rp_map pg)"
    using p by (cases e) (auto simp: route_event_defs numeral_2_eq_2)
qed (rule route_groups_disjoint)

section \<open>Properties\<close>

text \<open>
  C27: The load handler of the route map always returns, whatever its payload.  The layers are, from
  the bottom up, the base map, the route's line, the stops, with vehicles their pulse, chevrons and
  labels, and the labels of the stops; the sources hold the payload's line, stops and vehicles, and
  every listener is bound to a layer on the map.
\<close>

theorem route_map_loaded:
  assumes "cv_context cv"
  shows "\<exists>pg. route_map_load F env cv payload new_route_page = Done pg
     \<and> layer_ids (rp_map pg) = lit ''osm'' # LINE_ID # STOPS_ID
          # (if rm_vehicles payload = [] then [] else [VEHICLE_PULSE_ID, VEHICLE_ID, VEHICLE_LABELS_ID])
          @ [STOPS_LABELS_ID]
     \<and> distinct (layer_ids (rp_map pg))
     \<and> m_sources (rp_map pg) (lit ''route-src-main'') = Some (FeatureData (line_feature (rm_route payload)))
     \<and> m_sources (rp_map pg) (lit ''stops-src'') = Some (plainStopsGeojson (rm_stops payload))
     \<and> m_sources (rp_map pg) (lit ''vehicles-src'') = map_option CollectionData (routeVehiclesGeojson F env payload)
     \<and> (\<forall>l \<in> set (m_layers (rp_map pg)). m_sources (rp_map pg) (l_source l) \<noteq> None)
     \<and> fst ` snd ` set (m_listeners (rp_map pg)) \<subseteq> set (layer_ids (rp_map pg))
     \<and> (rp_pulse pg \<longleftrightarrow> (\<exists>v \<in> set (rm_vehicles payload). vehiclePulseIsActive env (mv_time_of_update v)))"
proof -
  let ?hv = "rm_vehicles payload \<noteq> []" and ?r = "rm_route payload"
  obtain I pg where l: "route_map_load F env cv payload new_route_page = Done pg"
    and pg: "pg = \<lparr>rp_map = (pg_map new_stop_page)\<lparr>
         m_sources := (case routeVehiclesGeojson F env payload of None \<Rightarrow> id
            | Some fs \<Rightarrow> \<lambda>S. S(lit ''vehicles-src'' \<mapsto> CollectionData fs))
           ((m_sources (pg_map new_stop_page))
             (lit ''route-src-main'' \<mapsto> FeatureData (line_feature ?r),
              lit ''stops-src'' \<mapsto> plainStopsGeojson (rm_stops payload))),
         m_layers := route_map_layers ?hv ?r, m_images := I,
         m_listeners := (if ?hv then pair_listeners VehiclePopup VEHICLE_ID VEHICLE_LABELS_ID else [])
            @ pair_listeners StopPopup STOPS_ID STOPS_LABELS_ID\<rparr>,
       rp_pulse = (case routeVehiclesGeojson F env payload of None \<Rightarrow> False | Some fs \<Rightarrow> any_pulse fs),
       rp_panel = Some (new_route_panel ?hv)\<rparr>"
    using route_load_lib [OF assms] by blast
  have any: "any_pulse (map f vs) \<longleftrightarrow> (\<exists>v \<in> set vs. get_prop (f v) ''pulse_active'' = JBool True)"
    for f :: "map_vehicle \<Rightarrow> feature" and vs
    by (simp add: any_pulse_def list_ex_iff)
  have ids: "layer_ids (rp_map pg) = map l_id (route_map_layers ?hv ?r)" by (simp add: pg layer_ids_def)
  have src: "l_source l = lit ''osm'' \<or> l_source l = lit ''route-src-main'' \<or> l_source l = lit ''stops-src''
      \<or> ?hv \<and> l_source l = lit ''vehicles-src''" if "l \<in> set (route_map_layers ?hv ?r)" for l
    using that layer_sources(1)
    by (auto simp: route_map_layers_def line_layer_def circle_layer_def stop_label_layer_def
        vehicle_pulse_layer_def vehicle_layer_def vehicle_label_layer_def split: if_splits)
  have S: "\<forall>l \<in> set (m_layers (rp_map pg)). m_sources (rp_map pg) (l_source l) \<noteq> None"
    using src by (fastforce simp: pg new_page_map routeVehiclesGeojson_def route_source_names)
  show ?thesis
    apply (intro exI [of _ pg] conjI l S)
    subgoal by (simp add: ids route_map_layer_ids)
    subgoal using route_ids_distinct unfolding ids route_map_layer_ids by auto
    subgoal by (simp add: pg routeVehiclesGeojson_def route_source_names route_source_names [symmetric])
    subgoal by (simp add: pg routeVehiclesGeojson_def route_source_names route_source_names [symmetric])
    subgoal by (simp add: pg routeVehiclesGeojson_def new_page_map route_source_names)
    subgoal unfolding ids route_map_layer_ids by (auto simp: pg pair_listeners_def)
    subgoal by (auto simp: pg routeVehiclesGeojson_def any get_prop_def vehicle_feature_def point_feature_def)
    done
qed

text \<open>
  C25: After loading, over every sequence of panel events, the boxes of the route map's panel are
  those of the abstract panel with one box for the line, one for the vehicles if there are any, and
  one for the stops, and the map shows the layers of each box exactly when it is checked.
\<close>

theorem route_panel_mirrors_map:
  assumes "cv_context cv" and "route_map_load F env cv payload new_route_page = Done pg"
    and "hv \<longleftrightarrow> rm_vehicles payload \<noteq> []" and "q = fold (on_route_panel_event hv) es pg"
  shows "route_boxes q = fold check_step (map (route_obs hv) es)
       \<lparr>cp_all = True, cp_checks = replicate (if hv then 3 else 2) True\<rparr>
     \<and> (\<forall>i < length (route_panel_groups hv). \<forall>j \<in> set (route_panel_groups hv ! i).
          layer_shown (rp_map q) j = cp_checks (route_boxes q) ! i)
     \<and> layer_shown (rp_map q) (lit ''osm'')"
proof -
  obtain I where pg: "m_layers (rp_map pg) = route_map_layers hv (rm_route payload)"
    "rp_panel pg = Some (new_route_panel hv)"
    using route_load_lib [OF assms(1), of F env payload] assms(2,3) by auto
  have ok: "route_panel_ok hv pg"
    by (auto simp: route_panel_ok_def pg new_route_panel_def toggle_label_def)
  have box: "route_boxes pg = \<lparr>cp_all = True, cp_checks = replicate (if hv then 3 else 2) True\<rparr>"
    by (simp add: route_boxes_def pg new_route_panel_def numeral_3_eq_3 numeral_2_eq_2)
  have on: "j \<in> set (layer_ids (rp_map pg))" if "i < length (route_panel_groups hv)" "j \<in> set (route_panel_groups hv ! i)" for i j
    using that by (auto simp: layer_ids_def pg route_map_layer_ids route_panel_groups_def less_Suc_eq nth_Cons' split: if_splits)
  have vis: "layer_visible l" if "l \<in> set (m_layers (rp_map pg))" for l
    using that osm_visible by (auto simp: pg route_map_layers_def split: if_splits)
  note sh = layer_shown_all [OF vis]
  have m: "mirrors on_map layer_shown (route_panel_groups hv) (cp_checks (route_boxes pg)) (rp_map pg)"
    using sh by (auto simp: mirrors_def box route_panel_groups_def less_Suc_eq nth_Cons' split: if_splits)
  have o: "lit ''osm'' \<notin> set (concat (route_panel_groups hv))" "lit ''osm'' \<in> set (layer_ids (rp_map pg))"
    by (simp_all add: route_panel_groups_def route_id_defs lit_def layer_ids_def pg route_map_layers_def new_page_map)
  show ?thesis
    using route_panel.run_panel [OF ok m] on sh o by (simp add: assms(4) box)
qed

text \<open>A payload with one vehicle.\<close>

definition sample_route_payload :: route_map_payload where
  "sample_route_payload = \<lparr>rm_direction = JInt 1, rm_route = sample_route ''46A'' ''#e6194b'',
     rm_stops = sp_stops sample_payload, rm_vehicles = [sample_vehicle]\<rparr>"

lemma route_map_loaded_witness:
  "\<exists>pg. route_map_load exact_fpu \<lparr>now = 0, date_value = (\<lambda>v. None), date_local = (\<lambda>i. [])\<rparr>
      \<lparr>cv_context = True, cv_roundRect = False\<rparr> sample_route_payload new_route_page = Done pg
   \<and> length (layer_ids (rp_map pg)) = 7"
proof -
  have "cv_context \<lparr>cv_context = True, cv_roundRect = False\<rparr>" by simp
  from route_map_loaded [OF this] show ?thesis
    by (rule exE [of _ ?thesis]) (auto simp: sample_route_payload_def)
qed

lemma route_panel_mirrors_map_witness:
  "let pg = state_of (route_map_load exact_fpu \<lparr>now = 0, date_value = (\<lambda>v. None), date_local = (\<lambda>i. [])\<rparr>
         \<lparr>cv_context = True, cv_roundRect = False\<rparr> sample_route_payload new_route_page);
       q = fold (on_route_panel_event True) [VehiclesChange, RouteToggleAll, LineChange] pg
   in \<not> layer_shown (rp_map q) STOPS_ID \<and> layer_shown (rp_map q) LINE_ID"
proof -
  let ?env = "\<lparr>now = 0, date_value = (\<lambda>v. None), date_local = (\<lambda>i. [])\<rparr>"
  let ?cv = "\<lparr>cv_context = True, cv_roundRect = False\<rparr>"
  let ?pg = "state_of (route_map_load exact_fpu ?env ?cv sample_route_payload new_route_page)"
  let ?q = "fold (on_route_panel_event True) [VehiclesChange, RouteToggleAll, LineChange] ?pg"
  have cv: "cv_context ?cv" by simp
  from route_load_lib [OF this] have d:
    "route_map_load exact_fpu ?env ?cv sample_route_payload new_route_page = Done ?pg"
    by (metis state_of.simps(1))
  have hv: "True \<longleftrightarrow> rm_vehicles sample_route_payload \<noteq> []" by (simp add: sample_route_payload_def)
  note t = route_panel_mirrors_map [OF cv d hv refl, of "[VehiclesChange, RouteToggleAll, LineChange]"]
  have b: "cp_checks (route_boxes ?q) = [True, False, False]"
    unfolding t [THEN conjunct1] by (simp add: route_obs_def numeral_3_eq_3)
  have "layer_shown (rp_map ?q) j = cp_checks (route_boxes ?q) ! i"
    if "i < 3" "j \<in> set (route_panel_groups True ! i)" for i j
    using t [THEN conjunct2, THEN conjunct1] that by (auto simp: route_panel_groups_def)
  from this [of 0 LINE_ID] this [of 2 STOPS_ID] show ?thesis
    unfolding b Let_def by (simp add: route_panel_groups_def numeral_2_eq_2)
qed

end
