(* ===== verification/Map_Embed.thy ===== *)
theory Map_Embed
  imports Js_Prelude Event_Machine
begin

text \<open>
  The bootstrap of the five map pages (\<open>bindStopMapRealtimeEmbed\<close>, \<open>bindRouteMapEmbed\<close>,
  \<open>bindNearbyMapEmbed\<close>, \<open>bindStaticStopMapEmbed\<close>, \<open>bindAgencyMapEmbed\<close>).  It runs on
  \<open>DOMContentLoaded\<close>, on \<open>load\<close> and after every HTMX swap, and has to initialise the map once.  It
  hands \<open>doInit\<close> to the function of \<open>maplibre-ready.js\<close>, or polls by itself when that script is
  absent.  The five functions differ in the attributes they need and in the scripts they wait for.
\<close>

section \<open>The page\<close>

datatype page_kind = StopPage | RoutePage | NearbyPage | StaticPage | AgencyPage

text \<open>
  \<open>ee_wrap\<close>: the element with the page's data attributes exists, \<open>ee_element\<close>: so does
  \<open>#map-element\<close>, \<open>ee_init\<close>: \<open>window.init...Map\<close> is defined, \<open>ee_when\<close>: the ready function is.
  \<open>ee_float\<close> is \<open>Number.parseFloat\<close>, \<open>None\<close> for NaN.
\<close>

record embed_env =
  ee_kind :: page_kind
  ee_wrap :: bool
  ee_element :: bool
  ee_init :: bool
  ee_when :: bool
  ee_first :: "jstring option"
  ee_second :: "jstring option"
  ee_float :: "jstring \<Rightarrow> real option"

text \<open>
  \<open>em_flag\<close> and \<open>em_wait\<close> are the dataset entries \<open>...EmbedInit\<close> and \<open>embedWaitDeps\<close>,
  \<open>em_frames\<close> the animation frames requested by \<open>fallback\<close>, \<open>em_queued\<close> the \<open>doInit\<close>s handed to the
  ready function, \<open>em_inits\<close> the calls of \<open>init...Map\<close>.
\<close>

record embed =
  em_flag :: bool
  em_wait :: "nat option"
  em_gl :: bool
  em_popup :: bool
  em_frames :: nat
  em_queued :: nat
  em_inits :: nat

definition new_embed :: embed where
  "new_embed = \<lparr>em_flag = False, em_wait = None, em_gl = False, em_popup = False, em_frames = 0,
     em_queued = 0, em_inits = 0\<rparr>"

section \<open>The functions\<close>

definition parses :: "embed_env \<Rightarrow> jstring option \<Rightarrow> bool" where
  "parses env a = (case a of None \<Rightarrow> False | Some x \<Rightarrow> ee_float env x \<noteq> None)"

definition non_empty :: "jstring option \<Rightarrow> bool" where
  "non_empty a = (case a of None \<Rightarrow> False | Some x \<Rightarrow> x \<noteq> [])"

text \<open>The guards on the data attributes.\<close>

fun attributes_ok :: "page_kind \<Rightarrow> embed_env \<Rightarrow> bool" where
  "attributes_ok NearbyPage env = (parses env (ee_first env) \<and> parses env (ee_second env))"
| "attributes_ok StopPage env = non_empty (ee_first env)"
| "attributes_ok RoutePage env = non_empty (ee_first env)"
| "attributes_ok StaticPage env = non_empty (ee_first env)"
| "attributes_ok AgencyPage env = non_empty (ee_first env)"

text \<open>The agency map has no popups.\<close>

definition deps :: "embed_env \<Rightarrow> embed \<Rightarrow> bool" where
  "deps env s \<longleftrightarrow> em_gl s \<and> (ee_kind env = AgencyPage \<or> em_popup s)"

definition doInit :: "embed_env \<Rightarrow> embed \<Rightarrow> embed" where
  "doInit env s =
     (if em_flag s then s
      else if \<not> (ee_init env \<and> deps env s) then s
      else s\<lparr>em_flag := True, em_inits := Suc (em_inits s)\<rparr>)"

definition fallback :: "embed_env \<Rightarrow> embed \<Rightarrow> embed" where
  "fallback env s =
     (if em_flag s then s
      else if \<not> deps env s
      then let n = (case em_wait s of None \<Rightarrow> 0 | Some w \<Rightarrow> w) + 1
           in if n > 120 then s
              else s\<lparr>em_wait := Some n, em_frames := Suc (em_frames s)\<rparr>
      else doInit env (s\<lparr>em_wait := None\<rparr>))"

definition bind_embed :: "embed_env \<Rightarrow> embed \<Rightarrow> embed" where
  "bind_embed env s =
     (if \<not> ee_wrap env \<or> em_flag s then s
      else if \<not> ee_init env then s
      else if \<not> ee_element env \<or> \<not> attributes_ok (ee_kind env) env then s
      else if ee_when env then s\<lparr>em_queued := Suc (em_queued s)\<rparr>
      else fallback env s)"

text \<open>
  \<open>Bind\<close>: one of the events that run the bootstrap; \<open>ReadyCalls\<close>: the ready function runs one of
  the callbacks it was given (see \<open>Maplibre_Ready\<close>); \<open>Frame\<close>: the requested frames run.
\<close>

datatype embed_event = Bind | GlArrives | PopupArrives | ReadyCalls | FrameRuns

fun on_embed_event :: "embed_env \<Rightarrow> embed_event \<Rightarrow> embed \<Rightarrow> embed" where
  "on_embed_event env Bind s = bind_embed env s"
| "on_embed_event env GlArrives s = s\<lparr>em_gl := True\<rparr>"
| "on_embed_event env PopupArrives s = s\<lparr>em_popup := True\<rparr>"
| "on_embed_event env ReadyCalls s =
     (if em_queued s = 0 then s else doInit env (s\<lparr>em_queued := em_queued s - 1\<rparr>))"
| "on_embed_event env FrameRuns s = (fallback env ^^ em_frames s) (s\<lparr>em_frames := 0\<rparr>)"

section \<open>The invariant\<close>

definition embed_ok :: "embed_env \<Rightarrow> embed \<Rightarrow> bool" where
  "embed_ok env s \<longleftrightarrow> em_inits s = (if em_flag s then 1 else 0) \<and> (em_flag s \<longrightarrow> deps env s)
     \<and> (\<forall>n. em_wait s = Some n \<longrightarrow> n \<le> 120)"

lemma doInit_ok: "embed_ok env s \<Longrightarrow> embed_ok env (doInit env s)"
  by (auto simp: embed_ok_def doInit_def deps_def)

lemma fallback_ok: "embed_ok env s \<Longrightarrow> embed_ok env (fallback env s)"
  using doInit_ok [of env "s\<lparr>em_wait := None\<rparr>"]
  by (auto simp: fallback_def Let_def) (auto simp: embed_ok_def deps_def)

lemma fallbacks_ok: "embed_ok env s \<Longrightarrow> embed_ok env ((fallback env ^^ n) s)"
  by (induction n) (simp_all add: fallback_ok)

lemma embed_event_ok:
  assumes "embed_ok env s"
  shows "embed_ok env (on_embed_event env e s)"
proof (cases e)
  case Bind
  then show ?thesis using assms fallback_ok [OF assms] by (auto simp: bind_embed_def) (auto simp: embed_ok_def deps_def)
next
  case ReadyCalls
  then show ?thesis
    using assms doInit_ok [of env "s\<lparr>em_queued := em_queued s - 1\<rparr>"]
    by (auto simp: embed_ok_def deps_def)
next
  case FrameRuns
  have "embed_ok env (s\<lparr>em_frames := 0\<rparr>)" using assms by (simp add: embed_ok_def deps_def)
  then show ?thesis by (simp add: FrameRuns fallbacks_ok)
qed (use assms in \<open>auto simp: embed_ok_def deps_def\<close>)

interpretation embed_page: kept "on_embed_event env" "embed_ok env"
  by unfold_locales (rule embed_event_ok)

lemma new_embed_ok: "embed_ok env new_embed"
  by (simp add: embed_ok_def new_embed_def)

section \<open>Polling\<close>

abbreviation waited :: "embed \<Rightarrow> nat" where
  "waited s \<equiv> (case em_wait s of None \<Rightarrow> 0 | Some w \<Rightarrow> w)"

text \<open>Without the scripts, \<open>n\<close> polls count up to 120 and request one frame each.\<close>

lemma fallbacks_wait:
  assumes "\<not> em_flag s" and "\<not> deps env s" and "waited s \<le> 120"
  shows "let t = (fallback env ^^ n) s in \<not> em_flag t \<and> \<not> deps env t
     \<and> waited t = min 120 (waited s + n)
     \<and> em_frames t = em_frames s + (waited t - waited s)"
proof (induction n)
  case 0
  then show ?case using assms by (simp add: Let_def)
next
  case (Suc n)
  let ?t = "(fallback env ^^ n) s"
  have t: "\<not> em_flag ?t" "\<not> deps env ?t" "waited ?t = min 120 (waited s + n)"
    "em_frames ?t = em_frames s + (waited ?t - waited s)"
    using Suc.IH by (simp_all add: Let_def)
  show ?case
  proof (cases "waited ?t < 120")
    case True
    then have "fallback env ?t = ?t\<lparr>em_wait := Some (Suc (waited ?t)), em_frames := Suc (em_frames ?t)\<rparr>"
      using t(1,2) by (simp add: fallback_def Let_def)
    with True t show ?thesis by (auto simp: Let_def deps_def)
  next
    case False
    then have "fallback env ?t = ?t" using t by (simp add: fallback_def Let_def)
    with False t show ?thesis by (auto simp: Let_def)
  qed
qed

lemma frame_waits:
  assumes "\<not> em_flag s" and "\<not> deps env s" and "waited s \<le> 120"
    and "t = on_embed_event env FrameRuns s"
  shows "\<not> em_flag t \<and> \<not> deps env t \<and> waited t \<le> 120 \<and> waited s \<le> waited t
     \<and> (em_frames t = 0 \<or> waited s < waited t)"
  using fallbacks_wait [of "s\<lparr>em_frames := 0\<rparr>" env "em_frames s"] assms
  by (auto simp: Let_def deps_def)

lemma frames_wait:
  assumes "\<not> em_flag s" and "\<not> deps env s" and "waited s \<le> 120"
  shows "let t = fold (on_embed_event env) (replicate n FrameRuns) s in
     \<not> em_flag t \<and> \<not> deps env t \<and> waited t \<le> 120 \<and> (em_frames t = 0 \<or> waited s + n \<le> waited t)"
  using assms
proof (induction n arbitrary: s)
  case 0
  then show ?case by (simp add: Let_def)
next
  case (Suc n)
  let ?u = "on_embed_event env FrameRuns s"
  have u: "\<not> em_flag ?u" "\<not> deps env ?u" "waited ?u \<le> 120" "em_frames ?u = 0 \<or> waited s < waited ?u"
    using frame_waits [OF Suc.prems refl] by auto
  show ?case
  proof (cases "em_frames ?u = 0")
    case True
    then have "on_embed_event env FrameRuns ?u = ?u" by simp
    then have "fold (on_embed_event env) (replicate n FrameRuns) ?u = ?u" by (induction n) simp_all
    with True u show ?thesis by (simp add: Let_def del: on_embed_event.simps)
  next
    case False
    with u Suc.IH [OF u(1-3)] show ?thesis by (auto simp: Let_def simp del: on_embed_event.simps)
  qed
qed

lemma fallback_inits:
  assumes "deps env s" and "ee_init env" and "embed_ok env s"
  shows "em_flag ((fallback env ^^ Suc n) s)"
proof (induction n)
  case 0
  then show ?case using assms by (auto simp: fallback_def doInit_def deps_def)
next
  case (Suc n)
  then show ?case by (simp add: fallback_def)
qed

section \<open>Properties\<close>

text \<open>
  On each of the five pages, whatever events run the bootstrap and in whatever order the scripts
  arrive, the map is initialised at most once, only when the scripts it needs are there, and the
  flag in the dataset says whether it was.  Without \<open>maplibre-ready.js\<close> the page polls: a poll that
  finds the scripts initialises the map, and as long as they are missing polling ends within 121
  frames, however many polling loops the events have started.
\<close>

theorem embed_inits_once:
  assumes "s = fold (on_embed_event env) es new_embed"
  shows "em_inits s = (if em_flag s then 1 else 0) \<and> (em_flag s \<longrightarrow> deps env s)
     \<and> (deps env s \<and> ee_init env \<and> 0 < em_frames s \<longrightarrow> em_inits (on_embed_event env FrameRuns s) = 1)
     \<and> (\<not> deps env s \<longrightarrow> em_frames (fold (on_embed_event env) (replicate 121 FrameRuns) s) = 0)"
proof -
  have ok: "embed_ok env s" unfolding assms by (rule embed_page.run_inv [OF new_embed_ok])
  have live: "em_inits (on_embed_event env FrameRuns s) = 1" if a: "deps env s" and b: "ee_init env" and c: "0 < em_frames s"
  proof -
    let ?s = "s\<lparr>em_frames := 0\<rparr>"
    have s: "deps env ?s" "embed_ok env ?s" using a ok by (simp_all add: deps_def embed_ok_def)
    obtain n where n: "em_frames s = Suc n" using c by (cases "em_frames s") auto
    have "em_flag (on_embed_event env FrameRuns s)"
      using fallback_inits [OF s(1) b s(2), of n] by (simp only: on_embed_event.simps n)
    then show ?thesis using embed_event_ok [OF ok, of FrameRuns] by (simp add: embed_ok_def)
  qed
  have "em_frames (fold (on_embed_event env) (replicate 121 FrameRuns) s) = 0" if "\<not> deps env s"
  proof -
    have "\<not> em_flag s" "waited s \<le> 120" using ok that by (auto simp: embed_ok_def split: option.split)
    from frames_wait [OF this(1) that this(2), of 121] show ?thesis unfolding Let_def by linarith
  qed
  with live ok show ?thesis by (simp add: embed_ok_def)
qed

lemma embed_inits_once_witness:
  "let env = \<lparr>ee_kind = AgencyPage, ee_wrap = True, ee_element = True, ee_init = True, ee_when = False,
         ee_first = Some (lit ''7''), ee_second = None, ee_float = (\<lambda>x. None)\<rparr>;
       s = fold (on_embed_event env) [Bind, Bind, GlArrives] new_embed
   in em_frames s = 2 \<and> em_inits s = 0 \<and> em_inits (on_embed_event env FrameRuns s) = 1"
proof -
  let ?env = "\<lparr>ee_kind = AgencyPage, ee_wrap = True, ee_element = True, ee_init = True, ee_when = False,
         ee_first = Some (lit ''7''), ee_second = None, ee_float = (\<lambda>x. None)\<rparr>"
  let ?s = "fold (on_embed_event ?env) [Bind, Bind, GlArrives] new_embed"
  have s: "em_frames ?s = 2" "em_inits ?s = 0" "deps ?env ?s" "ee_init ?env"
    by (simp_all add: bind_embed_def fallback_def deps_def new_embed_def non_empty_def lit_def Let_def)
  have "em_inits (on_embed_event ?env FrameRuns ?s) = 1"
    using embed_inits_once [OF refl, where env = ?env and es = "[Bind, Bind, GlArrives]"] s by simp
  with s show ?thesis by (simp only: Let_def)
qed

end
