(* ===== verification/Stop_Panel.thy ===== *)
theory Stop_Panel
  imports Stop_Layers Plain_Stops Panel_Machine
begin

text \<open>
  The layer panel of the stop map after loading, as a machine: it meets the contract \<open>layer_panel\<close>,
  so its boxes follow the abstract panel and the map shows what the boxes say.
\<close>

section \<open>Groups of layers\<close>

definition route_group :: "bool \<Rightarrow> jstring \<Rightarrow> jstring list" where
  "route_group hv k = line_id k # (if hv then [vehicle_id k, pulse_id k, label_id k] else [])"

definition stops_group :: "jstring list" where
  "stops_group = [lit ''stops-other'', lit ''stops-labels-other'']"

definition panel_groups :: "bool \<Rightarrow> map_route list \<Rightarrow> jstring list list" where
  "panel_groups hv routes = map (\<lambda>r. route_group hv (route_key r)) routes @ [stops_group]"

abbreviation put_all :: "bool \<Rightarrow> jstring list \<Rightarrow> style_map \<Rightarrow> style_map" where
  "put_all b is m \<equiv> fold (\<lambda>i. setLayerVisibility i b) is m"

lemma set_route_layers_fold:
  "set_route_layers (route_layers_of hv k) b m = put_all b (route_group hv k) m"
  by (simp add: set_route_layers_def route_layers_of_def route_group_def)

lemma set_stops_fold: "set_stops b m = put_all b stops_group m"
  by (simp add: set_stops_def stops_group_def)

lemma panel_groups_disjoint:
  assumes "route_keys_ok routes"
  shows "disjoint_groups (panel_groups hv routes)"
proof (rule disjoint_groups_distinct)
  have "distinct (concat (map (\<lambda>r. route_group hv (route_key r)) routes))"
    using assms
  proof (induction routes)
    case Nil
    then show ?case by simp
  next
    case (Cons r rs)
    have "set (route_group hv (route_key r)) \<inter> set (route_group hv (route_key q)) = {}" if "q \<in> set rs" for q
      using route_keys_okD [OF Cons.prems that] by (auto simp: route_group_def vehicle_id_collision)
    moreover have "distinct (route_group hv (route_key r))"
      by (simp add: route_group_def vehicle_id_collision lit_def)
    ultimately show ?case using Cons.IH route_keys_ok_Cons [OF Cons.prems] by auto
  qed
  moreover have "set (route_group hv k) \<inter> set stops_group = {}" for k
    by (auto simp: route_group_def stops_group_def fixed_not fixed_not [symmetric])
  moreover have "distinct stops_group" by (simp add: stops_group_def lit_def)
  ultimately show "distinct (concat (panel_groups hv routes))"
    by (auto simp: panel_groups_def)
qed

section \<open>The panel as a machine\<close>

text \<open>One box per route, then the one for the stops; a change of a row that does not exist is none.\<close>

definition stop_obs :: "map_route list \<Rightarrow> panel_event \<Rightarrow> check_event" where
  "stop_obs routes e = (case e of
      ToggleAll \<Rightarrow> SwitchAll
    | RouteChange i \<Rightarrow> Flip (if i < length routes then i else Suc (length routes))
    | StopsChange \<Rightarrow> Flip (length routes))"

definition stop_boxes :: "stop_page \<Rightarrow> check_panel" where
  "stop_boxes pg = (case pg_panel pg of
      None \<Rightarrow> \<lparr>cp_all = True, cp_checks = []\<rparr>
    | Some p \<Rightarrow> \<lparr>cp_all = pn_allOn p, cp_checks = pn_routes p @ [pn_stops p]\<rparr>)"

definition panel_ok :: "bool \<Rightarrow> map_route list \<Rightarrow> stop_page \<Rightarrow> bool" where
  "panel_ok hv routes pg \<longleftrightarrow>
     (\<forall>r \<in> set routes. pg_routes pg (route_key r) = Some (route_layers_of hv (route_key r)))
     \<and> (case pg_panel pg of None \<Rightarrow> False
        | Some p \<Rightarrow> length (pn_routes p) = length routes \<and> pn_text p = toggle_label (pn_allOn p))"

lemma panel_okE:
  assumes "panel_ok hv routes pg"
  obtains p where "pg_panel pg = Some p" "length (pn_routes p) = length routes"
    "pn_text p = toggle_label (pn_allOn p)"
    "\<And>b r m. r \<in> set routes \<Longrightarrow> set_route (pg_routes pg) b r m = put_all b (route_group hv (route_key r)) m"
  using assms by (auto simp: panel_ok_def set_route_def set_route_layers_fold split: option.splits)

lemma toggle_map:
  assumes "\<And>r m. r \<in> set rs \<Longrightarrow> set_route R b r m = put_all b (route_group hv (route_key r)) m"
  shows "set_stops b (fold (set_route R b) rs m) = put_all b (concat (panel_groups hv rs)) m"
proof -
  have "fold (set_route R b) rs m = put_all b (concat (map (\<lambda>r. route_group hv (route_key r)) rs)) m"
    using assms by (induction rs arbitrary: m) simp_all
  then show ?thesis by (simp add: set_stops_fold panel_groups_def)
qed

definition ok_routes :: "map_route list \<Rightarrow> map_route list" where
  "ok_routes routes = (if route_keys_ok routes then routes else [])"

lemma ok_routes: "route_keys_ok (ok_routes rs)" "route_keys_ok rs \<Longrightarrow> ok_routes rs = rs"
  by (auto simp: ok_routes_def) (simp add: route_keys_ok_def)

interpretation stop_panel: layer_panel on_map layer_shown setLayerVisibility
  "panel_groups hv (ok_routes routes)" "panel_ok hv (ok_routes routes)"
  "on_panel_event (ok_routes routes)" "stop_obs (ok_routes routes)" pg_map stop_boxes
proof unfold_locales
  fix pg e k
  let ?rs = "ok_routes routes"
  show "disjoint_groups (panel_groups hv ?rs)" by (rule panel_groups_disjoint) (rule ok_routes)
  assume ok: "panel_ok hv ?rs pg"
  then obtain p where p: "pg_panel pg = Some p" "length (pn_routes p) = length ?rs"
    "pn_text p = toggle_label (pn_allOn p)"
    and route: "\<And>b r m. r \<in> set ?rs \<Longrightarrow>
      set_route (pg_routes pg) b r m = put_all b (route_group hv (route_key r)) m"
    by (rule panel_okE) blast
  note defs = on_panel_event_def toggle_all_def route_change_def stops_change_def Let_def stop_boxes_def
    stop_obs_def
  show "panel_ok hv ?rs (on_panel_event ?rs e pg)"
    using ok p by (cases e) (auto simp: defs panel_ok_def)
  show "stop_boxes (on_panel_event ?rs e pg) = check_step (stop_obs ?rs e) (stop_boxes pg)"
    using p by (cases e) (auto simp: defs list_update_append nth_append replicate_append_same)
  show "stop_obs ?rs e = SwitchAll \<Longrightarrow> pg_map (on_panel_event ?rs e pg) =
      put_all (\<not> cp_all (stop_boxes pg)) (concat (panel_groups hv ?rs)) (pg_map pg)"
    using p toggle_map [OF route] by (cases e) (simp_all add: defs)
  show "stop_obs ?rs e = Flip k \<Longrightarrow> pg_map (on_panel_event ?rs e pg) =
      (if k < length (panel_groups hv ?rs)
       then put_all (\<not> cp_checks (stop_boxes pg) ! k) (panel_groups hv ?rs ! k) (pg_map pg)
       else pg_map pg)"
    using p route [OF nth_mem]
    by (cases e) (auto simp: defs panel_groups_def nth_append set_stops_fold)
qed

section \<open>The loaded page\<close>

lemma focus_outside: "lit ''stops-focus'' \<notin> set (concat (panel_groups hv routes))"
proof -
  have "lit ''stops-focus'' \<noteq> lit ''stops-other''" "lit ''stops-focus'' \<noteq> lit ''stops-labels-other''"
    by (simp_all add: lit_def)
  then show ?thesis
    by (auto simp: panel_groups_def route_group_def stops_group_def fixed_not [symmetric])
qed

lemma stop_layers_visible: "l \<in> set (stop_map_layers hv routes) \<Longrightarrow> layer_visible l"
  by (auto simp: stop_map_layers_def stop_circles_def stop_labels_def route_line_def route_vehicles_def
      osm_visible split: if_splits)

lemma loaded_panel:
  assumes "cv_context cv" and "route_keys_ok (sp_routes payload)"
    and "stop_map_load F env cv payload new_stop_page = Done pg"
  shows "panel_ok (sp_vehicles payload \<noteq> []) (sp_routes payload) pg"
    and "stop_boxes pg = \<lparr>cp_all = True, cp_checks = replicate (Suc (length (sp_routes payload))) True\<rparr>"
    and "layer_ids (pg_map pg) = map l_id (stop_map_layers (sp_vehicles payload \<noteq> []) (sp_routes payload))"
    and "on_map (pg_map pg) i \<Longrightarrow> layer_shown (pg_map pg) i"
proof -
  let ?hv = "sp_vehicles payload \<noteq> []" and ?rs = "sp_routes payload"
  have l: "m_layers (pg_map pg) = stop_map_layers ?hv ?rs" "pg_panel pg = Some (new_panel ?rs)"
    "pg_routes pg = put_routes ?hv ?rs Map.empty"
    using load_lib [OF assms(1,2), of F env] assms(3) by auto
  show "panel_ok ?hv ?rs pg"
    using assms(2) by (simp add: panel_ok_def l put_routes_at route_keys_ok_def new_panel_def toggle_label_def)
  show "stop_boxes pg = \<lparr>cp_all = True, cp_checks = replicate (Suc (length ?rs)) True\<rparr>"
    by (simp add: stop_boxes_def l new_panel_def replicate_append_same)
  show "layer_ids (pg_map pg) = map l_id (stop_map_layers ?hv ?rs)" by (simp add: layer_ids_def l)
  show "on_map (pg_map pg) i \<Longrightarrow> layer_shown (pg_map pg) i"
    by (rule layer_shown_all) (auto simp: l stop_layers_visible)
qed

section \<open>Properties\<close>

text \<open>
  C2: After loading, over every sequence of clicks on the toggle button and flips of the
  checkboxes, the stop map shows what its panel says: the line, vehicles, pulses and labels of a
  route are shown exactly when the route's box is checked, the neighbouring stops and their labels
  exactly when the stops box is checked, the page's own stop always, and the button offers to turn
  off exactly when the last toggle turned everything on.
\<close>

theorem panel_mirrors_map:
  assumes "cv_context cv" and "route_keys_ok routes" and "routes = sp_routes payload"
    and "stop_map_load F env cv payload new_stop_page = Done pg"
  shows "\<exists>p. pg_panel (fold (on_panel_event routes) es pg) = Some p
     \<and> (\<forall>i < length routes. \<forall>j \<in> set (route_group (sp_vehicles payload \<noteq> []) (route_key (routes ! i))).
          layer_shown (pg_map (fold (on_panel_event routes) es pg)) j = pn_routes p ! i)
     \<and> (\<forall>j \<in> {lit ''stops-other'', lit ''stops-labels-other''}.
          layer_shown (pg_map (fold (on_panel_event routes) es pg)) j = pn_stops p)
     \<and> layer_shown (pg_map (fold (on_panel_event routes) es pg)) (lit ''stops-focus'')
     \<and> pn_text p = toggle_label (pn_allOn p)"
proof -
  let ?hv = "sp_vehicles payload \<noteq> []" and ?pg = "fold (on_panel_event routes) es pg"
  let ?gs = "panel_groups ?hv routes"
  note d = ok_routes(2) [OF assms(2)]
  note load = loaded_panel [OF assms(1) assms(2) [unfolded assms(3)] assms(4), folded assms(3)]
  have on: "on_map (pg_map pg) j" if "j \<in> set (concat ?gs)" for j
    using that unfolding load(3) stop_map_layer_ids
    by (auto simp: panel_groups_def route_group_def stops_group_def split: if_splits)
  have "mirrors on_map layer_shown ?gs (cp_checks (stop_boxes pg)) (pg_map pg)"
    using load(4) by (auto simp: mirrors_def load(2) panel_groups_def nth_append less_Suc_eq simp del: replicate.simps)
  note run = stop_panel.run_panel [where routes = routes and hv = ?hv, unfolded d, OF load(1) this]
    and ok = stop_panel.follows.run_inv [where routes = routes and hv = ?hv, unfolded d, OF load(1), of es]
  from ok obtain p where p: "pg_panel ?pg = Some p" "length (pn_routes p) = length routes"
    "pn_text p = toggle_label (pn_allOn p)" by (rule panel_okE) blast
  have box: "cp_checks (stop_boxes ?pg) = pn_routes p @ [pn_stops p]" by (simp add: stop_boxes_def p)
  have sh: "layer_shown (pg_map ?pg) j = (pn_routes p @ [pn_stops p]) ! i"
    if "i < length ?gs" "j \<in> set (?gs ! i)" for i j
  proof -
    have "on_map (pg_map pg) j" using on group_in_concat [OF that(1)] that(2) by blast
    from run(2) [OF that this, of es] show ?thesis by (simp only: box)
  qed
  have "layer_shown (pg_map ?pg) j = pn_routes p ! i"
    if "i < length routes" "j \<in> set (route_group ?hv (route_key (routes ! i)))" for i j
    using sh [of i j] that p(2) by (simp add: panel_groups_def nth_append)
  moreover have "layer_shown (pg_map ?pg) j = pn_stops p" if "j \<in> set stops_group" for j
    using sh [of "length routes" j] that p(2) by (simp add: panel_groups_def nth_append)
  moreover have "layer_shown (pg_map ?pg) (lit ''stops-focus'')"
    using run(3) [OF focus_outside] load(4) [of "lit ''stops-focus''"]
    by (simp add: load(3) stop_map_layer_ids)
  ultimately show ?thesis using p by (intro exI [of _ p]) (simp add: stops_group_def)
qed

text \<open>
  C16: The layer panel refines the abstract panel of checkboxes: what the handlers of the page do
  over any sequence of events is what the abstract panel does, where the button inverts its own
  switch (not the boxes) and sets all boxes to it, and a flip of a box changes that box alone.
\<close>

theorem panel_refines_checkboxes:
  assumes "cv_context cv" and "route_keys_ok (sp_routes payload)"
    and "stop_map_load F env cv payload new_stop_page = Done pg"
  shows "stop_boxes (fold (on_panel_event (sp_routes payload)) es pg)
     = fold check_step (map (stop_obs (sp_routes payload)) es)
         \<lparr>cp_all = True, cp_checks = replicate (Suc (length (sp_routes payload))) True\<rparr>"
  using stop_panel.follows.run_abs [where routes = "sp_routes payload", unfolded ok_routes(2) [OF assms(2)],
      OF loaded_panel(1) [OF assms], of es]
    loaded_panel(2) [OF assms] stop_panel.trace_obs [where routes = "sp_routes payload", unfolded ok_routes(2) [OF assms(2)]]
  by (simp only:)

lemma panel_mirrors_map_witness:
  "let pg = state_of (stop_map_load exact_fpu \<lparr>now = 0, date_value = (\<lambda>v. None), date_local = (\<lambda>i. [])\<rparr>
         \<lparr>cv_context = True, cv_roundRect = False\<rparr> sample_payload new_stop_page)
   in layer_shown (pg_map (fold (on_panel_event (sp_routes sample_payload)) [ToggleAll, RouteChange 1] pg))
        (lit ''stops-focus'')"
proof -
  let ?env = "\<lparr>now = 0, date_value = (\<lambda>v. None), date_local = (\<lambda>i. [])\<rparr>"
  let ?cv = "\<lparr>cv_context = True, cv_roundRect = False\<rparr>"
  let ?pg = "state_of (stop_map_load exact_fpu ?env ?cv sample_payload new_stop_page)"
  have cv: "cv_context ?cv" by simp
  from load_lib [OF this sample_routes_ok] have d:
    "stop_map_load exact_fpu ?env ?cv sample_payload new_stop_page = Done ?pg" by (metis state_of.simps(1))
  from panel_mirrors_map [OF cv sample_routes_ok refl d, of "[ToggleAll, RouteChange 1]"]
  show ?thesis by (auto simp: Let_def)
qed

lemma panel_refines_checkboxes_witness:
  "let pg = state_of (stop_map_load exact_fpu \<lparr>now = 0, date_value = (\<lambda>v. None), date_local = (\<lambda>i. [])\<rparr>
         \<lparr>cv_context = True, cv_roundRect = False\<rparr> sample_payload new_stop_page)
   in cp_checks (stop_boxes (fold (on_panel_event (sp_routes sample_payload)) [ToggleAll, RouteChange 1] pg))
       = [False, True, False]"
proof -
  let ?env = "\<lparr>now = 0, date_value = (\<lambda>v. None), date_local = (\<lambda>i. [])\<rparr>"
  let ?cv = "\<lparr>cv_context = True, cv_roundRect = False\<rparr>"
  let ?pg = "state_of (stop_map_load exact_fpu ?env ?cv sample_payload new_stop_page)"
  have cv: "cv_context ?cv" by simp
  from load_lib [OF this sample_routes_ok] have d:
    "stop_map_load exact_fpu ?env ?cv sample_payload new_stop_page = Done ?pg" by (metis state_of.simps(1))
  have l: "length (sp_routes sample_payload) = 2" by (simp add: sample_payload_def)
  show ?thesis
    unfolding Let_def panel_refines_checkboxes [OF cv sample_routes_ok d]
    by (simp add: stop_obs_def l numeral_2_eq_2)
qed

end
