(* ===== verification/Map_Popups.thy ===== *)
theory Map_Popups
  imports Stop_Layers Event_Machine
begin

text \<open>
  Clicks on the maps and the popups they open (\<open>stop-map.js\<close>, \<open>route-map.js\<close>, \<open>nearby-map.js\<close>,
  \<open>static-stop-map.js\<close>).  A page reuses one popup object for stops and, where it has vehicles,
  one for vehicles.  The map's click listeners are a list: first the delegated layer listeners in
  the order of registration, then the \<open>_onClose\<close> of the popups that are open, which \<open>addTo\<close>
  registers and \<open>remove\<close> unregisters (\<open>closeOnClick\<close> is set).  A click runs the listeners that were
  registered when it was fired, one after the other; an exception ends it.
\<close>

section \<open>Popups\<close>

datatype popup_win = StopWin | VehicleWin

datatype click_listener = Delegate jstring handler | OnClose popup_win

record popup =
  pu_on :: bool
  pu_at :: "(real \<times> real) option"
  pu_html :: "jstring option"

record popups =
  ps_click :: "click_listener list"
  ps_stop :: popup
  ps_vehicle :: popup
  ps_pending :: "map_stop list"

text \<open>The payload's stops and direction; the nearby and static maps pass \<open>0\<close> as direction.\<close>

record popup_env =
  pe_stops :: "map_stop list"
  pe_direction :: jsval
  pe_date :: date_env

fun popup_of :: "popup_win \<Rightarrow> popups \<Rightarrow> popup" where
  "popup_of StopWin s = ps_stop s"
| "popup_of VehicleWin s = ps_vehicle s"

fun map_popup :: "popup_win \<Rightarrow> (popup \<Rightarrow> popup) \<Rightarrow> popups \<Rightarrow> popups" where
  "map_popup StopWin f s = s\<lparr>ps_stop := f (ps_stop s)\<rparr>"
| "map_popup VehicleWin f s = s\<lparr>ps_vehicle := f (ps_vehicle s)\<rparr>"

definition remove_popup :: "popup_win \<Rightarrow> popups \<Rightarrow> popups" where
  "remove_popup w s =
     (if pu_on (popup_of w s)
      then map_popup w (\<lambda>p. p\<lparr>pu_on := False\<rparr>) (s\<lparr>ps_click := remove1 (OnClose w) (ps_click s)\<rparr>)
      else s)"

definition addTo :: "popup_win \<Rightarrow> popups \<Rightarrow> popups" where
  "addTo w s =
     (let s = remove_popup w s
      in map_popup w (\<lambda>p. p\<lparr>pu_on := True\<rparr>) (s\<lparr>ps_click := ps_click s @ [OnClose w]\<rparr>))"

definition setLngLat :: "popup_win \<Rightarrow> real \<times> real \<Rightarrow> popups \<Rightarrow> popups" where
  "setLngLat w c = map_popup w (\<lambda>p. p\<lparr>pu_at := Some c\<rparr>)"

definition setHTML :: "popup_win \<Rightarrow> jstring \<Rightarrow> popups \<Rightarrow> popups" where
  "setHTML w h = map_popup w (\<lambda>p. p\<lparr>pu_html := Some h\<rparr>)"

section \<open>The click handlers\<close>

definition js_prop :: "feature \<Rightarrow> string \<Rightarrow> jsval" where
  "js_prop f k = (case map_of (f_props f) k of Some v \<Rightarrow> v | None \<Rightarrow> JUndef)"

text \<open>Clicked features come from the sources of stops and vehicles, whose geometries are points.\<close>

definition coordinates :: "feature \<Rightarrow> real \<times> real" where
  "coordinates f = (case f_geometry f of Some (Point x y) \<Rightarrow> (x, y) | _ \<Rightarrow> (0, 0))"

definition props_of :: "feature \<Rightarrow> vehicle_props" where
  "props_of f = \<lparr>vp_route_short_name = js_prop f ''route_short_name'', vp_route_id = js_prop f ''route_id'',
     vp_agency_name = js_prop f ''agency_name'', vp_map_direction = js_prop f ''map_direction'',
     vp_time_of_update = js_prop f ''time_of_update''\<rparr>"

abbreviation stop_ref :: "map_stop \<Rightarrow> map_stop_ref" where
  "stop_ref st \<equiv> map_stop_ref.truncate st"

text \<open>
  From \<open>payload.stops.find\<close> on; \<open>fetchStopDetailed\<close> throws when the id cannot be encoded, otherwise
  a request is pending.
\<close>

definition openPopupForStopId :: "popup_env \<Rightarrow> jsval \<Rightarrow> popups \<Rightarrow> popups outcome" where
  "openPopupForStopId env sid s =
     (case List.find (\<lambda>st. ms_stop_id st = sid) (pe_stops env) of
        None \<Rightarrow> Done s
      | Some stop \<Rightarrow>
          let s = addTo StopWin (setHTML StopWin (buildLoadingPopupHtml (stop_ref stop))
                    (setLngLat StopWin (ms_lon stop, ms_lat stop) s))
          in case stop_detailed_url sid of
               None \<Rightarrow> Thrown URIError s
             | Some url \<Rightarrow> Done (s\<lparr>ps_pending := ps_pending s @ [stop]\<rparr>))"

definition on_stop_click :: "popup_env \<Rightarrow> feature \<Rightarrow> popups \<Rightarrow> popups outcome" where
  "on_stop_click env f s =
     openPopupForStopId env (js_prop f ''stop_id'') (remove_popup VehicleWin (remove_popup VehicleWin s))"

definition on_plain_click :: "popup_env \<Rightarrow> feature \<Rightarrow> popups \<Rightarrow> popups outcome" where
  "on_plain_click env f s = openPopupForStopId env (js_prop f ''stop_id'') s"

definition onVehicleClick :: "popup_env \<Rightarrow> feature \<Rightarrow> popups \<Rightarrow> popups outcome" where
  "onVehicleClick env f s =
     (let s = setLngLat VehicleWin (coordinates f) (remove_popup StopWin s)
      in case buildVehiclePopupHtml (pe_date env) (props_of f) of
           Inl e \<Rightarrow> Thrown e s
         | Inr h \<Rightarrow> Done (addTo VehicleWin (setHTML VehicleWin h s)))"

fun run_handler :: "popup_env \<Rightarrow> handler \<Rightarrow> feature \<Rightarrow> popups \<Rightarrow> popups outcome" where
  "run_handler env StopPopup f s = on_stop_click env f s"
| "run_handler env VehiclePopup f s = onVehicleClick env f s"
| "run_handler env PlainStopPopup f s = on_plain_click env f s"
| "run_handler env CursorPointer f s = Done s"
| "run_handler env CursorReset f s = Done s"

text \<open>\<open>hits i\<close>: the rendered features of layer \<open>i\<close> under the pointer; none, no call.\<close>

fun run_listener :: "popup_env \<Rightarrow> (jstring \<Rightarrow> feature list) \<Rightarrow> click_listener \<Rightarrow> popups \<Rightarrow> popups outcome" where
  "run_listener env hits (Delegate i h) s =
     (case hits i of [] \<Rightarrow> Done s | f # fs \<Rightarrow> run_handler env h f s)"
| "run_listener env hits (OnClose w) s = Done (remove_popup w s)"

definition on_click :: "popup_env \<Rightarrow> (jstring \<Rightarrow> feature list) \<Rightarrow> popups \<Rightarrow> popups outcome" where
  "on_click env hits s = for_each (run_listener env hits) (ps_click s) s"

text \<open>The answer to the \<open>k\<close>-th pending request: \<open>None\<close> when the promise was rejected.\<close>

definition detail_html :: "popup_env \<Rightarrow> map_stop \<Rightarrow> stop_detailed option \<Rightarrow> jstring" where
  "detail_html env stop d =
     (case d of
        None \<Rightarrow> buildErrorPopupHtml (stop_ref stop)
      | Some detail \<Rightarrow>
          (case buildPopupHtmlFromDetailed detail (pe_direction env) of
             Inr h \<Rightarrow> h | Inl e \<Rightarrow> buildErrorPopupHtml (stop_ref stop)))"

definition on_detail :: "popup_env \<Rightarrow> nat \<Rightarrow> stop_detailed option \<Rightarrow> popups \<Rightarrow> popups" where
  "on_detail env k d s =
     (if length (ps_pending s) \<le> k then s
      else (setHTML StopWin (detail_html env (ps_pending s ! k) d) s)
             \<lparr>ps_pending := take k (ps_pending s) @ drop (Suc k) (ps_pending s)\<rparr>)"

datatype popup_event =
    MapClick "jstring \<Rightarrow> feature list"
  | CloseButton popup_win
  | Detail nat "stop_detailed option"

text \<open>An exception in a listener is reported to the console; the page lives on.\<close>

fun on_popup_event :: "popup_env \<Rightarrow> popup_event \<Rightarrow> popups \<Rightarrow> popups" where
  "on_popup_event env (MapClick hits) s = state_of (on_click env hits s)"
| "on_popup_event env (CloseButton w) s = remove_popup w s"
| "on_popup_event env (Detail k d) s = on_detail env k d s"

text \<open>The popups of a page that has just loaded: those of its map's click listeners.\<close>

definition click_delegates :: "style_map \<Rightarrow> click_listener list" where
  "click_delegates m = map (\<lambda>(e, i, h). Delegate i h) (filter (\<lambda>(e, i, h). e = ''click'') (m_listeners m))"

definition closed_popup :: popup where
  "closed_popup = \<lparr>pu_on = False, pu_at = None, pu_html = None\<rparr>"

definition new_popups :: "click_listener list \<Rightarrow> popups" where
  "new_popups ds = \<lparr>ps_click = ds, ps_stop = closed_popup, ps_vehicle = closed_popup, ps_pending = []\<rparr>"

section \<open>The invariant\<close>

definition delegates_ok :: "click_listener list \<Rightarrow> bool" where
  "delegates_ok ds \<longleftrightarrow> (\<forall>w. OnClose w \<notin> set ds)
     \<and> ((\<forall>i. Delegate i PlainStopPopup \<notin> set ds) \<or> (\<forall>i. Delegate i VehiclePopup \<notin> set ds))"

definition popups_ok :: "click_listener list \<Rightarrow> popups \<Rightarrow> bool" where
  "popups_ok ds s \<longleftrightarrow> ps_click s = ds @ (if pu_on (ps_stop s) then [OnClose StopWin] else [])
        @ (if pu_on (ps_vehicle s) then [OnClose VehicleWin] else [])
     \<and> \<not> (pu_on (ps_stop s) \<and> pu_on (ps_vehicle s))
     \<and> ((\<exists>i. Delegate i PlainStopPopup \<in> set ds) \<longrightarrow> \<not> pu_on (ps_vehicle s))"

lemma remove1_last: "x \<notin> set xs \<Longrightarrow> remove1 x (xs @ [x]) = xs"
  by (induction xs) auto

lemma remove_popup_ok:
  assumes "delegates_ok ds" and "popups_ok ds s"
  shows "popups_ok ds (remove_popup w s)" and "\<not> pu_on (popup_of w (remove_popup w s))"
  using assms
  by (cases w; auto simp: popups_ok_def delegates_ok_def remove_popup_def remove1_append)+

lemma popup_text_ok [simp]:
  "popups_ok ds (setLngLat w c s) = popups_ok ds s" "popups_ok ds (setHTML w h s) = popups_ok ds s"
  "popups_ok ds (s\<lparr>ps_pending := p\<rparr>) = popups_ok ds s"
  by (cases w; simp add: popups_ok_def setLngLat_def setHTML_def)+

lemma addTo_stop_ok:
  assumes "delegates_ok ds" and "popups_ok ds s" and "\<not> pu_on (ps_vehicle s)"
  shows "popups_ok ds (addTo StopWin s)"
  using assms remove_popup_ok [OF assms(1,2), of StopWin]
  by (auto simp: popups_ok_def delegates_ok_def addTo_def Let_def remove_popup_def remove1_append)

lemma addTo_vehicle_ok:
  assumes "delegates_ok ds" and "popups_ok ds s" and "\<not> pu_on (ps_stop s)"
    and "\<forall>i. Delegate i PlainStopPopup \<notin> set ds"
  shows "popups_ok ds (addTo VehicleWin s)"
  using assms
  by (auto simp: popups_ok_def delegates_ok_def addTo_def Let_def remove_popup_def remove1_append)

lemma flags_kept [simp]:
  "pu_on (ps_vehicle (setLngLat StopWin c s)) = pu_on (ps_vehicle s)"
  "pu_on (ps_vehicle (setHTML StopWin h s)) = pu_on (ps_vehicle s)"
  "pu_on (ps_stop (setLngLat VehicleWin c s)) = pu_on (ps_stop s)"
  "pu_on (ps_stop (setHTML VehicleWin h s)) = pu_on (ps_stop s)"
  by (simp_all add: setLngLat_def setHTML_def)

lemma open_stop_ok:
  assumes "delegates_ok ds" and "popups_ok ds s" and "\<not> pu_on (ps_vehicle s)"
  shows "popups_ok ds (state_of (openPopupForStopId env sid s))"
  using assms addTo_stop_ok [OF assms(1)]
  by (auto simp: openPopupForStopId_def Let_def split: option.split)

lemma run_handler_ok:
  assumes "delegates_ok ds" and "popups_ok ds s" and "Delegate i h \<in> set ds"
  shows "popups_ok ds (state_of (run_handler env h f s))"
proof (cases h)
  case StopPopup
  let ?s = "remove_popup VehicleWin (remove_popup VehicleWin s)"
  have "popups_ok ds ?s" "\<not> pu_on (ps_vehicle ?s)"
    using remove_popup_ok [OF assms(1)] assms(2) by (simp_all flip: popup_of.simps)
  from open_stop_ok [OF assms(1) this] show ?thesis by (simp add: StopPopup on_stop_click_def)
next
  case PlainStopPopup
  with assms have "\<not> pu_on (ps_vehicle s)" by (auto simp: popups_ok_def)
  from open_stop_ok [OF assms(1,2) this] show ?thesis by (simp add: PlainStopPopup on_plain_click_def)
next
  case VehiclePopup
  let ?s = "setLngLat VehicleWin (coordinates f) (remove_popup StopWin s)"
  have s: "popups_ok ds ?s" "\<not> pu_on (ps_stop ?s)"
    using remove_popup_ok [OF assms(1,2), of StopWin] by simp_all
  have "\<forall>i. Delegate i PlainStopPopup \<notin> set ds"
    using assms(1,3) VehiclePopup by (auto simp: delegates_ok_def)
  with s show ?thesis
    using addTo_vehicle_ok [OF assms(1)]
    by (auto simp: VehiclePopup onVehicleClick_def Let_def split: sum.split)
qed (use assms(2) in simp_all)

lemma run_listener_ok:
  assumes "delegates_ok ds" and "popups_ok ds s" and "l \<in> set ds \<or> (\<exists>w. l = OnClose w)"
  shows "popups_ok ds (state_of (run_listener env hits l s))"
proof (cases l)
  case (Delegate i h)
  then have "Delegate i h \<in> set ds" using assms(3) by simp
  then show ?thesis
    using run_handler_ok [OF assms(1,2)] assms(2) by (simp add: Delegate split: list.split)
next
  case (OnClose w)
  then show ?thesis using remove_popup_ok [OF assms(1,2)] by simp
qed

lemma popup_event_ok:
  assumes "delegates_ok ds" and "popups_ok ds s"
  shows "popups_ok ds (on_popup_event env e s)"
proof (cases e)
  case (MapClick hits)
  have ls: "l \<in> set ds \<or> (\<exists>w. l = OnClose w)" if "l \<in> set (ps_click s)" for l
    using that assms(2) by (auto simp: popups_ok_def split: if_splits)
  show ?thesis
    unfolding MapClick on_popup_event.simps on_click_def
    by (rule for_each_inv) (use assms ls run_listener_ok in blast)+
next
  case (CloseButton w)
  then show ?thesis using remove_popup_ok [OF assms] by simp
next
  case (Detail k d)
  then show ?thesis using assms(2) by (simp add: on_detail_def)
qed

definition ok_delegates :: "click_listener list \<Rightarrow> click_listener list" where
  "ok_delegates ds = (if delegates_ok ds then ds else [])"

lemma ok_delegates: "delegates_ok (ok_delegates ds)" "delegates_ok ds \<Longrightarrow> ok_delegates ds = ds"
  by (auto simp: ok_delegates_def) (simp add: delegates_ok_def)

interpretation page_popups: kept "on_popup_event env" "popups_ok (ok_delegates ds)"
  by unfold_locales (rule popup_event_ok [OF ok_delegates(1)])

section \<open>Clicks on a stop\<close>

definition shows_stop :: "map_stop \<Rightarrow> popups \<Rightarrow> bool" where
  "shows_stop stop s \<longleftrightarrow> pu_at (ps_stop s) = Some (ms_lon stop, ms_lat stop)
     \<and> pu_html (ps_stop s) = Some (buildLoadingPopupHtml (stop_ref stop))"

definition stop_clicked :: "click_listener list \<Rightarrow> map_stop \<Rightarrow> popups \<Rightarrow> bool" where
  "stop_clicked ds stop s \<longleftrightarrow> popups_ok ds s \<and> pu_on (ps_stop s) \<and> \<not> pu_on (ps_vehicle s) \<and> shows_stop stop s"

lemma open_stop_Done:
  assumes "delegates_ok ds" and "popups_ok ds s" and "\<not> pu_on (ps_vehicle s)"
    and "List.find (\<lambda>st. ms_stop_id st = sid) (pe_stops env) = Some stop"
    and "stop_detailed_url sid \<noteq> None"
  shows "\<exists>t. openPopupForStopId env sid s = Done t \<and> stop_clicked ds stop t
     \<and> ps_pending t = ps_pending s @ [stop]"
proof -
  let ?t = "addTo StopWin (setHTML StopWin (buildLoadingPopupHtml (stop_ref stop))
              (setLngLat StopWin (ms_lon stop, ms_lat stop) s))"
  have "popups_ok ds ?t" using addTo_stop_ok [OF assms(1)] assms(2,3) by simp
  moreover have "pu_on (ps_stop ?t)" "\<not> pu_on (ps_vehicle ?t)" "shows_stop stop ?t" "ps_pending ?t = ps_pending s"
    using assms(3) by (simp_all add: addTo_def Let_def remove_popup_def shows_stop_def setHTML_def setLngLat_def)
  ultimately show ?thesis
    using assms(4,5) by (auto simp: openPopupForStopId_def Let_def stop_clicked_def shows_stop_def)
qed

lemma pending_removed [simp]: "ps_pending (remove_popup w s) = ps_pending s"
  by (cases w) (simp_all add: remove_popup_def)

lemma stop_handler_Done:
  assumes "delegates_ok ds" and "popups_ok ds s" and "Delegate i h \<in> set ds"
    and "h = StopPopup \<or> h = PlainStopPopup" and "js_prop f ''stop_id'' = sid"
    and "List.find (\<lambda>st. ms_stop_id st = sid) (pe_stops env) = Some stop"
    and "stop_detailed_url sid \<noteq> None"
  shows "\<exists>t. run_handler env h f s = Done t \<and> stop_clicked ds stop t
     \<and> ps_pending t = ps_pending s @ [stop]"
proof (cases "h = StopPopup")
  case True
  let ?s = "remove_popup VehicleWin (remove_popup VehicleWin s)"
  have "popups_ok ds ?s" "\<not> pu_on (ps_vehicle ?s)"
    using remove_popup_ok [OF assms(1)] assms(2) by (simp_all flip: popup_of.simps)
  from open_stop_Done [OF assms(1) this assms(6,7)] show ?thesis
    using assms(5) by (simp add: True on_stop_click_def)
next
  case False
  with assms(4) have h: "h = PlainStopPopup" by simp
  with assms(2,3) have "\<not> pu_on (ps_vehicle s)" by (auto simp: popups_ok_def)
  from open_stop_Done [OF assms(1,2) this assms(6,7)] show ?thesis
    using assms(5) by (simp add: h on_plain_click_def)
qed

text \<open>A click that hits only stop layers, whose first feature is the stop \<open>sid\<close>.\<close>

definition hits_stop :: "click_listener list \<Rightarrow> jsval \<Rightarrow> (jstring \<Rightarrow> feature list) \<Rightarrow> bool" where
  "hits_stop ds sid hits \<longleftrightarrow>
     list_all (\<lambda>l. case l of OnClose w \<Rightarrow> True
        | Delegate i h \<Rightarrow> hits i = [] \<or> (h = StopPopup \<or> h = PlainStopPopup)
            \<and> js_prop (hd (hits i)) ''stop_id'' = sid) ds
     \<and> list_ex (\<lambda>l. case l of OnClose w \<Rightarrow> False | Delegate i h \<Rightarrow> hits i \<noteq> []) ds"

lemma delegates_run:
  assumes "delegates_ok ds" and "hits_stop ds sid hits"
    and "List.find (\<lambda>st. ms_stop_id st = sid) (pe_stops env) = Some stop"
    and "stop_detailed_url sid \<noteq> None"
  shows "set xs \<subseteq> set ds \<Longrightarrow> popups_ok ds s \<Longrightarrow>
     \<exists>t n. for_each (run_listener env hits) xs s = Done t
       \<and> ps_pending t = ps_pending s @ replicate n stop
       \<and> (if list_ex (\<lambda>l. case l of OnClose w \<Rightarrow> False | Delegate i h \<Rightarrow> hits i \<noteq> []) xs
          then stop_clicked ds stop t \<and> 0 < n else t = s)"
proof (induction xs arbitrary: s)
  case Nil
  then show ?case by (intro exI [of _ s] exI [of _ 0]) simp
next
  case (Cons l xs)
  have "l \<in> set ds" using Cons.prems(1) by simp
  with assms(1) obtain i h where l: "l = Delegate i h" by (cases l) (auto simp: delegates_ok_def)
  show ?case
  proof (cases "hits i")
    case Nil
    with Cons show ?thesis by (simp add: l)
  next
    case (Cons f fs)
    then have "h = StopPopup \<or> h = PlainStopPopup" "js_prop f ''stop_id'' = sid"
      using assms(2) \<open>l \<in> set ds\<close> by (auto simp: hits_stop_def l list_all_iff)
    from stop_handler_Done [OF assms(1) Cons.prems(2) _ this assms(3,4)] \<open>l \<in> set ds\<close> obtain t where
      t: "run_handler env h f s = Done t" "stop_clicked ds stop t" "ps_pending t = ps_pending s @ [stop]"
      unfolding l by blast
    then have ok: "popups_ok ds t" by (simp add: stop_clicked_def)
    from Cons.IH [OF _ ok] Cons.prems(1) obtain u n where u: "for_each (run_listener env hits) xs t = Done u"
      "ps_pending u = ps_pending t @ replicate n stop"
      "if list_ex (\<lambda>l. case l of OnClose w \<Rightarrow> False | Delegate i h \<Rightarrow> hits i \<noteq> []) xs
          then stop_clicked ds stop u \<and> 0 < n else u = t" by auto
    have "stop_clicked ds stop u" using u(3) t(2) by (simp split: if_splits)
    with u t Cons show ?thesis
      by (intro exI [of _ u] exI [of _ "Suc n"]) (simp add: l)
  qed
qed

lemma stop_click_lib:
  assumes "delegates_ok ds" and "popups_ok ds s" and "hits_stop ds sid hits"
    and "List.find (\<lambda>st. ms_stop_id st = sid) (pe_stops env) = Some stop"
    and "stop_detailed_url sid \<noteq> None"
  shows "\<exists>t n. on_click env hits s = Done t \<and> popups_ok ds t \<and> shows_stop stop t
     \<and> (pu_on (ps_stop t) \<longleftrightarrow> \<not> pu_on (ps_stop s)) \<and> \<not> pu_on (ps_vehicle t)
     \<and> 0 < n \<and> ps_pending t = ps_pending s @ replicate n stop"
proof -
  let ?cs = "(if pu_on (ps_stop s) then [OnClose StopWin] else [])
        @ (if pu_on (ps_vehicle s) then [OnClose VehicleWin] else [])"
  have c: "ps_click s = ds @ ?cs" "\<not> (pu_on (ps_stop s) \<and> pu_on (ps_vehicle s))"
    using assms(2) by (simp_all add: popups_ok_def)
  from delegates_run [OF assms(1,3,4,5) subset_refl assms(2)] assms(3) obtain t n where
    t: "for_each (run_listener env hits) ds s = Done t" "ps_pending t = ps_pending s @ replicate n stop"
      "stop_clicked ds stop t" "0 < n"
    by (auto simp: hits_stop_def)
  have run: "on_click env hits s = for_each (run_listener env hits) ?cs t"
    unfolding on_click_def c(1) for_each_append t(1) by simp
  have ok: "popups_ok ds t" "pu_on (ps_stop t)" "\<not> pu_on (ps_vehicle t)" "shows_stop stop t"
    using t(3) by (simp_all add: stop_clicked_def)
  show ?thesis
  proof (cases "pu_on (ps_stop s)")
    case True
    with c(2) have "on_click env hits s = Done (remove_popup StopWin t)" by (simp add: run)
    moreover have "\<not> pu_on (ps_stop (remove_popup StopWin t))" "\<not> pu_on (ps_vehicle (remove_popup StopWin t))"
      "shows_stop stop (remove_popup StopWin t)"
      using ok by (simp_all add: remove_popup_def shows_stop_def)
    ultimately show ?thesis
      using True t(2,4) remove_popup_ok [OF assms(1) ok(1), of StopWin] by auto
  next
    case False
    then have "on_click env hits s = Done t" using ok(3) by (simp add: run remove_popup_def)
    with False ok t(2,4) show ?thesis by blast
  qed
qed

lemma new_popups_ok: "delegates_ok ds \<Longrightarrow> popups_ok ds (new_popups ds)"
  by (simp add: popups_ok_def new_popups_def closed_popup_def)

lemma reached_ok: "delegates_ok ds \<Longrightarrow> popups_ok ds (fold (on_popup_event env) es (new_popups ds))"
  using page_popups.run_inv [of ds "new_popups ds" env es] by (simp add: ok_delegates new_popups_ok)

section \<open>Properties\<close>

text \<open>The listeners of the stop map after loading.\<close>

lemma stop_map_delegates:
  assumes "m_listeners m = stop_map_listeners hv routes"
  shows "delegates_ok (click_delegates m)"
proof -
  have "h \<noteq> PlainStopPopup" if "(e, i, h) \<in> set (stop_map_listeners hv routes)" for e i h
    using that by (auto simp: stop_map_listeners_def vehicle_listeners_def stop_listeners_def Let_def split: if_splits)
  then show ?thesis using assms by (auto simp: delegates_ok_def click_delegates_def)
qed

text \<open>
  Over every sequence of clicks, close buttons and arriving details, thrown exceptions included,
  at most one popup is open; the map's listeners are the page's own ones in their order followed by
  exactly one closing listener per open popup, so none leaks however often a popup is reopened.
\<close>

theorem one_popup_open:
  assumes "delegates_ok ds" and "s = fold (on_popup_event env) es (new_popups ds)"
  shows "\<not> (pu_on (ps_stop s) \<and> pu_on (ps_vehicle s))
     \<and> ps_click s = ds @ (if pu_on (ps_stop s) then [OnClose StopWin] else [])
         @ (if pu_on (ps_vehicle s) then [OnClose VehicleWin] else [])"
  using reached_ok [OF assms(1), of env es] by (simp add: assms(2) popups_ok_def)

definition sample_stop :: map_stop where
  "sample_stop = hd (sp_stops sample_payload)"

definition sample_hits :: "jstring \<Rightarrow> feature list" where
  "sample_hits i = (if i = lit ''stops-focus'' then [focus_stop_feature sample_stop] else [])"

definition sample_env :: popup_env where
  "sample_env = \<lparr>pe_stops = sp_stops sample_payload, pe_direction = JInt 0,
     pe_date = \<lparr>now = 0, date_value = (\<lambda>v. None), date_local = (\<lambda>i. [])\<rparr>\<rparr>"

definition sample_delegates :: "click_listener list" where
  "sample_delegates = [Delegate (lit ''stops-focus'') StopPopup, Delegate (lit ''stops-other'') StopPopup]"

lemma sample_click:
  "delegates_ok sample_delegates" "hits_stop sample_delegates (JStr (lit ''s1'')) sample_hits"
  "List.find (\<lambda>st. ms_stop_id st = JStr (lit ''s1'')) (pe_stops sample_env) = Some sample_stop"
  "stop_detailed_url (JStr (lit ''s1'')) \<noteq> None"
  by (simp_all add: delegates_ok_def sample_delegates_def hits_stop_def sample_hits_def lit_eq_iff
      js_prop_def focus_stop_feature_def point_feature_def sample_stop_def sample_payload_def
      sample_env_def stop_detailed_url_def) (simp add: lit_def uri_unreserved_def)

lemma one_popup_open_witness:
  "let s = fold (on_popup_event sample_env) [MapClick sample_hits, CloseButton StopWin, MapClick sample_hits]
             (new_popups sample_delegates)
   in \<not> (pu_on (ps_stop s) \<and> pu_on (ps_vehicle s))"
  unfolding Let_def using one_popup_open [OF sample_click(1) refl] by blast

text \<open>
  C5: In every reachable state of the popups, a click on a stop (on any of its layers, and on no
  vehicle) toggles the stop popup: it opens, at the stop, with the loading text and a pending
  request, exactly when the popup was closed.  When the popup was open, on whichever stop, the
  click moves it to the clicked stop and requests its details, and then the popup's own closing
  listener, which was registered when the click was fired, closes it again.
\<close>

theorem stop_click_toggles:
  assumes "delegates_ok ds" and "s = fold (on_popup_event env) es (new_popups ds)"
    and "hits_stop ds sid hits"
    and "List.find (\<lambda>st. ms_stop_id st = sid) (pe_stops env) = Some stop"
    and "stop_detailed_url sid \<noteq> None" and "t = on_popup_event env (MapClick hits) s"
  shows "(pu_on (ps_stop t) \<longleftrightarrow> \<not> pu_on (ps_stop s)) \<and> \<not> pu_on (ps_vehicle t)
     \<and> pu_at (ps_stop t) = Some (ms_lon stop, ms_lat stop)
     \<and> pu_html (ps_stop t) = Some (buildLoadingPopupHtml (stop_ref stop))
     \<and> (\<exists>n > 0. ps_pending t = ps_pending s @ replicate n stop)"
  using stop_click_lib [OF assms(1) reached_ok [OF assms(1)] assms(3-5), of env es]
  by (auto simp: assms(2,6) shows_stop_def)

lemma stop_click_toggles_witness:
  "let s = fold (on_popup_event sample_env) [MapClick sample_hits] (new_popups sample_delegates)
   in pu_on (ps_stop s) \<and> \<not> pu_on (ps_stop (on_popup_event sample_env (MapClick sample_hits) s))"
proof -
  let ?s = "fold (on_popup_event sample_env) [MapClick sample_hits] (new_popups sample_delegates)"
  have "pu_on (ps_stop ?s)"
    using stop_click_toggles [OF sample_click(1) _ sample_click(2,3,4) refl, of _ "[]"]
    by (simp add: new_popups_def closed_popup_def)
  moreover from this have "\<not> pu_on (ps_stop (on_popup_event sample_env (MapClick sample_hits) ?s))"
    using stop_click_toggles [OF sample_click(1) refl sample_click(2,3,4) refl] by blast
  ultimately show ?thesis by (simp add: Let_def)
qed

text \<open>
  C26: Answers are not matched to the popup's stop: after a click on one stop, closing its popup and
  a click on another stop, the first stop's details, when they arrive late, are what the popup
  shows at the second stop.
\<close>

theorem stale_details_shown:
  assumes "delegates_ok ds"
    and "hits_stop ds sid1 hits1" and "hits_stop ds sid2 hits2"
    and "List.find (\<lambda>st. ms_stop_id st = sid1) (pe_stops env) = Some stop1"
    and "List.find (\<lambda>st. ms_stop_id st = sid2) (pe_stops env) = Some stop2"
    and "stop_detailed_url sid1 \<noteq> None" and "stop_detailed_url sid2 \<noteq> None"
    and "s = fold (on_popup_event env)
      [MapClick hits1, CloseButton StopWin, MapClick hits2, Detail 0 d] (new_popups ds)"
  shows "pu_on (ps_stop s) \<and> pu_at (ps_stop s) = Some (ms_lon stop2, ms_lat stop2)
     \<and> pu_html (ps_stop s) = Some (detail_html env stop1 d)"
proof -
  have ok0: "popups_ok ds (new_popups ds)" and off0: "\<not> pu_on (ps_stop (new_popups ds))"
    using new_popups_ok [OF assms(1)] by (simp_all add: new_popups_def closed_popup_def)
  from stop_click_lib [OF assms(1) ok0 assms(2,4,6)] obtain t n where
    t: "on_click env hits1 (new_popups ds) = Done t" "popups_ok ds t" "0 < n"
      "ps_pending t = ps_pending (new_popups ds) @ replicate n stop1" by blast
  have ok1: "popups_ok ds (remove_popup StopWin t)" and off1: "\<not> pu_on (ps_stop (remove_popup StopWin t))"
    using remove_popup_ok [OF assms(1) t(2), of StopWin] by simp_all
  from stop_click_lib [OF assms(1) ok1 assms(3,5,7)] off1 obtain u k where
    u: "on_click env hits2 (remove_popup StopWin t) = Done u" "shows_stop stop2 u" "pu_on (ps_stop u)"
      "ps_pending u = ps_pending (remove_popup StopWin t) @ replicate k stop2" by blast
  have "ps_pending u \<noteq> []" "ps_pending u ! 0 = stop1"
    using t(3,4) u(4) by (simp_all add: new_popups_def nth_append)
  then show ?thesis
    using t(1) u(1-3) by (simp add: assms(8) on_detail_def setHTML_def shows_stop_def)
qed

lemma stale_details_shown_witness:
  "let stop2 = sample_stop\<lparr>ms_stop_id := JStr (lit ''s2''), ms_lon := 1\<rparr>;
       env = sample_env\<lparr>pe_stops := [sample_stop, stop2]\<rparr>;
       hits2 = (\<lambda>i. if i = lit ''stops-other'' then [focus_stop_feature stop2] else []);
       s = fold (on_popup_event env)
         [MapClick sample_hits, CloseButton StopWin, MapClick hits2, Detail 0 None] (new_popups sample_delegates)
   in pu_at (ps_stop s) = Some (1, 0) \<and> pu_html (ps_stop s) = Some (buildErrorPopupHtml (stop_ref sample_stop))"
proof -
  let ?stop2 = "sample_stop\<lparr>ms_stop_id := JStr (lit ''s2''), ms_lon := 1\<rparr>"
  let ?env = "sample_env\<lparr>pe_stops := [sample_stop, ?stop2]\<rparr>"
  let ?hits2 = "\<lambda>i. if i = lit ''stops-other'' then [focus_stop_feature ?stop2] else []"
  have id: "ms_stop_id sample_stop = JStr (lit ''s1'')" "ms_lat sample_stop = 0"
    by (simp_all add: sample_stop_def sample_payload_def)
  have h: "hits_stop sample_delegates (JStr (lit ''s2'')) ?hits2"
    by (simp add: hits_stop_def sample_delegates_def lit_eq_iff js_prop_def focus_stop_feature_def point_feature_def)
  have f: "List.find (\<lambda>st. ms_stop_id st = JStr (lit ''s1'')) (pe_stops ?env) = Some sample_stop"
    "List.find (\<lambda>st. ms_stop_id st = JStr (lit ''s2'')) (pe_stops ?env) = Some ?stop2"
    by (simp_all add: id lit_eq_iff)
  have u: "stop_detailed_url (JStr (lit ''s2'')) \<noteq> None"
    by (simp add: stop_detailed_url_def lit_def uri_unreserved_def)
  from stale_details_shown [OF sample_click(1,2) h f sample_click(4) u refl, of None] show ?thesis
    by (simp add: Let_def detail_html_def id)
qed

end
