(* ===== verification/Map_Pages.thy ===== *)
theory Map_Pages
  imports Map_Lifecycle Nearby_Map Agency_Map Route_Map Map_Embed Stop_Panel Map_Popups
begin

text \<open>
  The five page scripts put together: each page's \<open>init\<close> function with its request, its load event
  with its load handler, and its bootstrap.
\<close>

section \<open>The init functions\<close>

definition initStopMap :: "jstring \<Rightarrow> host_env \<Rightarrow> host \<Rightarrow> host" where
  "initStopMap stopId env = init_map (env\<lparr>he_url := stop_map_url stopId \<noteq> None\<rparr>)"

definition initRouteMap :: "jstring \<Rightarrow> jstring \<Rightarrow> host_env \<Rightarrow> host \<Rightarrow> host" where
  "initRouteMap routeId direction env = init_map (env\<lparr>he_url := route_map_url routeId direction \<noteq> None\<rparr>)"

text \<open>\<open>URLSearchParams\<close> encodes every text, so this request is always sent.\<close>

definition initNearbyMap :: "host_env \<Rightarrow> host \<Rightarrow> host" where
  "initNearbyMap env = plain_init (env\<lparr>he_url := True\<rparr>)"

definition initStaticStopMap :: "jstring \<Rightarrow> host_env \<Rightarrow> host \<Rightarrow> host" where
  "initStaticStopMap mapType env = plain_init (env\<lparr>he_url := static_stop_map_url mapType \<noteq> None\<rparr>)"

definition initAgencyMap :: "jstring \<Rightarrow> host_env \<Rightarrow> host \<Rightarrow> host" where
  "initAgencyMap agencyId env = plain_init (env\<lparr>he_url := agency_url agencyId \<noteq> None\<rparr>)"

section \<open>The load events\<close>

definition stop_map_on_load ::
  "fpu \<Rightarrow> date_env \<Rightarrow> canvas_env \<Rightarrow> stop_map_payload \<Rightarrow> host_env \<Rightarrow> nat \<Rightarrow> host \<Rightarrow> host" where
  "stop_map_on_load F denv cv payload env m =
     on_map_load env m (returned (stop_map_load F denv cv payload new_stop_page))"

definition route_map_on_load ::
  "fpu \<Rightarrow> date_env \<Rightarrow> canvas_env \<Rightarrow> route_map_payload \<Rightarrow> host_env \<Rightarrow> nat \<Rightarrow> host \<Rightarrow> host" where
  "route_map_on_load F denv cv payload env m =
     on_map_load env m (returned (route_map_load F denv cv payload new_route_page))"

definition agency_map_on_load :: "map_route list \<Rightarrow> nat \<Rightarrow> host \<Rightarrow> host" where
  "agency_map_on_load routes m =
     agency_map_loaded m (returned (agency_map_load routes new_agency_page))"

section \<open>The bootstraps\<close>

definition bindStopMapRealtimeEmbed :: "embed_env \<Rightarrow> embed \<Rightarrow> embed" where
  "bindStopMapRealtimeEmbed env = bind_embed (env\<lparr>ee_kind := StopPage\<rparr>)"

definition bindRouteMapEmbed :: "embed_env \<Rightarrow> embed \<Rightarrow> embed" where
  "bindRouteMapEmbed env = bind_embed (env\<lparr>ee_kind := RoutePage\<rparr>)"

definition bindNearbyMapEmbed :: "embed_env \<Rightarrow> embed \<Rightarrow> embed" where
  "bindNearbyMapEmbed env = bind_embed (env\<lparr>ee_kind := NearbyPage\<rparr>)"

definition bindStaticStopMapEmbed :: "embed_env \<Rightarrow> embed \<Rightarrow> embed" where
  "bindStaticStopMapEmbed env = bind_embed (env\<lparr>ee_kind := StaticPage\<rparr>)"

definition bindAgencyMapEmbed :: "embed_env \<Rightarrow> embed \<Rightarrow> embed" where
  "bindAgencyMapEmbed env = bind_embed (env\<lparr>ee_kind := AgencyPage\<rparr>)"

section \<open>The click listeners of the loaded pages\<close>

text \<open>Every page meets the hypothesis of the popup properties.\<close>

lemma loaded_delegates:
  "cv_context cv \<Longrightarrow> route_map_load F env cv payload new_route_page = Done pg \<Longrightarrow>
     delegates_ok (click_delegates (rp_map pg))"
  "nearby_map_load F renv npayload new_map = Done m \<Longrightarrow> delegates_ok (click_delegates m)"
  "static_stop_map_load stops new_map = Done m \<Longrightarrow> delegates_ok (click_delegates m)"
proof -
  have p: "delegates_ok (click_delegates m)"
    if "m_listeners m = pair_listeners PlainStopPopup a b" for m a b
    using that by (auto simp: delegates_ok_def click_delegates_def pair_listeners_def)
  show "nearby_map_load F renv npayload new_map = Done m \<Longrightarrow> delegates_ok (click_delegates m)"
    using nearby_load_lib [of F renv npayload] p by auto
  show "static_stop_map_load stops new_map = Done m \<Longrightarrow> delegates_ok (click_delegates m)"
    using p by (auto simp: static_load_lib)
  assume "cv_context cv" "route_map_load F env cv payload new_route_page = Done pg"
  then have "m_listeners (rp_map pg) =
      (if rm_vehicles payload \<noteq> [] then pair_listeners VehiclePopup VEHICLE_ID VEHICLE_LABELS_ID else [])
        @ pair_listeners StopPopup STOPS_ID STOPS_LABELS_ID"
    using route_load_lib [of cv F env payload] by auto
  then show "delegates_ok (click_delegates (rp_map pg))"
    by (auto simp: delegates_ok_def click_delegates_def pair_listeners_def)
qed

section \<open>A load handler that throws strands the page\<close>

lemma stranded:
  assumes "ho_pending h = 0" and "ho_loading h = []" and "ho_started h" and "\<not> enabled h"
  shows "fold (on_host_event env) es h = h"
proof -
  have "refresh_click env h = h"
    using assms(4) by (auto simp: refresh_click_def enabled_def split: option.splits)
  then have "on_host_event env e h = h" for e
    using assms by (cases e) (simp_all add: start_map_def on_response_def on_map_load_def)
  then show ?thesis by (induction es) simp_all
qed

text \<open>
  C19: A stop map whose payload lists a route twice comes up broken and cannot be refreshed: its load
  handler throws at the second source, before the layer panel, the listeners, the clean-up function
  and the refresh handler are set up; the map stays as it is, and no click on refresh and no other
  event changes the page any more.
\<close>

theorem duplicate_route_strands_page:
  assumes "\<not> distinct (map route_key (sp_routes payload))" and "he_globals env"
    and "h = stop_map_on_load F denv cv payload env 0
           (on_response Payload (start_map (env\<lparr>he_url := True\<rparr>) (new_host l b)))"
  shows "\<not> returned (stop_map_load F denv cv payload new_stop_page)
     \<and> ho_maps h = [0] \<and> ho_panels h = [] \<and> ho_cleanup h = None
     \<and> (\<forall>es. fold (on_host_event env) es h = h)"
proof -
  from duplicate_route_aborts [OF assms(1)]
  have t: "\<not> returned (stop_map_load F denv cv payload new_stop_page)" by (metis returned.simps(2))
  have h: "ho_maps h = [0]" "ho_panels h = []" "ho_cleanup h = None" "ho_pending h = 0"
    "ho_loading h = []" "ho_started h" "\<not> enabled h"
    using assms(2) t
    by (simp_all add: assms(3) stop_map_on_load_def on_map_load_def on_response_def create_map_def
        start_map_def init_map_def set_loader_def new_host_def enabled_def Let_def split: option.split)
  then show ?thesis using t stranded by blast
qed

lemma duplicate_route_strands_page_witness:
  "let env = \<lparr>he_wrap = True, he_globals = True, he_url = True\<rparr>;
       payload = sample_payload\<lparr>sp_routes := [sample_route ''46A'' ''#e6194b'', sample_route ''46A'' ''#3cb44b'']\<rparr>;
       h = stop_map_on_load exact_fpu \<lparr>now = 0, date_value = (\<lambda>v. None), date_local = (\<lambda>i. [])\<rparr>
           \<lparr>cv_context = True, cv_roundRect = False\<rparr> payload env 0
           (on_response Payload (start_map (env\<lparr>he_url := True\<rparr>) (new_host True True)))
   in ho_panels h = [] \<and> on_host_event env RefreshClick h = h"
proof -
  let ?env = "\<lparr>he_wrap = True, he_globals = True, he_url = True\<rparr>"
  let ?p = "sample_payload\<lparr>sp_routes := [sample_route ''46A'' ''#e6194b'', sample_route ''46A'' ''#3cb44b'']\<rparr>"
  have d: "\<not> distinct (map route_key (sp_routes ?p))" by (simp add: sample_route_def route_key_def)
  have e: "he_globals ?env" by simp
  let ?h = "stop_map_on_load exact_fpu \<lparr>now = 0, date_value = (\<lambda>v. None), date_local = (\<lambda>i. [])\<rparr>
           \<lparr>cv_context = True, cv_roundRect = False\<rparr> ?p ?env 0
           (on_response Payload (start_map (?env\<lparr>he_url := True\<rparr>) (new_host True True)))"
  have "ho_panels ?h = [] \<and> fold (on_host_event ?env) [RefreshClick] ?h = ?h"
    using duplicate_route_strands_page [OF d e refl] by blast
  then show ?thesis by (simp only: Let_def fold.simps comp_def id_def)
qed

end
