(* ===== verification/Page_Popups.thy ===== *)
theory Page_Popups
  imports Map_Pages
begin

text \<open>
  From the payload to the popup: the popup functions of each page in the words of its own script,
  the environment its payload gives them, and clicks on what its layers draw.
\<close>

section \<open>The popup functions of the route, nearby and static maps\<close>

definition routeOpenPopupForStopId :: "popup_env \<Rightarrow> jsval \<Rightarrow> popups \<Rightarrow> popups outcome" where
  "routeOpenPopupForStopId env sid s =
     (let s = remove_popup VehicleWin s in
      case List.find (\<lambda>st. ms_stop_id st = sid) (pe_stops env) of
        None \<Rightarrow> Done s
      | Some stop \<Rightarrow>
          let s = setLngLat StopWin (ms_lon stop, ms_lat stop) s;
              s = setHTML StopWin (buildLoadingPopupHtml (stop_ref stop)) s;
              s = addTo StopWin s
          in case stop_detailed_url sid of
               None \<Rightarrow> Thrown URIError s
             | Some url \<Rightarrow> Done (s\<lparr>ps_pending := ps_pending s @ [stop]\<rparr>))"

definition routeOpenStopPopupFromFeature :: "popup_env \<Rightarrow> feature \<Rightarrow> popups \<Rightarrow> popups outcome" where
  "routeOpenStopPopupFromFeature env f s =
     (let s = remove_popup VehicleWin s; sid = js_prop f ''stop_id'' in routeOpenPopupForStopId env sid s)"

definition openVehiclePopupFromFeature :: "popup_env \<Rightarrow> feature \<Rightarrow> popups \<Rightarrow> popups outcome" where
  "openVehiclePopupFromFeature env f s =
     (let s = remove_popup StopWin s; s = setLngLat VehicleWin (coordinates f) s in
      case buildVehiclePopupHtml (pe_date env) (props_of f) of
        Inl e \<Rightarrow> Thrown e s
      | Inr h \<Rightarrow> (let s = setHTML VehicleWin h s in Done (addTo VehicleWin s)))"

definition nearbyOpenPopupForStopId :: "popup_env \<Rightarrow> jsval \<Rightarrow> popups \<Rightarrow> popups outcome" where
  "nearbyOpenPopupForStopId env sid s =
     (case List.find (\<lambda>st. ms_stop_id st = sid) (pe_stops env) of
        None \<Rightarrow> Done s
      | Some stop \<Rightarrow>
          let s = setLngLat StopWin (ms_lon stop, ms_lat stop) s;
              s = setHTML StopWin (buildLoadingPopupHtml (stop_ref stop)) s;
              s = addTo StopWin s
          in case stop_detailed_url sid of
               None \<Rightarrow> Thrown URIError s
             | Some url \<Rightarrow> Done (s\<lparr>ps_pending := ps_pending s @ [stop]\<rparr>))"

definition openStopFromFeature :: "popup_env \<Rightarrow> feature \<Rightarrow> popups \<Rightarrow> popups outcome" where
  "openStopFromFeature env f = nearbyOpenPopupForStopId env (js_prop f ''stop_id'')"

definition staticOpenStopPopupFromFeature :: "popup_env \<Rightarrow> feature \<Rightarrow> popups \<Rightarrow> popups outcome" where
  "staticOpenStopPopupFromFeature env f s =
     (let sid = js_prop f ''stop_id'' in
      case List.find (\<lambda>st. ms_stop_id st = sid) (pe_stops env) of
        None \<Rightarrow> Done s
      | Some stop \<Rightarrow>
          let s = setLngLat StopWin (ms_lon stop, ms_lat stop) s;
              s = setHTML StopWin (buildLoadingPopupHtml (stop_ref stop)) s;
              s = addTo StopWin s
          in case stop_detailed_url sid of
               None \<Rightarrow> Thrown URIError s
             | Some url \<Rightarrow> Done (s\<lparr>ps_pending := ps_pending s @ [stop]\<rparr>))"

text \<open>They are the handlers that \<open>Map_Popups\<close> runs.\<close>

lemma page_handlers:
  "run_handler env StopPopup = routeOpenStopPopupFromFeature env"
  "run_handler env VehiclePopup = openVehiclePopupFromFeature env"
  "run_handler env PlainStopPopup = openStopFromFeature env"
  "run_handler env PlainStopPopup = staticOpenStopPopupFromFeature env"
  by (rule ext, rule ext, simp add: on_stop_click_def openPopupForStopId_def routeOpenStopPopupFromFeature_def
      routeOpenPopupForStopId_def onVehicleClick_def openVehiclePopupFromFeature_def on_plain_click_def
      openStopFromFeature_def nearbyOpenPopupForStopId_def staticOpenStopPopupFromFeature_def Let_def
      split: option.split sum.split)+

section \<open>The loaded pages\<close>













section \<open>What the layers of a loaded page draw\<close>
























section \<open>Clicks\<close>







section \<open>Properties\<close>






end
