(* ===== verification/Page_Requests.thy ===== *)
theory Page_Requests
  imports Map_Pages
begin

text \<open>
  The scripts repeat their request, error and clean-up code page by page.  \<open>Map_Lifecycle\<close> models
  it once; here are the copies of the route, static and agency maps in their own statements, with
  the lemmas that they are the shared operations, so that what is shown of these holds for every
  page.  Also the contracts by name between the scripts: what \<open>maplibre-map-shared.js\<close>,
  \<open>stop-detail-popup.js\<close> and \<open>maplibre-ready.js\<close> export, and what the pages take from them.
\<close>

section \<open>The route map\<close>

definition routeMapCleanup :: "nat \<Rightarrow> host \<Rightarrow> host" where
  "routeMapCleanup m h =
     (let h = h\<lparr>ho_maps := removeAll m (ho_maps h), ho_loading := removeAll m (ho_loading h),
                ho_children := removeAll (Canvas m) (ho_children h)\<rparr>;
          h = (if m \<in> set (ho_panels h) then h\<lparr>ho_panels := removeAll m (ho_panels h)\<rparr> else h)
      in h\<lparr>ho_cleanup := None\<rparr>)"

definition routeMapFailed :: "host \<Rightarrow> host" where
  "routeMapFailed h =
     (let h = set_loader False h;
          h = (case ho_btn h of None \<Rightarrow> h | Some b \<Rightarrow> h\<lparr>ho_btn := Some (b\<lparr>rb_disabled := False\<rparr>)\<rparr>)
      in h\<lparr>ho_children := [ErrorText]\<rparr>)"

definition routeMapData :: "map_response \<Rightarrow> host \<Rightarrow> host" where
  "routeMapData r h =
     (if ho_pending h = 0 then h
      else let h = h\<lparr>ho_pending := ho_pending h - 1\<rparr>
           in case r of
                Failed \<Rightarrow> routeMapFailed h
              | NoMap \<Rightarrow> routeMapFailed (set_loader False h)
              | Payload \<Rightarrow>
                  let h = set_loader False h; n = ho_next h
                  in h\<lparr>ho_maps := ho_maps h @ [n], ho_children := ho_children h @ [Canvas n],
                       ho_loading := ho_loading h @ [n], ho_next := Suc n\<rparr>)"

text \<open>The last statements of the load handler: \<open>appendChild\<close>, the clean-up function, the button.\<close>

definition routeMapLoaded :: "host_env \<Rightarrow> nat \<Rightarrow> host \<Rightarrow> host" where
  "routeMapLoaded env m h =
     (let h = h\<lparr>ho_panels := ho_panels h @ [m]\<rparr>;
          h = (if he_wrap env then h\<lparr>ho_cleanup := Some m\<rparr> else h)
      in case ho_btn h of
           None \<Rightarrow> h
         | Some b \<Rightarrow> h\<lparr>ho_btn := Some (b\<lparr>rb_disabled := False, rb_onclick := True\<rparr>)\<rparr>)"

definition routeRefreshClick :: "jstring \<Rightarrow> jstring \<Rightarrow> host_env \<Rightarrow> host \<Rightarrow> host" where
  "routeRefreshClick routeId direction env h =
     (case ho_btn h of
        None \<Rightarrow> h
      | Some b \<Rightarrow>
          if \<not> rb_onclick b then h
          else if rb_disabled b then h
          else initRouteMap routeId direction env (h\<lparr>ho_btn := Some (b\<lparr>rb_disabled := True\<rparr>)\<rparr>))"

lemma route_map_shares:
  "routeMapCleanup = map_cleanup" "routeMapFailed = show_error" "routeMapData = on_response"
proof -
  show c: "routeMapCleanup = map_cleanup"
    by (intro ext) (simp add: routeMapCleanup_def map_cleanup_def Let_def removeAll_id)
  show f: "routeMapFailed = show_error"
    by (rule ext, rename_tac h, case_tac "ho_btn h")
      (simp_all add: routeMapFailed_def show_error_def set_loader_def Let_def)
  show "routeMapData = on_response"
    by (intro ext) (simp add: routeMapData_def on_response_def f create_map_def Let_def set_loader_def
        split: map_response.split)
qed

lemma route_map_loaded_shares:
  assumes "m \<in> set (ho_loading h)"
  shows "on_map_load env m True h = routeMapLoaded env m (h\<lparr>ho_loading := removeAll m (ho_loading h)\<rparr>)"
  using assms by (cases "ho_btn h") (simp_all add: on_map_load_def routeMapLoaded_def Let_def)

lemma route_refresh_shares:
  "routeRefreshClick routeId direction env =
     refresh_click (env\<lparr>he_url := route_map_url routeId direction \<noteq> None\<rparr>)"
  by (intro ext) (auto simp: routeRefreshClick_def refresh_click_def initRouteMap_def split: option.split)

section \<open>The static and the agency map\<close>

definition staticMapFailed :: "host \<Rightarrow> host" where
  "staticMapFailed h = (let h = set_loader False h in h\<lparr>ho_children := [ErrorText]\<rparr>)"

definition staticMapData :: "map_response \<Rightarrow> host \<Rightarrow> host" where
  "staticMapData r h =
     (if ho_pending h = 0 then h
      else let h = h\<lparr>ho_pending := ho_pending h - 1\<rparr>
           in case r of
                Failed \<Rightarrow> staticMapFailed h
              | NoMap \<Rightarrow> staticMapFailed (set_loader False h)
              | Payload \<Rightarrow>
                  let h = set_loader False h; n = ho_next h
                  in h\<lparr>ho_maps := ho_maps h @ [n], ho_children := ho_children h @ [Canvas n],
                       ho_loading := ho_loading h @ [n], ho_next := Suc n\<rparr>)"

definition agencyMapFailed :: "host \<Rightarrow> host" where
  "agencyMapFailed h = (let h = set_loader False h in h\<lparr>ho_children := [ErrorText]\<rparr>)"

definition agencyMapData :: "map_response \<Rightarrow> host \<Rightarrow> host" where
  "agencyMapData r h =
     (if ho_pending h = 0 then h
      else let h = h\<lparr>ho_pending := ho_pending h - 1\<rparr>
           in case r of
                Failed \<Rightarrow> agencyMapFailed h
              | NoMap \<Rightarrow> agencyMapFailed (set_loader False h)
              | Payload \<Rightarrow>
                  let h = set_loader False h; n = ho_next h
                  in h\<lparr>ho_maps := ho_maps h @ [n], ho_children := ho_children h @ [Canvas n],
                       ho_loading := ho_loading h @ [n], ho_next := Suc n\<rparr>)"

lemma plain_maps_share:
  "staticMapFailed = plain_show_error" "agencyMapFailed = plain_show_error"
  "staticMapData = plain_response" "agencyMapData = plain_response"
proof -
  show s: "staticMapFailed = plain_show_error" and a: "agencyMapFailed = plain_show_error"
    by (intro ext; simp add: staticMapFailed_def agencyMapFailed_def plain_show_error_def Let_def)+
  show "staticMapData = plain_response" "agencyMapData = plain_response"
    by (intro ext; simp add: staticMapData_def agencyMapData_def plain_response_def s a create_map_def Let_def
        set_loader_def split: map_response.split)+
qed

section \<open>Exports and imports\<close>

definition map_shared_exports :: "string list" where
  "map_shared_exports =
     [''createOsmRasterStyle'', ''LABEL_FONT'', ''MAP_LABEL_BADGE_PAINT'', ''VEHICLE_INLINE_LABEL_PAINT'',
      ''STOP_LABEL_MIN_ZOOM'', ''VEHICLE_INLINE_LABEL_OFFSET'', ''STOP_LABEL_TEXT_OFFSET'',
      ''MONO_MARKER_IMAGE_ID'', ''MONO_MARKER_IMAGE_URL'', ''VEHICLE_MAIN_ICON_SIZE'',
      ''VEHICLE_PULSE_MAX_AGE_MS'', ''vehiclePulseIsActive'', ''addDefaultMapControls'', ''setLayerVisibility'',
      ''loadMonoMarkerImage'', ''sanitizeRouteIdForImageKey'', ''registerVehicleIconForRoute'',
      ''startVehiclePulseAnimation'', ''vehicleIconRotateDegreesFromLineString'']"

definition stop_map_imports :: "string list" where
  "stop_map_imports =
     [''createOsmRasterStyle'', ''LABEL_FONT'', ''MAP_LABEL_BADGE_PAINT'', ''STOP_LABEL_MIN_ZOOM'',
      ''VEHICLE_INLINE_LABEL_OFFSET'', ''VEHICLE_INLINE_LABEL_PAINT'', ''STOP_LABEL_TEXT_OFFSET'',
      ''VEHICLE_MAIN_ICON_SIZE'', ''addDefaultMapControls'', ''setLayerVisibility'', ''registerVehicleIconForRoute'',
      ''startVehiclePulseAnimation'', ''vehicleIconRotateDegreesFromLineString'', ''vehiclePulseIsActive'']"

definition route_map_imports :: "string list" where
  "route_map_imports =
     [''createOsmRasterStyle'', ''LABEL_FONT'', ''MAP_LABEL_BADGE_PAINT'', ''STOP_LABEL_MIN_ZOOM'',
      ''VEHICLE_INLINE_LABEL_OFFSET'', ''VEHICLE_INLINE_LABEL_PAINT'', ''STOP_LABEL_TEXT_OFFSET'',
      ''VEHICLE_MAIN_ICON_SIZE'', ''addDefaultMapControls'', ''setLayerVisibility'', ''registerVehicleIconForRoute'',
      ''startVehiclePulseAnimation'', ''vehicleIconRotateDegreesFromLineString'', ''vehiclePulseIsActive'']"

definition nearby_map_imports :: "string list" where
  "nearby_map_imports =
     [''createOsmRasterStyle'', ''LABEL_FONT'', ''MAP_LABEL_BADGE_PAINT'', ''STOP_LABEL_MIN_ZOOM'',
      ''STOP_LABEL_TEXT_OFFSET'', ''MONO_MARKER_IMAGE_ID'', ''addDefaultMapControls'', ''loadMonoMarkerImage'']"

definition static_map_imports :: "string list" where
  "static_map_imports =
     [''createOsmRasterStyle'', ''LABEL_FONT'', ''MAP_LABEL_BADGE_PAINT'', ''STOP_LABEL_MIN_ZOOM'',
      ''STOP_LABEL_TEXT_OFFSET'', ''addDefaultMapControls'']"

definition agency_map_imports :: "string list" where
  "agency_map_imports = [''createOsmRasterStyle'', ''addDefaultMapControls'', ''setLayerVisibility'']"

definition popup_exports :: "string list" where
  "popup_exports = [''fetchStopDetailed'', ''buildPopupHtmlFromDetailed'', ''buildLoadingPopupHtml'',
     ''buildErrorPopupHtml'', ''buildStopTooltipHtml'', ''buildVehiclePopupHtml'', ''formatRelativeFromIso'']"

definition ready_exports :: "string list" where
  "ready_exports = [''whenMapLibreReady'', ''whenStopMapPopupReady'', ''whenMapWithPopupReady'']"

text \<open>No page destructures a name that is \<open>undefined\<close>; three of the exported names are taken by no page.\<close>

lemma imports_are_exported:
  "set stop_map_imports \<union> set route_map_imports \<union> set nearby_map_imports \<union> set static_map_imports
     \<union> set agency_map_imports \<subseteq> set map_shared_exports"
  "set map_shared_exports - (set stop_map_imports \<union> set route_map_imports \<union> set nearby_map_imports
     \<union> set static_map_imports \<union> set agency_map_imports)
     = {''MONO_MARKER_IMAGE_URL'', ''VEHICLE_PULSE_MAX_AGE_MS'', ''sanitizeRouteIdForImageKey''}"
  "distinct map_shared_exports"
  by code_simp+

end
