(* ===== verification/Page_Widgets.thy ===== *)
theory Page_Widgets
  imports Js_Prelude Event_Machine
begin

text \<open>
  The small scripts of the templates: the buttons that fold a section
  (\<open>templates/widgets/toggle_visibility.html\<close>), the button that asks for the visitor's location
  (\<open>templates/widgets/request_location.html\<close>), and the menu of \<open>templates/navbar.html\<close>.
\<close>

section \<open>Folding a section\<close>

text \<open>
  \<open>tv_max\<close> is \<open>content.style.maxHeight\<close> in pixels, \<open>None\<close> without one; \<open>tv_height\<close> is the \<open>scrollHeight\<close> of
  the content; \<open>tv_arrow\<close>: the button points up; \<open>tv_listeners\<close> counts its click listeners.
\<close>

record folding =
  tv_max :: "nat option"
  tv_height :: nat
  tv_arrow :: bool
  tv_added :: bool
  tv_listeners :: nat

text \<open>As the templates serve it: \<open>max-height:0\<close> and the arrow down.\<close>

definition served_folding :: "nat \<Rightarrow> folding" where
  "served_folding n = \<lparr>tv_max = Some 0, tv_height = n, tv_arrow = False, tv_added = False, tv_listeners = 0\<rparr>"

definition add_toggle :: "folding \<Rightarrow> folding" where
  "add_toggle s = (if tv_added s then s else s\<lparr>tv_listeners := Suc (tv_listeners s), tv_added := True\<rparr>)"

definition toggle_folding :: "folding \<Rightarrow> folding" where
  "toggle_folding s =
     (let isCollapsed = tv_max s \<noteq> Some 0
      in s\<lparr>tv_max := Some (if isCollapsed then 0 else tv_height s), tv_arrow := \<not> isCollapsed\<rparr>)"

text \<open>What is left of the content, which is cut off at the maximal height.\<close>

definition visible_height :: "folding \<Rightarrow> nat" where
  "visible_height s = (case tv_max s of None \<Rightarrow> tv_height s | Some m \<Rightarrow> min m (tv_height s))"

text \<open>\<open>ContentSwapped n\<close>: HTMX puts other content of that height into the section.\<close>

datatype folding_event = ToggleScript | ToggleClick | ContentSwapped nat

fun on_folding :: "folding_event \<Rightarrow> folding \<Rightarrow> folding" where
  "on_folding ToggleScript s = add_toggle s"
| "on_folding ToggleClick s = (toggle_folding ^^ tv_listeners s) s"
| "on_folding (ContentSwapped n) s = s\<lparr>tv_height := n\<rparr>"

definition folding_ok :: "folding \<Rightarrow> bool" where
  "folding_ok s \<longleftrightarrow> tv_listeners s = (if tv_added s then 1 else 0) \<and> (\<not> tv_arrow s \<longrightarrow> tv_max s = Some 0)
     \<and> tv_max s \<noteq> None"

lemma folding_step: "folding_ok s \<Longrightarrow> folding_ok (on_folding e s)"
  by (cases e) (auto simp: folding_ok_def add_toggle_def toggle_folding_def)

interpretation folding: kept on_folding folding_ok
  by unfold_locales (rule folding_step)

text \<open>Content that stays while the section is open, and is there when it is opened.\<close>

fun calm_folding :: "folding_event \<Rightarrow> folding \<Rightarrow> folding" where
  "calm_folding ToggleClick s = (if tv_height s = 0 then s else on_folding ToggleClick s)"
| "calm_folding (ContentSwapped n) s = (if tv_arrow s then s else on_folding (ContentSwapped n) s)"
| "calm_folding e s = on_folding e s"

definition folding_true :: "folding \<Rightarrow> bool" where
  "folding_true s \<longleftrightarrow> folding_ok s \<and> (tv_arrow s \<longrightarrow> tv_max s = Some (tv_height s) \<and> 0 < tv_height s)"

lemma calm_folding_step: "folding_true s \<Longrightarrow> folding_true (calm_folding e s)"
  by (cases e) (auto simp: folding_true_def folding_ok_def add_toggle_def toggle_folding_def)

interpretation calm_folding: kept calm_folding folding_true
  by unfold_locales (rule calm_folding_step)

text \<open>In calm use the arrow points up exactly when all of the content can be seen, and else nothing can.\<close>

theorem arrow_tells_truth:
  assumes "s = fold calm_folding es (served_folding n)"
  shows "visible_height s = (if tv_arrow s then tv_height s else 0)"
proof -
  have "folding_true s" unfolding assms
    by (rule calm_folding.run_inv) (simp add: folding_true_def folding_ok_def served_folding_def)
  then show ?thesis by (simp add: folding_true_def folding_ok_def visible_height_def)
qed

text \<open>
  A section that is opened before its content has come stays shut.  From every closed state of a
  section without content, the statistics page's before its requests are answered: a click turns the
  arrow up, the content that then comes cannot be seen, the next click shows it and leaves the arrow as it is;
  and content that comes into an open section is cut off at the height that was there before.
\<close>

theorem opened_before_content:
  assumes "s = fold on_folding es (served_folding k)" and "tv_added s" and "\<not> tv_arrow s" and "tv_height s = 0"
    and "t = fold on_folding [ToggleClick, ContentSwapped n] s" and "u = on_folding ToggleClick t"
  shows "tv_arrow t \<and> visible_height t = 0 \<and> tv_arrow u \<and> visible_height u = n
    \<and> visible_height (on_folding (ContentSwapped m) u) = min n m"
proof -
  have "folding_ok s" unfolding assms(1) by (rule folding.run_inv) (simp add: folding_ok_def served_folding_def)
  with assms(2-4) show ?thesis
    by (simp add: assms(5,6) folding_ok_def toggle_folding_def visible_height_def)
qed

lemma opened_before_content_witness:
  "let t = fold on_folding [ToggleScript, ToggleClick, ContentSwapped 300] (served_folding 0)
   in tv_arrow t \<and> visible_height t = 0"
proof -
  let ?s = "fold on_folding [ToggleScript] (served_folding 0)"
  have "tv_added ?s" "\<not> tv_arrow ?s" "tv_height ?s = 0" by code_simp+
  from opened_before_content [OF refl this refl refl, of 300] show ?thesis by (simp add: Let_def)
qed

section \<open>The location button\<close>

datatype location_text = StopsNearby | WaitingText | PermissionsRequired | TimedOutText | LocationFailed | NotSupported

text \<open>\<open>lo_waiting\<close>: the requests to the browser that are not answered; \<open>lo_href\<close>: where the page goes.\<close>

record location_button =
  lo_text :: location_text
  lo_disabled :: bool
  lo_waiting :: nat
  lo_href :: "jstring option"

definition nearby_href :: "jstring \<Rightarrow> jstring \<Rightarrow> jstring" where
  "nearby_href latitude longitude =
     lit ''/search/stops/nearby?latitude='' @ latitude @ lit ''&longitude='' @ longitude"

definition location_click :: "bool \<Rightarrow> location_button \<Rightarrow> location_button" where
  "location_click geolocation s =
     (if lo_disabled s then s
      else if geolocation then s\<lparr>lo_text := WaitingText, lo_waiting := Suc (lo_waiting s)\<rparr>
      else s\<lparr>lo_text := NotSupported, lo_disabled := True\<rparr>)"

text \<open>The browser's answer: the coordinates as texts, or an error with its code.\<close>

datatype location_answer = Position jstring jstring | PermissionDenied | Timeout | Unavailable

definition location_answered :: "location_answer \<Rightarrow> location_button \<Rightarrow> location_button" where
  "location_answered a s =
     (if lo_waiting s = 0 then s
      else let s = s\<lparr>lo_waiting := lo_waiting s - 1\<rparr>
           in case a of
                Position latitude longitude \<Rightarrow> s\<lparr>lo_href := Some (nearby_href latitude longitude)\<rparr>
              | PermissionDenied \<Rightarrow> s\<lparr>lo_text := PermissionsRequired, lo_disabled := True\<rparr>
              | Timeout \<Rightarrow> s\<lparr>lo_text := TimedOutText\<rparr>
              | Unavailable \<Rightarrow> s\<lparr>lo_text := LocationFailed\<rparr>)"

datatype location_event = LocationClick bool | LocationAnswered location_answer

fun on_location :: "location_event \<Rightarrow> location_button \<Rightarrow> location_button" where
  "on_location (LocationClick g) s = location_click g s"
| "on_location (LocationAnswered a) s = location_answered a s"

text \<open>A denial is final: the button stays disabled, and no further request is sent.\<close>

definition denied :: "nat \<Rightarrow> location_button \<Rightarrow> bool" where
  "denied n s \<longleftrightarrow> lo_disabled s \<and> lo_waiting s \<le> n"

lemma denied_step: "denied n s \<Longrightarrow> denied n (on_location e s)"
  by (cases e) (auto simp: denied_def location_click_def location_answered_def Let_def split: location_answer.split)

interpretation location_denied: kept on_location "denied n"
  by unfold_locales (rule denied_step)

lemma denied_for_good:
  assumes "0 < lo_waiting s" and "t = on_location (LocationAnswered PermissionDenied) s"
  shows "denied (lo_waiting s - 1) (fold on_location es t)"
proof -
  have "denied (lo_waiting s - 1) t" using assms(1) by (simp add: assms(2) denied_def location_answered_def Let_def)
  then show ?thesis by (rule location_denied.run_inv)
qed

section \<open>The menu\<close>

record dropdown =
  dd_shown :: "bool list"
  dd_rotated :: bool
  dd_expanded :: bool

definition toggleDropdown :: "dropdown \<Rightarrow> dropdown" where
  "toggleDropdown s =
     (let s = s\<lparr>dd_shown := map Not (dd_shown s)\<rparr>;
          s = s\<lparr>dd_rotated := \<not> dd_rotated s\<rparr>
      in s\<lparr>dd_expanded := dd_rotated s\<rparr>)"

text \<open>The attribute for screen readers, the arrow and the menu agree after any number of clicks.\<close>

lemma dropdown_agrees:
  "dd_rotated ((toggleDropdown ^^ n) \<lparr>dd_shown = replicate k False, dd_rotated = False, dd_expanded = False\<rparr>) = odd n
   \<and> dd_expanded ((toggleDropdown ^^ n) \<lparr>dd_shown = replicate k False, dd_rotated = False, dd_expanded = False\<rparr>) = odd n
   \<and> dd_shown ((toggleDropdown ^^ n) \<lparr>dd_shown = replicate k False, dd_rotated = False, dd_expanded = False\<rparr>) = replicate k (odd n)"
  by (induction n) (simp_all add: toggleDropdown_def Let_def)

end
