(* ===== verification/Style_Types.thy ===== *)
theory Style_Types
  imports Stop_Panel Route_Map Nearby_Map Agency_Map
begin

text \<open>
  A type system for the layers that the pages hand to \<open>map.addLayer\<close>.  MapLibre checks a layer
  against its style specification and reports, or silently drops, a property that does not fit; an
  expression that reads a missing property or a value of the wrong type falls back to a default
  while drawing.  Here an expression is typed against the properties that the features of the
  layer's source carry, and a layer against the part of the specification that the pages use.
\<close>

section \<open>Types and values\<close>

text \<open>
  \<open>NumT\<close> is the type of the numeric properties (\<open>f_nums\<close>), \<open>IntT\<close> that of number literals, \<open>ValueT\<close>
  that of a scalar of the payload, of which nothing more is known.
\<close>

datatype ty = BoolT | IntT | NumT | StrT | ColorT | NullT | ValueT

instantiation ty :: order
begin

definition less_eq_ty :: "ty \<Rightarrow> ty \<Rightarrow> bool" where
  "less_eq_ty s t \<longleftrightarrow> s = t \<or> t = ValueT \<and> s \<noteq> NumT \<or> s = ColorT \<and> t = StrT \<or> s = IntT \<and> t = NumT"

definition less_ty :: "ty \<Rightarrow> ty \<Rightarrow> bool" where
  "less_ty s t \<longleftrightarrow> s \<noteq> t \<and> s \<le> t"

instance
  by standard (auto simp: less_eq_ty_def less_ty_def)

end

definition hex_unit :: "16 word \<Rightarrow> bool" where
  "hex_unit u \<longleftrightarrow> 48 \<le> u \<and> u \<le> 57 \<or> 97 \<le> u \<and> u \<le> 102 \<or> 65 \<le> u \<and> u \<le> 70"

text \<open>The colours in use: \<open>#rrggbb\<close>, and one translucent grey.\<close>

definition is_color :: "jstring \<Rightarrow> bool" where
  "is_color s \<longleftrightarrow> length s = 7 \<and> hd s = 35 \<and> list_all hex_unit (tl s)
     \<or> s = lit ''rgba(17,24,39,0.75)''"

fun val_ok :: "jsval \<Rightarrow> ty \<Rightarrow> bool" where
  "val_ok v BoolT = (case v of JBool b \<Rightarrow> True | _ \<Rightarrow> False)"
| "val_ok v IntT = (case v of JInt i \<Rightarrow> True | _ \<Rightarrow> False)"
| "val_ok v NumT = (case v of JInt i \<Rightarrow> True | _ \<Rightarrow> False)"
| "val_ok v StrT = (case v of JStr s \<Rightarrow> True | _ \<Rightarrow> False)"
| "val_ok v ColorT = (case v of JStr s \<Rightarrow> is_color s | _ \<Rightarrow> False)"
| "val_ok v NullT = (v = JNull)"
| "val_ok v ValueT = (v \<noteq> JUndef)"

lemma val_ok_mono: "val_ok v s \<Longrightarrow> s \<le> t \<Longrightarrow> val_ok v t"
  by (cases s; cases t) (auto simp: less_eq_ty_def split: jsval.splits)

section \<open>Typing of expressions\<close>

text \<open>The properties of the features of a source, with their types.\<close>

type_synonym schema = "(string \<times> ty) list"

text \<open>MapLibre compares booleans, strings, numbers and null, and anything with a dynamic value.\<close>

definition comparable :: "ty \<Rightarrow> ty \<Rightarrow> bool" where
  "comparable s t \<longleftrightarrow> s \<le> ValueT \<and> t \<le> ValueT \<and> (s \<le> t \<or> t \<le> s)"

inductive has_ty :: "schema \<Rightarrow> expr \<Rightarrow> ty \<Rightarrow> bool" for G :: schema where
  Get_ty: "map_of G k = Some t \<Longrightarrow> has_ty G (Get k) t"
| Bool_ty: "has_ty G (Lit (JBool b)) BoolT"
| Int_ty: "has_ty G (Lit (JInt i)) IntT"
| Null_ty: "has_ty G (Lit JNull) NullT"
| Color_ty: "is_color s \<Longrightarrow> has_ty G (Lit (JStr s)) ColorT"
| Str_ty: "\<not> is_color s \<Longrightarrow> has_ty G (Lit (JStr s)) StrT"
| EqE_ty: "has_ty G a s \<Longrightarrow> has_ty G b t \<Longrightarrow> comparable s t \<Longrightarrow> has_ty G (EqE a b) BoolT"
| AllE_ty: "\<forall>e \<in> set es. has_ty G e BoolT \<Longrightarrow> has_ty G (AllE es) BoolT"
| ToString_ty: "has_ty G e t \<Longrightarrow> t \<le> ValueT \<Longrightarrow> has_ty G (ToString e) StrT"
| Coalesce_ty: "\<forall>e \<in> set es. \<exists>t \<le> ValueT. has_ty G e t \<Longrightarrow> has_ty G (Coalesce es) ValueT"

inductive_simps has_ty_simps [simp]:
  "has_ty G (Get k) t" "has_ty G (Lit v) t" "has_ty G (EqE a b) t" "has_ty G (AllE es) t"
  "has_ty G (ToString e) t" "has_ty G (Coalesce es) t"

text \<open>The types can be computed.\<close>

fun infer :: "schema \<Rightarrow> expr \<Rightarrow> ty option" where
  "infer G (Get k) = map_of G k"
| "infer G (Lit v) = (case v of
      JUndef \<Rightarrow> None | JNull \<Rightarrow> Some NullT | JBool b \<Rightarrow> Some BoolT | JInt i \<Rightarrow> Some IntT
    | JStr s \<Rightarrow> Some (if is_color s then ColorT else StrT))"
| "infer G (EqE a b) = (case (infer G a, infer G b) of
      (Some s, Some t) \<Rightarrow> if comparable s t then Some BoolT else None
    | _ \<Rightarrow> None)"
| "infer G (AllE es) = (if list_all (\<lambda>e. infer G e = Some BoolT) es then Some BoolT else None)"
| "infer G (ToString e) = (case infer G e of Some t \<Rightarrow> if t \<le> ValueT then Some StrT else None | None \<Rightarrow> None)"
| "infer G (Coalesce es) =
     (if list_all (\<lambda>e. case infer G e of Some t \<Rightarrow> t \<le> ValueT | None \<Rightarrow> False) es
      then Some ValueT else None)"

lemma infer_has_ty: "infer G e = Some t \<Longrightarrow> has_ty G e t"
proof (induction e arbitrary: t)
  case (Coalesce es)
  then show ?case
    by (auto simp: list_all_iff split: if_splits option.splits) (metis option.exhaust)
qed (auto simp: list_all_iff split: option.splits if_splits jsval.splits)

lemma has_ty_infer: "has_ty G e t \<Longrightarrow> infer G e = Some t"
  by (induction rule: has_ty.induct) (fastforce simp: list_all_iff)+

lemma infer_iff: "infer G e = Some t \<longleftrightarrow> has_ty G e t"
  using infer_has_ty has_ty_infer by blast

section \<open>Soundness\<close>

text \<open>A feature carries the properties of the schema, with values of their types.\<close>

definition conforms :: "schema \<Rightarrow> feature \<Rightarrow> bool" where
  "conforms G f \<longleftrightarrow> list_all (\<lambda>(k, t).
     if t = NumT then get_num f k \<noteq> None
     else map_of (f_props f) k \<noteq> None \<and> val_ok (get_prop f k) t) G"

text \<open>The number that an expression of a numeric type denotes.\<close>

fun eval_num :: "feature \<Rightarrow> expr \<Rightarrow> real option" where
  "eval_num f (Get k) = get_num f k"
| "eval_num f (Lit (JInt i)) = Some (real_of_int i)"
| "eval_num f e = None"

definition yields :: "feature \<Rightarrow> expr \<Rightarrow> ty \<Rightarrow> bool" where
  "yields f e t \<longleftrightarrow> t = NumT \<and> eval_num f e \<noteq> None \<or> val_ok (eval f e) t"

lemma first_non_null_defined: "list_all (\<lambda>v. v \<noteq> JUndef) vs \<Longrightarrow> first_non_null vs \<noteq> JUndef"
  by (induction vs) auto

lemma yields_mono: "yields f e s \<Longrightarrow> s \<le> t \<Longrightarrow> yields f e t"
  using val_ok_mono [of "eval f e" s t] by (auto simp: yields_def less_eq_ty_def split: if_splits)

lemma typed_yields: "has_ty G e t \<Longrightarrow> conforms G f \<Longrightarrow> yields f e t"
proof (induction rule: has_ty.induct)
  case (Get_ty k t)
  then have "(k, t) \<in> set G" by (simp add: map_of_SomeD)
  with Get_ty.prems have "if t = NumT then get_num f k \<noteq> None else val_ok (get_prop f k) t"
    by (fastforce simp: conforms_def list_all_iff)
  then show ?case by (simp add: yields_def split: if_splits)
next
  case (Coalesce_ty es)
  have "list_all (\<lambda>v. v \<noteq> JUndef) (map (eval f) es)"
    unfolding list_all_iff
  proof
    fix v
    assume "v \<in> set (map (eval f) es)"
    then obtain e where e: "e \<in> set es" "v = eval f e" by auto
    with Coalesce_ty obtain t where "t \<le> ValueT" "yields f e t" by blast
    then have "yields f e ValueT" by (rule yields_mono [rotated])
    then show "v \<noteq> JUndef" by (simp add: yields_def e(2))
  qed
  then show ?case by (simp add: yields_def first_non_null_defined)
qed (simp_all add: yields_def)

section \<open>The style specification\<close>

text \<open>
  What a property takes: a number within bounds, a colour, a boolean, one of some words, a vector,
  a list of font names, a text, the name of an image.
\<close>

datatype spec_ty = NumP real "real option" | ColorP | BoolP | WordP "string list" | VectorP nat | FontsP | TextP | ImageP

definition takes_number :: "real \<Rightarrow> real option \<Rightarrow> real \<Rightarrow> bool" where
  "takes_number lo hi x \<longleftrightarrow> lo \<le> x \<and> (case hi of None \<Rightarrow> True | Some h \<Rightarrow> x \<le> h)"

fun fits :: "schema \<Rightarrow> spec_ty \<Rightarrow> prop_value \<Rightarrow> bool" where
  "fits G p (PNum x) = (case p of NumP lo hi \<Rightarrow> takes_number lo hi x | _ \<Rightarrow> False)"
| "fits G p (PBool b) = (p = BoolP)"
| "fits G p (PNums xs) = (p = VectorP (length xs))"
| "fits G p (PStrs ss) = (p = FontsP \<and> ss \<noteq> [])"
| "fits G p (PStr s) = (case p of
      ColorP \<Rightarrow> is_color s | WordP ws \<Rightarrow> s \<in> set (map lit ws) | TextP \<Rightarrow> True | ImageP \<Rightarrow> True | _ \<Rightarrow> False)"
| "fits G p (PExpr e) = (case infer G e of
      None \<Rightarrow> False
    | Some t \<Rightarrow> (case p of NumP lo hi \<Rightarrow> t \<le> NumT | ColorP \<Rightarrow> t \<le> ColorT | TextP \<Rightarrow> t \<le> StrT | _ \<Rightarrow> False))"

text \<open>The type that an expression for the property has to have.\<close>

definition spec_value_ty :: "spec_ty \<Rightarrow> ty" where
  "spec_value_ty p = (case p of NumP lo hi \<Rightarrow> NumT | ColorP \<Rightarrow> ColorT | TextP \<Rightarrow> StrT | _ \<Rightarrow> NullT)"

definition visibility_spec :: "string \<times> spec_ty" where
  "visibility_spec = (''visibility'', WordP [''visible'', ''none''])"

definition layout_spec :: "string \<Rightarrow> (string \<times> spec_ty) list" where
  "layout_spec lt = visibility_spec #
     (if lt = ''line'' then [(''line-join'', WordP [''bevel'', ''round'', ''miter'']),
         (''line-cap'', WordP [''butt'', ''round'', ''square''])]
      else if lt = ''symbol'' then
        [(''icon-image'', ImageP), (''icon-size'', NumP 0 None), (''icon-rotate'', NumP (-360) (Some 360)),
         (''icon-allow-overlap'', BoolP), (''icon-ignore-placement'', BoolP),
         (''icon-anchor'', WordP [''center'', ''left'', ''right'', ''top'', ''bottom'']),
         (''icon-rotation-alignment'', WordP [''map'', ''viewport'', ''auto'']),
         (''text-field'', TextP), (''text-size'', NumP 0 None), (''text-offset'', VectorP 2),
         (''text-anchor'', WordP [''center'', ''left'', ''right'', ''top'', ''bottom'']),
         (''text-allow-overlap'', BoolP), (''text-ignore-placement'', BoolP), (''text-font'', FontsP),
         (''text-rotation-alignment'', WordP [''map'', ''viewport'', ''auto''])]
      else [])"

definition paint_spec :: "string \<Rightarrow> (string \<times> spec_ty) list" where
  "paint_spec lt =
     (if lt = ''line'' then [(''line-color'', ColorP), (''line-width'', NumP 0 None), (''line-opacity'', NumP 0 (Some 1))]
      else if lt = ''circle'' then
        [(''circle-radius'', NumP 0 None), (''circle-color'', ColorP), (''circle-opacity'', NumP 0 (Some 1)),
         (''circle-blur'', NumP 0 None), (''circle-stroke-width'', NumP 0 None), (''circle-stroke-color'', ColorP)]
      else if lt = ''symbol'' then
        [(''icon-opacity'', NumP 0 (Some 1)), (''text-color'', ColorP), (''text-halo-color'', ColorP),
         (''text-halo-width'', NumP 0 None), (''text-halo-blur'', NumP 0 None)]
      else if lt = ''fill'' then [(''fill-color'', ColorP), (''fill-opacity'', NumP 0 (Some 1))]
      else [])"

definition props_typed :: "schema \<Rightarrow> (string \<times> spec_ty) list \<Rightarrow> (string \<times> prop_value) list \<Rightarrow> bool" where
  "props_typed G sp ps \<longleftrightarrow> list_all (\<lambda>(k, v). case map_of sp k of None \<Rightarrow> False | Some p \<Rightarrow> fits G p v) ps"

definition source_fits :: "string \<Rightarrow> source \<Rightarrow> bool" where
  "source_fits lt s \<longleftrightarrow> (case s of RasterTiles ts \<Rightarrow> lt = ''raster'' | _ \<Rightarrow> lt \<in> {''line'', ''circle'', ''symbol'', ''fill''})"

definition layer_typed :: "(jstring \<Rightarrow> schema) \<Rightarrow> (jstring \<rightharpoonup> source) \<Rightarrow> layer \<Rightarrow> bool" where
  "layer_typed S srcs l \<longleftrightarrow> (case srcs (l_source l) of
      None \<Rightarrow> False
    | Some s \<Rightarrow>
        source_fits (l_type l) s \<and> list_all (conforms (S (l_source l))) (source_features s)
        \<and> (case l_filter l of None \<Rightarrow> True | Some e \<Rightarrow> infer (S (l_source l)) e = Some BoolT)
        \<and> props_typed (S (l_source l)) (layout_spec (l_type l)) (l_layout l)
        \<and> props_typed (S (l_source l)) (paint_spec (l_type l)) (l_paint l))"

definition style_typed :: "(jstring \<Rightarrow> schema) \<Rightarrow> style_map \<Rightarrow> bool" where
  "style_typed S m \<longleftrightarrow> list_all (layer_typed S (m_sources m)) (m_layers m)"

text \<open>What MapLibre meets when it draws: every filter is a boolean, every data-driven property has
  a value of the type its specification asks for.\<close>

definition draws_soundly :: "layer \<Rightarrow> feature \<Rightarrow> bool" where
  "draws_soundly l f \<longleftrightarrow>
     (\<forall>e. l_filter l = Some e \<longrightarrow> (\<exists>b. eval f e = JBool b))
     \<and> (\<forall>k e. (k, PExpr e) \<in> set (l_layout l) \<longrightarrow>
          (\<exists>p. map_of (layout_spec (l_type l)) k = Some p \<and> yields f e (spec_value_ty p)))
     \<and> (\<forall>k e. (k, PExpr e) \<in> set (l_paint l) \<longrightarrow>
          (\<exists>p. map_of (paint_spec (l_type l)) k = Some p \<and> yields f e (spec_value_ty p)))"

lemma fits_yields:
  assumes "fits G p (PExpr e)" and "conforms G f"
  shows "yields f e (spec_value_ty p)"
proof -
  obtain t where t: "infer G e = Some t" using assms(1) by (auto split: option.splits)
  then have "yields f e t" using typed_yields [OF infer_has_ty assms(2)] by blast
  moreover have "t \<le> spec_value_ty p"
    using assms(1) t by (cases p) (auto simp: spec_value_ty_def)
  ultimately show ?thesis by (rule yields_mono)
qed

lemma props_yield:
  assumes "props_typed G sp ps" and "(k, PExpr e) \<in> set ps" and "conforms G f"
  shows "\<exists>p. map_of sp k = Some p \<and> yields f e (spec_value_ty p)"
proof -
  from assms(1,2) have "case map_of sp k of None \<Rightarrow> False | Some p \<Rightarrow> fits G p (PExpr e)"
    by (fastforce simp: props_typed_def list_all_iff)
  then obtain p where p: "map_of sp k = Some p" "fits G p (PExpr e)" by (auto split: option.splits)
  with fits_yields [OF p(2) assms(3)] show ?thesis by blast
qed

lemma style_typed_sound:
  assumes "style_typed S m" and "l \<in> set (m_layers m)" and "m_sources m (l_source l) = Some s"
    and "f \<in> set (source_features s)"
  shows "draws_soundly l f"
proof -
  let ?G = "S (l_source l)"
  from assms have l: "conforms ?G f" "case l_filter l of None \<Rightarrow> True | Some e \<Rightarrow> infer ?G e = Some BoolT"
    "props_typed ?G (layout_spec (l_type l)) (l_layout l)" "props_typed ?G (paint_spec (l_type l)) (l_paint l)"
    by (auto simp: style_typed_def layer_typed_def list_all_iff)
  have "\<exists>b. eval f e = JBool b" if "l_filter l = Some e" for e
    using typed_yields [OF infer_has_ty l(1), of e BoolT] l(2) that
    by (auto simp: yields_def split: jsval.splits)
  then show ?thesis
    using props_yield [OF l(3) _ l(1)] props_yield [OF l(4) _ l(1)] by (simp add: draws_soundly_def)
qed

text \<open>Setting a fitting property keeps a style typed.\<close>

lemma set_upsert: "set (upsert k v ps) \<subseteq> insert (k, v) (set ps)"
  by (induction k v ps rule: upsert.induct) auto

lemma props_typed_upsert:
  "props_typed G sp ps \<Longrightarrow> map_of sp k = Some p \<Longrightarrow> fits G p v \<Longrightarrow> props_typed G sp (upsert k v ps)"
  using set_upsert [of k v ps] by (fastforce simp: props_typed_def list_all_iff)

lemma layer_typed_visibility:
  assumes "layer_typed S srcs l" and "w \<in> {''visible'', ''none''}"
  shows "layer_typed S srcs (l\<lparr>l_layout := upsert ''visibility'' (PStr (lit w)) (l_layout l)\<rparr>)"
proof -
  have "map_of (layout_spec (l_type l)) ''visibility'' = Some (WordP [''visible'', ''none''])"
    by (simp add: layout_spec_def visibility_spec_def)
  moreover have "fits G (WordP [''visible'', ''none'']) (PStr (lit w))" for G using assms(2) by auto
  ultimately show ?thesis
    using assms(1) props_typed_upsert by (auto simp: layer_typed_def split: option.splits)
qed

lemma setLayerVisibility_typed: "style_typed S m \<Longrightarrow> style_typed S (setLayerVisibility i b m)"
  using layer_typed_visibility [of S "m_sources m" _ "if b then ''visible'' else ''none''"]
  by (auto simp: setLayerVisibility_def setLayoutProperty_def update_layer_def style_typed_def list_all_iff)

section \<open>The layers of the pages\<close>

definition vehicle_schema :: schema where
  "vehicle_schema = [(''route_id'', ValueT), (''color'', ColorT), (''vehicle_id'', ValueT), (''trip_id'', ValueT),
     (''route_short_name'', ValueT), (''agency_name'', ValueT), (''time_of_update'', ValueT),
     (''pulse_active'', BoolT), (''map_direction'', ValueT), (''heading_deg'', NumT)]"

text \<open>The schema of each source; only the stop map has the focus flag.\<close>

definition page_schema :: "bool \<Rightarrow> jstring \<Rightarrow> schema" where
  "page_schema focus i =
     (if i = lit ''stops-src''
      then [(''stop_id'', ValueT), (''stop_code'', ValueT)] @ (if focus then [(''is_focus'', ValueT)] else [])
      else if i = lit ''vehicles-src'' then vehicle_schema
      else [])"

text \<open>The server sends colours as \<open>#rrggbb\<close> and gives every route an id.\<close>

definition route_ok :: "map_route \<Rightarrow> bool" where
  "route_ok r \<longleftrightarrow> val_ok (mr_color r) ColorT \<and> mr_route_id r \<noteq> JUndef"

lemma get_prop_defined [simp]: "get_prop f k \<noteq> JUndef"
  by (simp add: get_prop_def split: option.split)

lemma stop_conforms [simp]:
  "conforms (page_schema True (lit ''stops-src'')) (focus_stop_feature s)"
  "conforms (page_schema False (lit ''stops-src'')) (plain_stop_feature s)"
  by (simp_all add: conforms_def page_schema_def focus_stop_feature_def plain_stop_feature_def point_feature_def)

lemma vehicle_conforms:
  assumes "val_ok (mv_color v) ColorT"
  shows "conforms (page_schema b (lit ''vehicles-src'')) (vehicle_feature env d h v)"
proof -
  have "get_prop (vehicle_feature env d h v) ''color'' = mv_color v"
    using assms by (auto simp: get_prop_def vehicle_feature_def point_feature_def)
  moreover have "get_prop (vehicle_feature env d h v) ''pulse_active'' = JBool (vehiclePulseIsActive env (mv_time_of_update v))"
    by (simp add: get_prop_def vehicle_feature_def point_feature_def)
  ultimately show ?thesis using assms
    by (simp add: conforms_def page_schema_def vehicle_schema_def lit_eq_iff del: val_ok.simps)
      (simp add: vehicle_feature_def point_feature_def get_num_def)
qed

lemma schema_other: "i \<noteq> lit ''stops-src'' \<Longrightarrow> i \<noteq> lit ''vehicles-src'' \<Longrightarrow> page_schema b i = []"
  by (simp add: page_schema_def)

lemma colors [simp]:
  "is_color (lit ''#ffffff'')" "is_color (lit ''#333333'')" "is_color (lit ''#2563eb'')" "is_color (lit ''#dc2626'')"
  "is_color (lit ''#313b46'')" "is_color (lit ''rgba(17,24,39,0.75)'')"
  by (simp_all add: is_color_def lit_def hex_unit_def)

lemma color_literal: "val_ok c ColorT \<Longrightarrow> infer G (Lit c) = Some ColorT"
  by (auto split: jsval.splits)

lemma osm_typed: "m_sources m (lit ''osm'') = Some (RasterTiles ts) \<Longrightarrow> layer_typed S (m_sources m) osm_layer"
  by (simp add: osm_layer_def map_of_style_def createOsmRasterStyle_def layer_typed_def source_fits_def
      props_typed_def)

lemma line_typed:
  assumes "srcs i = Some (FeatureData (line_feature r))" and "val_ok c ColorT" and "0 \<le> w" and "0 \<le> a" and "a \<le> 1"
    and "S i = []"
  shows "layer_typed S srcs (line_layer lid i c w a)"
  using assms(1,3-6) color_literal [OF assms(2)]
  by (simp add: layer_typed_def line_layer_def source_fits_def props_typed_def layout_spec_def paint_spec_def
      visibility_spec_def takes_number_def conforms_def less_eq_ty_def del: infer.simps)

lemma focus_filter_typed:
  "filt = None \<or> b \<and> (\<exists>x. filt = Some (is_focus x)) \<Longrightarrow>
   case filt of None \<Rightarrow> True | Some e \<Rightarrow> infer (page_schema b (lit ''stops-src'')) e = Some BoolT"
  by (auto simp: is_focus_def page_schema_def comparable_def less_eq_ty_def)

lemma circle_typed:
  assumes "srcs (lit ''stops-src'') = Some (CollectionData fs)"
    and "list_all (conforms (page_schema b (lit ''stops-src''))) fs"
    and "filt = None \<or> b \<and> (\<exists>x. filt = Some (is_focus x))" and "0 \<le> rad" and "0 \<le> sw"
    and "is_color (lit c1)" and "is_color (lit c2)"
  shows "layer_typed (page_schema b) srcs (circle_layer lid filt rad c1 sw c2)"
  using assms(1,2,4-7) focus_filter_typed [OF assms(3)]
  by (cases filt; simp add: layer_typed_def circle_layer_def source_fits_def props_typed_def layout_spec_def
      paint_spec_def takes_number_def)

lemma label_typed:
  assumes "srcs (lit ''stops-src'') = Some (CollectionData fs)"
    and "list_all (conforms (page_schema b (lit ''stops-src''))) fs"
    and "filt = None \<or> b \<and> (\<exists>x. filt = Some (is_focus x))"
  shows "layer_typed (page_schema b) srcs (stop_label_layer lid filt)"
proof -
  have "map_of (page_schema b (lit ''stops-src'')) ''stop_code'' = Some ValueT" by (simp add: page_schema_def)
  then show ?thesis
    using assms(1,2) focus_filter_typed [OF assms(3)]
    by (cases filt; simp add: layer_typed_def stop_label_layer_def source_fits_def props_typed_def layout_spec_def
        paint_spec_def visibility_spec_def takes_number_def STOP_LABEL_TEXT_OFFSET_def LABEL_FONT_def
        MAP_LABEL_BADGE_PAINT_def less_eq_ty_def)
qed

lemmas stop_layers_typed = circle_typed label_typed

lemma vehicle_layers_typed:
  assumes "srcs (lit ''vehicles-src'') = Some (CollectionData fs)"
    and "list_all (conforms (page_schema b (lit ''vehicles-src''))) fs" and "rid \<noteq> JUndef"
  shows "layer_typed (page_schema b) srcs (vehicle_pulse_layer lid rid)"
    and "layer_typed (page_schema b) srcs (vehicle_layer lid iconId rid)"
    and "layer_typed (page_schema b) srcs (vehicle_label_layer lid rid)"
proof -
  let ?G = "page_schema b (lit ''vehicles-src'')"
  have G: "map_of ?G ''route_id'' = Some ValueT" "map_of ?G ''pulse_active'' = Some BoolT" "map_of ?G ''color'' = Some ColorT"
    "map_of ?G ''heading_deg'' = Some NumT" "map_of ?G ''route_short_name'' = Some ValueT"
    by (simp_all add: page_schema_def vehicle_schema_def lit_eq_iff)
  have r: "infer ?G (of_route rid) = Some BoolT"
    using assms(3) by (cases rid) (auto simp: of_route_def G comparable_def less_eq_ty_def)
  show "layer_typed (page_schema b) srcs (vehicle_pulse_layer lid rid)"
    using assms(1,2) r
    by (simp add: layer_typed_def vehicle_pulse_layer_def source_fits_def props_typed_def layout_spec_def
        paint_spec_def takes_number_def pulse_active_of_def G comparable_def less_eq_ty_def)
  show "layer_typed (page_schema b) srcs (vehicle_layer lid iconId rid)"
    using assms(1,2) r
    by (simp add: layer_typed_def vehicle_layer_def source_fits_def props_typed_def layout_spec_def
        paint_spec_def visibility_spec_def takes_number_def G less_eq_ty_def VEHICLE_MAIN_ICON_SIZE_def)
  show "layer_typed (page_schema b) srcs (vehicle_label_layer lid rid)"
    using assms(1,2) r
    by (simp add: layer_typed_def vehicle_label_layer_def source_fits_def props_typed_def layout_spec_def
        paint_spec_def visibility_spec_def takes_number_def G less_eq_ty_def LABEL_FONT_def
        VEHICLE_INLINE_LABEL_OFFSET_def VEHICLE_INLINE_LABEL_PAINT_def is_color_def [of "[]"])
qed

lemma set_route_typed: "style_typed S m \<Longrightarrow> style_typed S (set_route rs b r m)"
  by (simp add: set_route_def set_route_layers_def setLayerVisibility_typed split: option.split)

lemma set_routes_typed: "style_typed S m \<Longrightarrow> style_typed S (fold (set_route rs b) routes m)"
  by (induction routes arbitrary: m) (simp_all add: set_route_typed)

lemma panel_event_typed: "style_typed S (pg_map pg) \<Longrightarrow> style_typed S (pg_map (on_panel_event routes e pg))"
  by (auto simp: on_panel_event_def toggle_all_def route_change_def stops_change_def Let_def set_stops_def
      setLayerVisibility_typed set_route_typed set_routes_typed split: option.split panel_event.split)

text \<open>An invariant of the panel machine, interpreted on the page's own handler.\<close>

interpretation typed_panel: kept "on_panel_event routes" "\<lambda>pg. style_typed S (pg_map pg)"
  by unfold_locales (rule panel_event_typed)

lemma osm_source: "m_sources (pg_map new_stop_page) (lit ''osm'') = Some (RasterTiles [lit ''https://tile.openstreetmap.org/{z}/{x}/{y}.png''])"
  by (simp add: new_page_map)

lemma loaded_stop_typed:
  assumes "cv_context cv" and "route_keys_ok (sp_routes payload)" and "\<forall>r \<in> set (sp_routes payload). route_ok r"
    and "\<forall>v \<in> set (sp_vehicles payload). val_ok (mv_color v) ColorT"
    and "stop_map_load F env cv payload new_stop_page = Done pg"
  shows "style_typed (page_schema True) (pg_map pg)"
proof -
  let ?m = "pg_map pg" and ?hv = "sp_vehicles payload \<noteq> []" and ?rs = "sp_routes payload" and ?S = "page_schema True"
  note l = load_lib [OF assms(1,2), of F env, unfolded assms(5), simplified]
  have osm: "layer_typed ?S (m_sources ?m) osm_layer" using l osm_source by (intro osm_typed) simp
  have lines: "layer_typed ?S (m_sources ?m) (route_line r)" if "r \<in> set ?rs" for r
    unfolding route_line_def
    using l that assms(3) schema_other [OF src_fixed(2,3)] by (intro line_typed [where r = r]) (auto simp: route_ok_def)
  have s: "m_sources ?m (lit ''stops-src'') = Some (CollectionData (map focus_stop_feature (sp_stops payload)))"
    "list_all (conforms (?S (lit ''stops-src''))) (map focus_stop_feature (sp_stops payload))"
    using l by (simp_all add: stopsGeojson_def list_all_iff)
  have stops: "layer_typed ?S (m_sources ?m) x" if "x \<in> set (stop_circles @ stop_labels)" for x
    using that by (auto simp: stop_circles_def stop_labels_def intro!: stop_layers_typed [where b = True and srcs = "m_sources ?m", OF s])
  have vehicles: "layer_typed ?S (m_sources ?m) x" if hv: "?hv" and r: "r \<in> set ?rs" "x \<in> set (route_vehicles r)" for r x
  proof -
    obtain fs where fs: "vehiclesGeojson F env payload = Some fs" "list_all (conforms (?S (lit ''vehicles-src''))) fs"
      using hv assms(4) vehicle_conforms by (auto simp: vehiclesGeojson_def list_all_iff)
    have "m_sources ?m (lit ''vehicles-src'') = Some (CollectionData fs)" using l fs(1) by simp
    from vehicle_layers_typed [where b = True and srcs = "m_sources ?m", OF this fs(2)] show ?thesis
      using r assms(3) by (auto simp: route_vehicles_def route_ok_def)
  qed
  have "m_layers ?m = stop_map_layers ?hv ?rs" using l by simp
  then show ?thesis
    using osm lines stops vehicles by (auto simp: style_typed_def list_all_iff stop_map_layers_def)
qed

lemma plain_stops_conform:
  "list_all (conforms (page_schema False (lit ''stops-src''))) (map plain_stop_feature stops)"
  by (simp add: list_all_iff)

lemma loaded_route_typed:
  assumes "cv_context cv" and "route_ok (rm_route payload)"
    and "\<forall>v \<in> set (rm_vehicles payload). val_ok (mv_color v) ColorT"
    and "route_map_load F env cv payload new_route_page = Done pg"
  shows "style_typed (page_schema False) (rp_map pg)"
proof -
  let ?m = "rp_map pg" and ?S = "page_schema False" and ?r = "rm_route payload"
  from route_load_lib [OF assms(1), of F env payload] assms(4) have l:
    "m_layers ?m = route_map_layers (rm_vehicles payload \<noteq> []) ?r"
    "m_sources ?m = (case routeVehiclesGeojson F env payload of None \<Rightarrow> id
            | Some fs \<Rightarrow> \<lambda>S. S(lit ''vehicles-src'' \<mapsto> CollectionData fs))
           ((m_sources (pg_map new_stop_page))
             (lit ''route-src-main'' \<mapsto> FeatureData (line_feature ?r),
              lit ''stops-src'' \<mapsto> plainStopsGeojson (rm_stops payload)))" by auto
  have s: "m_sources ?m (lit ''osm'') = Some (RasterTiles [lit ''https://tile.openstreetmap.org/{z}/{x}/{y}.png''])"
    "m_sources ?m (lit ''route-src-main'') = Some (FeatureData (line_feature ?r))"
    "m_sources ?m (lit ''stops-src'') = Some (CollectionData (map plain_stop_feature (rm_stops payload)))"
    by (simp_all add: l(2) lit_eq_iff osm_source plainStopsGeojson_def split: option.split)
  have line: "layer_typed ?S (m_sources ?m) (line_layer LINE_ID (lit ''route-src-main'') (mr_color ?r) 6 0.95)"
    using assms(2) by (intro line_typed [where r = ?r]) (simp_all add: s(2) route_ok_def page_schema_def lit_eq_iff)
  have stops: "layer_typed ?S (m_sources ?m) (circle_layer STOPS_ID None 5 ''#ffffff'' 2 ''#333333'')"
    "layer_typed ?S (m_sources ?m) (stop_label_layer STOPS_LABELS_ID None)"
    by (intro stop_layers_typed [where b = False and srcs = "m_sources ?m", OF s(3) plain_stops_conform]; simp)+
  have vehicles: "layer_typed ?S (m_sources ?m) (vehicle_pulse_layer lid (mr_route_id ?r))"
    "layer_typed ?S (m_sources ?m) (vehicle_layer lid ic (mr_route_id ?r))"
    "layer_typed ?S (m_sources ?m) (vehicle_label_layer lid (mr_route_id ?r))"
    if hv: "rm_vehicles payload \<noteq> []" for lid ic
  proof -
    obtain fs where fs: "routeVehiclesGeojson F env payload = Some fs" "list_all (conforms (?S (lit ''vehicles-src''))) fs"
      using hv assms(3) vehicle_conforms by (auto simp: routeVehiclesGeojson_def list_all_iff)
    have "m_sources ?m (lit ''vehicles-src'') = Some (CollectionData fs)" by (simp add: l(2) fs(1))
    note v = vehicle_layers_typed [where b = False and srcs = "m_sources ?m", OF this fs(2)]
    have "mr_route_id ?r \<noteq> JUndef" using assms(2) by (simp add: route_ok_def)
    from v [OF this] show "layer_typed ?S (m_sources ?m) (vehicle_pulse_layer lid (mr_route_id ?r))"
      "layer_typed ?S (m_sources ?m) (vehicle_layer lid ic (mr_route_id ?r))"
      "layer_typed ?S (m_sources ?m) (vehicle_label_layer lid (mr_route_id ?r))" .
  qed
  show ?thesis
    using osm_typed [OF s(1)] line stops vehicles by (simp add: style_typed_def l(1) route_map_layers_def)
qed

lemma loaded_nearby_typed:
  assumes "nearby_map_load F env payload new_map = Done m"
  shows "style_typed (page_schema False) m"
proof -
  let ?S = "page_schema False" and ?c = "roughCirclePolygon F (nb_user_lon payload) (nb_user_lat payload) (nb_radius_meters payload) 64"
  have l: "m_layers m = nearby_layers (hasImage m MONO_MARKER_IMAGE_ID)"
    "m_sources m = (m_sources new_map)(lit ''radius-src'' \<mapsto> FeatureData ?c, lit ''user-src'' \<mapsto> user_point payload,
       lit ''stops-src'' \<mapsto> plainStopsGeojson (nb_stops payload))"
    using nearby_load_lib [of F env payload] assms by auto
  have s: "m_sources m (lit ''osm'') = Some (RasterTiles [lit ''https://tile.openstreetmap.org/{z}/{x}/{y}.png''])"
    "m_sources m (lit ''radius-src'') = Some (FeatureData ?c)" "m_sources m (lit ''user-src'') = Some (user_point payload)"
    "m_sources m (lit ''stops-src'') = Some (CollectionData (map plain_stop_feature (nb_stops payload)))"
    by (simp_all add: l(2) lit_eq_iff new_map plainStopsGeojson_def)
  have G: "?S (lit ''radius-src'') = []" "?S (lit ''user-src'') = []" by (simp_all add: page_schema_def lit_eq_iff)
  note d = layer_typed_def source_fits_def props_typed_def layout_spec_def paint_spec_def takes_number_def
    conforms_def visibility_spec_def
  have "layer_typed ?S (m_sources m) radius_fill" "layer_typed ?S (m_sources m) radius_outline"
    by (simp_all add: radius_fill_def radius_outline_def s G d)
  moreover have "layer_typed ?S (m_sources m) user_icon" "layer_typed ?S (m_sources m) user_dot"
    by (simp_all add: user_icon_def user_dot_def s G d user_point_def)
  moreover have "layer_typed ?S (m_sources m) (circle_layer (lit ''stops-nearby'') None 6 ''#ffffff'' 2 ''#333333'')"
    "layer_typed ?S (m_sources m) (stop_label_layer (lit ''stops-labels-nearby'') None)"
    by (intro stop_layers_typed [where b = False and srcs = "m_sources m", OF s(4) plain_stops_conform]; simp)+
  ultimately show ?thesis
    using osm_typed [OF s(1)] by (simp add: style_typed_def l(1) nearby_layers_def)
qed

lemma loaded_static_typed:
  assumes "static_stop_map_load stops new_map = Done m"
  shows "style_typed (page_schema False) m"
proof -
  have l: "m_layers m = [osm_layer, circle_layer (lit ''stops-static'') None 5 ''#2563eb'' 1 ''#ffffff'',
        stop_label_layer (lit ''stops-labels-static'') None]"
    "m_sources m = (m_sources new_map)(lit ''stops-src'' \<mapsto> plainStopsGeojson stops)"
    using assms by (auto simp: static_load_lib)
  have s: "m_sources m (lit ''osm'') = Some (RasterTiles [lit ''https://tile.openstreetmap.org/{z}/{x}/{y}.png''])"
    "m_sources m (lit ''stops-src'') = Some (CollectionData (map plain_stop_feature stops))"
    by (simp_all add: l(2) lit_eq_iff new_map plainStopsGeojson_def)
  have "layer_typed (page_schema False) (m_sources m) (circle_layer (lit ''stops-static'') None 5 ''#2563eb'' 1 ''#ffffff'')"
    "layer_typed (page_schema False) (m_sources m) (stop_label_layer (lit ''stops-labels-static'') None)"
    by (intro stop_layers_typed [where b = False and srcs = "m_sources m", OF s(2) plain_stops_conform]; simp)+
  then show ?thesis using osm_typed [OF s(1)] by (simp add: style_typed_def l(1))
qed

text \<open>A layer that needs the glyphs of the style.\<close>

definition draws_text :: "layer \<Rightarrow> bool" where
  "draws_text l \<longleftrightarrow> map_of (l_layout l) ''text-field'' \<noteq> None"

lemma loaded_agency_typed:
  assumes "distinct (map route_key routes)" and "\<forall>r \<in> set routes. route_ok r"
    and "agency_map_load routes new_agency_page = Done pg"
  shows "style_typed (page_schema False) (ag_map pg)" and "\<forall>l \<in> set (m_layers (ag_map pg)). \<not> draws_text l"
proof -
  let ?S = "page_schema False"
  note l = agency_load_lib [OF assms(1), unfolded assms(3), simplified]
  have "layer_typed ?S (m_sources (ag_map pg)) (agency_layer r)" if r: "r \<in> set routes" for r
  proof -
    have "agency_src_id k \<noteq> lit ''stops-src''" "agency_src_id k \<noteq> lit ''vehicles-src''" for k
      by (simp_all add: agency_src_id_def lit_def)
    from schema_other [OF this] show ?thesis
      unfolding agency_layer_def using l r assms(2) by (intro line_typed [where r = r]) (auto simp: route_ok_def)
  qed
  moreover have "layer_typed ?S (m_sources (ag_map pg)) osm_layer"
    using l by (intro osm_typed) (simp add: new_agency_map)
  ultimately show "style_typed ?S (ag_map pg)"
    using l by (simp add: style_typed_def list_all_iff agency_layers_def)
  have "\<not> draws_text osm_layer"
    by (simp add: draws_text_def osm_layer_def map_of_style_def createOsmRasterStyle_def)
  moreover have "\<not> draws_text (agency_layer r)" for r by (simp add: draws_text_def agency_layer_def line_layer_def)
  ultimately show "\<forall>l \<in> set (m_layers (ag_map pg)). \<not> draws_text l"
    using l by (simp add: agency_layers_def)
qed

section \<open>Properties\<close>

text \<open>
  C13: The layers of the stop map are well typed, after loading and after any sequence of panel
  events: each has a source of its kind, reads only properties that every feature of that source
  carries, and sets only properties that the specification has for its type, to values in range.
  So whatever feature MapLibre draws, every filter is a boolean and every data-driven property
  has a value of the type that the specification asks for.
\<close>

theorem stop_map_typed:
  assumes "cv_context cv" and "route_keys_ok (sp_routes payload)" and "\<forall>r \<in> set (sp_routes payload). route_ok r"
    and "\<forall>v \<in> set (sp_vehicles payload). val_ok (mv_color v) ColorT"
    and "stop_map_load F env cv payload new_stop_page = Done pg"
    and "m = pg_map (fold (on_panel_event routes) es pg)"
  shows "style_typed (page_schema True) m
     \<and> (\<forall>l \<in> set (m_layers m). \<exists>s. m_sources m (l_source l) = Some s
          \<and> (\<forall>f \<in> set (source_features s). draws_soundly l f))"
proof -
  have t: "style_typed (page_schema True) m"
    unfolding assms(6) by (rule typed_panel.run_inv) (rule loaded_stop_typed [OF assms(1-5)])
  have "\<exists>s. m_sources m (l_source l) = Some s" if "l \<in> set (m_layers m)" for l
    using t that by (auto simp: style_typed_def list_all_iff layer_typed_def split: option.splits)
  with style_typed_sound [OF t] t show ?thesis by blast
qed

lemma stop_map_typed_witness:
  "let pg = state_of (stop_map_load exact_fpu \<lparr>now = 0, date_value = (\<lambda>v. None), date_local = (\<lambda>i. [])\<rparr>
         \<lparr>cv_context = True, cv_roundRect = False\<rparr> sample_payload new_stop_page)
   in style_typed (page_schema True) (pg_map (on_panel_event (sp_routes sample_payload) ToggleAll pg))"
proof -
  let ?env = "\<lparr>now = 0, date_value = (\<lambda>v. None), date_local = (\<lambda>i. [])\<rparr>"
  let ?cv = "\<lparr>cv_context = True, cv_roundRect = False\<rparr>"
  let ?pg = "state_of (stop_map_load exact_fpu ?env ?cv sample_payload new_stop_page)"
  have cv: "cv_context ?cv" by simp
  from load_lib [OF this sample_routes_ok] have d:
    "stop_map_load exact_fpu ?env ?cv sample_payload new_stop_page = Done ?pg" by (metis state_of.simps(1))
  have ok: "\<forall>r \<in> set (sp_routes sample_payload). route_ok r"
    "\<forall>v \<in> set (sp_vehicles sample_payload). val_ok (mv_color v) ColorT"
    by (simp_all add: sample_payload_def sample_route_def sample_vehicle_def route_ok_def is_color_def lit_def hex_unit_def)
  from stop_map_typed [OF cv sample_routes_ok ok d refl, of "sp_routes sample_payload" "[ToggleAll]"]
  show ?thesis by (simp add: Let_def)
qed

section \<open>Glyphs\<close>

text \<open>A layer with text needs the glyphs of the style that its map was created with.\<close>

definition texts_have_glyphs :: "style_map \<Rightarrow> bool" where
  "texts_have_glyphs m \<longleftrightarrow> (\<forall>l \<in> set (m_layers m). draws_text l \<longrightarrow> m_glyphs m \<noteq> None)"

lemma run_steps_keep:
  assumes "\<And>f s. f \<in> set fs \<Longrightarrow> g (state_of (f s)) = g s"
  shows "g (state_of (run_steps fs s)) = g s"
  using assms
proof (induction fs arbitrary: s)
  case (Cons f fs)
  then have "g (state_of (f s)) = g s" by simp
  with Cons show ?case by (cases "f s") auto
qed simp

lemma map_glyphs [simp]:
  "m_glyphs (state_of (addSource i c m)) = m_glyphs m" "m_glyphs (addLayer l m) = m_glyphs m"
  "m_glyphs (listen_pair h a b m) = m_glyphs m" "m_glyphs (listen_route_vehicles v m) = m_glyphs m"
  "m_glyphs (state_of (registerVehicleIconForRoute cv rid col m)) = m_glyphs m"
  by (auto simp: addSource_def addLayer_def fire_error_def listen_pair_def on_layer_def listen_route_vehicles_def
      registerVehicleIconForRoute_def addImage_def Let_def split: option.split sum.split)

lemma on_route_map_glyphs:
  "m_glyphs (state_of (f (rp_map s))) = m_glyphs (rp_map s) \<Longrightarrow> m_glyphs (rp_map (state_of (on_route_map f s))) = m_glyphs (rp_map s)"
  by (cases "f (rp_map s)") (simp_all add: on_route_map_def)

lemma route_glyphs:
  assumes "route_map_load F env cv payload new_route_page = Done pg"
  shows "m_glyphs (rp_map pg) = m_glyphs (rp_map new_route_page)"
proof -
  let ?g = "\<lambda>s. m_glyphs (rp_map s)"
  have "?g (state_of (route_vehicle_steps cv r fs s)) = ?g s" for r fs s
    unfolding route_vehicle_steps_def by (rule run_steps_keep) (auto simp: on_route_map_glyphs)
  then have "?g (state_of (route_map_load F env cv payload s)) = ?g s" for s
    unfolding route_map_load_def Let_def
    by (intro run_steps_keep) (auto simp: on_route_map_glyphs split: option.split)
  with assms show ?thesis by (metis state_of.simps(1))
qed

lemma new_map_glyphs:
  "m_glyphs new_map \<noteq> None" "m_glyphs (rp_map new_route_page) \<noteq> None" "m_glyphs (ag_map new_agency_page) = None"
  by (simp_all add: new_map_def new_route_page_def new_agency_page_def map_of_style_def createOsmRasterStyle_def
      addDefaultMapControls_def addControl_def)

text \<open>
  C28: So are the layers of the other four pages as they come out of their load handlers, and text is
  drawn only with glyphs: a map that ends up with a layer that has text was created with a style that
  has glyphs.  The route, nearby and static maps do have such layers; the agency map, whose style has
  no glyphs, has none.
\<close>

theorem other_maps_typed:
  assumes "cv_context cv" and "route_ok (rm_route payload)"
    and "\<forall>v \<in> set (rm_vehicles payload). val_ok (mv_color v) ColorT"
    and "distinct (map route_key routes)" and "\<forall>r \<in> set routes. route_ok r"
    and "route_map_load F env cv payload new_route_page = Done pg"
    and "nearby_map_load F renv npayload new_map = Done nm" and "static_stop_map_load stops new_map = Done sm"
    and "agency_map_load routes new_agency_page = Done ag"
  shows "style_typed (page_schema False) (rp_map pg) \<and> style_typed (page_schema False) nm
     \<and> style_typed (page_schema False) sm \<and> style_typed (page_schema False) (ag_map ag)
     \<and> (\<forall>m \<in> {rp_map pg, nm, sm, ag_map ag}. texts_have_glyphs m)
     \<and> (\<forall>m \<in> {rp_map pg, nm, sm}. \<exists>l \<in> set (m_layers m). draws_text l)
     \<and> (\<forall>l \<in> set (m_layers (ag_map ag)). \<not> draws_text l)"
proof -
  have t: "draws_text (stop_label_layer i filt)" for i filt by (simp add: draws_text_def stop_label_layer_def)
  have r: "m_glyphs (rp_map pg) \<noteq> None" "stop_label_layer STOPS_LABELS_ID None \<in> set (m_layers (rp_map pg))"
    using route_glyphs [OF assms(6)] new_map_glyphs(2) route_load_lib [OF assms(1), of F env payload] assms(6)
    by (auto simp: route_map_layers_def)
  have n: "m_glyphs nm \<noteq> None" "stop_label_layer (lit ''stops-labels-nearby'') None \<in> set (m_layers nm)"
    using nearby_load_lib [of F renv npayload] assms(7) new_map_glyphs(1) by (auto simp: nearby_layers_def)
  have s: "m_glyphs sm \<noteq> None" "stop_label_layer (lit ''stops-labels-static'') None \<in> set (m_layers sm)"
    using assms(8) new_map_glyphs(1) by (auto simp: static_load_lib)
  note a = loaded_agency_typed [OF assms(4,5,9)]
  have "\<forall>m \<in> {rp_map pg, nm, sm}. \<exists>l \<in> set (m_layers m). draws_text l" using t r(2) n(2) s(2) by blast
  moreover have "\<forall>m \<in> {rp_map pg, nm, sm, ag_map ag}. texts_have_glyphs m"
    using r(1) n(1) s(1) a(2) by (simp add: texts_have_glyphs_def)
  ultimately show ?thesis
    using loaded_route_typed [OF assms(1-3,6)] loaded_nearby_typed [OF assms(7)] loaded_static_typed [OF assms(8)] a by blast
qed

lemma other_maps_typed_witness:
  "\<exists>pg nm sm ag. route_map_load exact_fpu \<lparr>now = 0, date_value = (\<lambda>v. None), date_local = (\<lambda>i. [])\<rparr>
         \<lparr>cv_context = True, cv_roundRect = False\<rparr> sample_route_payload new_route_page = Done pg
     \<and> style_typed (page_schema False) (rp_map pg)
     \<and> nearby_map_load exact_fpu \<lparr>re_img_loads = False, re_has_fetch = False, re_fetch = NetworkError,
         re_blob_loads = False, re_context = False, re_draw_throws = False\<rparr>
         \<lparr>nb_user_lon = - 6, nb_user_lat = 53, nb_radius_meters = 1000, nb_stops = sp_stops sample_payload\<rparr> new_map = Done nm
     \<and> style_typed (page_schema False) nm
     \<and> static_stop_map_load (sp_stops sample_payload) new_map = Done sm \<and> style_typed (page_schema False) sm
     \<and> agency_map_load (sp_routes sample_payload) new_agency_page = Done ag
     \<and> style_typed (page_schema False) (ag_map ag) \<and> texts_have_glyphs nm"
proof -
  let ?env = "\<lparr>now = 0, date_value = (\<lambda>v. None), date_local = (\<lambda>i. [])\<rparr>"
  let ?cv = "\<lparr>cv_context = True, cv_roundRect = False\<rparr>"
  let ?renv = "\<lparr>re_img_loads = False, re_has_fetch = False, re_fetch = NetworkError,
         re_blob_loads = False, re_context = False, re_draw_throws = False\<rparr>"
  let ?np = "\<lparr>nb_user_lon = - 6, nb_user_lat = 53, nb_radius_meters = 1000, nb_stops = sp_stops sample_payload\<rparr>"
  have cv: "cv_context ?cv" by simp
  have d: "distinct (map route_key (sp_routes sample_payload))"
    using sample_routes_ok by (simp add: route_keys_ok_def)
  have ok: "route_ok (rm_route sample_route_payload)" "\<forall>v \<in> set (rm_vehicles sample_route_payload). val_ok (mv_color v) ColorT"
    "\<forall>r \<in> set (sp_routes sample_payload). route_ok r"
    by (simp_all add: sample_route_payload_def sample_payload_def sample_route_def sample_vehicle_def route_ok_def
        is_color_def lit_def hex_unit_def)
  obtain pg where pg: "route_map_load exact_fpu ?env ?cv sample_route_payload new_route_page = Done pg"
    using route_load_lib [OF cv] by blast
  obtain nm where nm: "nearby_map_load exact_fpu ?renv ?np new_map = Done nm"
    using nearby_load_lib by blast
  obtain ag where ag: "agency_map_load (sp_routes sample_payload) new_agency_page = Done ag"
    using agency_load_lib [OF d] by blast
  obtain sm where sm: "static_stop_map_load (sp_stops sample_payload) new_map = Done sm"
    using static_load_lib by blast
  note t = other_maps_typed [OF cv ok(1,2) d ok(3) pg nm sm ag]
  then have "texts_have_glyphs nm" by simp
  then show ?thesis
    by (intro exI [of _ pg] exI [of _ nm] exI [of _ sm] exI [of _ ag]) (simp only: pg nm sm ag t simp_thms)
qed

end
