(* ===== verification/Maplibre_Ready.thy ===== *)
theory Maplibre_Ready
  imports Js_Prelude
begin

text \<open>
  \<open>static/js/maplibre-ready.js\<close>: a page script hands over a callback, which has to run once the
  deferred MapLibre bundle (and the popup script) is there, and never twice.  The page is a state
  machine: its globals, the document events that have fired, the pending animation frames, and one
  \<open>waiter\<close> per call, which is the closure's variable \<open>done\<close> with its callback.  A callback is an
  identifier; \<open>calls\<close> lists the ones that ran, with their waiter.
\<close>

section \<open>The page\<close>

datatype 'c callback = Call 'c | ThenPopup "'c option"

datatype 'c waiter = GlWaiter "'c callback" bool | PopupWaiter 'c bool

datatype job = GlTick nat nat | PopupTick nat nat

record 'c page =
  gl :: bool
  popup_js :: bool
  parsing :: bool
  load_fired :: bool
  waiters :: "'c waiter list"
  frames :: "job list"
  on_parsed :: "nat list"
  on_load :: "nat list"
  calls :: "(nat \<times> 'c) list"

definition new_page :: "bool \<Rightarrow> bool \<Rightarrow> 'c page" where
  "new_page g b = \<lparr>gl = g, popup_js = b, parsing = True, load_fired = False, waiters = [],
     frames = [], on_parsed = [], on_load = [], calls = []\<rparr>"

definition request_job :: "job \<Rightarrow> 'c page \<Rightarrow> 'c page" where
  "request_job j p = p\<lparr>frames := frames p @ [j]\<rparr>"

section \<open>whenStopMapPopupReady\<close>

definition popup_invoke :: "nat \<Rightarrow> 'c page \<Rightarrow> 'c page" where
  "popup_invoke k p =
     (case waiters p ! k of
        GlWaiter cb d \<Rightarrow> p
      | PopupWaiter c d \<Rightarrow>
          if d then p
          else if \<not> popup_js p then p
          else p\<lparr>waiters := (waiters p)[k := PopupWaiter c True], calls := calls p @ [(k, c)]\<rparr>)"

definition popup_tick :: "nat \<Rightarrow> nat \<Rightarrow> 'c page \<Rightarrow> 'c page" where
  "popup_tick k n p =
     (if popup_js p then popup_invoke k p
      else let n = n + 1 in if n > 120 then p else request_job (PopupTick k n) p)"

definition whenStopMapPopupReady :: "'c option \<Rightarrow> 'c page \<Rightarrow> 'c page" where
  "whenStopMapPopupReady callback p =
     (case callback of
        None \<Rightarrow> p
      | Some c \<Rightarrow>
          let k = length (waiters p);
              p = p\<lparr>waiters := waiters p @ [PopupWaiter c False]\<rparr>
          in if popup_js p then popup_invoke k p else request_job (PopupTick k 0) p)"

section \<open>whenMapLibreReady\<close>

definition gl_invoke :: "nat \<Rightarrow> 'c page \<Rightarrow> 'c page" where
  "gl_invoke k p =
     (case waiters p ! k of
        PopupWaiter c d \<Rightarrow> p
      | GlWaiter cb d \<Rightarrow>
          if d then p
          else if \<not> gl p then p
          else let p = p\<lparr>waiters := (waiters p)[k := GlWaiter cb True]\<rparr>
               in case cb of
                    Call c \<Rightarrow> p\<lparr>calls := calls p @ [(k, c)]\<rparr>
                  | ThenPopup c \<Rightarrow> whenStopMapPopupReady c p)"

definition scheduleRaf :: "nat \<Rightarrow> 'c page \<Rightarrow> 'c page" where
  "scheduleRaf k p = request_job (GlTick k 0) p"

definition gl_tick :: "nat \<Rightarrow> nat \<Rightarrow> 'c page \<Rightarrow> 'c page" where
  "gl_tick k n p =
     (if gl p then gl_invoke k p
      else let n = n + 1 in if n > 300 then p else request_job (GlTick k n) p)"

definition onParsingDone :: "nat \<Rightarrow> 'c page \<Rightarrow> 'c page" where
  "onParsingDone k p = (if gl p then gl_invoke k p else scheduleRaf k p)"

text \<open>The listener of the \<open>load\<close> event.\<close>

definition onWindowLoad :: "nat \<Rightarrow> 'c page \<Rightarrow> 'c page" where
  "onWindowLoad k p = (if gl p then gl_invoke k p else scheduleRaf k p)"

definition whenMapLibreReady :: "'c callback option \<Rightarrow> 'c page \<Rightarrow> 'c page" where
  "whenMapLibreReady callback p =
     (case callback of
        None \<Rightarrow> p
      | Some cb \<Rightarrow>
          let k = length (waiters p);
              p = p\<lparr>waiters := waiters p @ [GlWaiter cb False]\<rparr>
          in if gl p then gl_invoke k p
             else let p = (if parsing p then p\<lparr>on_parsed := on_parsed p @ [k]\<rparr>
                           else onParsingDone k p)
                  in p\<lparr>on_load := on_load p @ [k]\<rparr>)"

definition whenMapWithPopupReady :: "'c option \<Rightarrow> 'c page \<Rightarrow> 'c page" where
  "whenMapWithPopupReady callback p = whenMapLibreReady (Some (ThenPopup callback)) p"

section \<open>What the browser does\<close>

text \<open>
  \<open>GlScript\<close> and \<open>PopupScript\<close> run the two scripts; \<open>Parsed\<close> and \<open>Loaded\<close> fire
  \<open>DOMContentLoaded\<close> and \<open>load\<close>, each once; \<open>Frame\<close> runs the callbacks that were requested
  before it, in order.
\<close>

datatype browser_event = GlScript | PopupScript | Parsed | Loaded | Frame

fun run_job :: "job \<Rightarrow> 'c page \<Rightarrow> 'c page" where
  "run_job (GlTick k n) p = gl_tick k n p"
| "run_job (PopupTick k n) p = popup_tick k n p"

fun browser :: "browser_event \<Rightarrow> 'c page \<Rightarrow> 'c page" where
  "browser GlScript p = p\<lparr>gl := True\<rparr>"
| "browser PopupScript p = p\<lparr>popup_js := True\<rparr>"
| "browser Parsed p =
     (if parsing p then fold onParsingDone (on_parsed p) (p\<lparr>parsing := False\<rparr>) else p)"
| "browser Loaded p =
     (if parsing p \<or> load_fired p then p
      else fold onWindowLoad (on_load p) (p\<lparr>load_fired := True\<rparr>))"
| "browser Frame p = fold run_job (frames p) (p\<lparr>frames := []\<rparr>)"

definition run_browser :: "browser_event list \<Rightarrow> 'c page \<Rightarrow> 'c page" where
  "run_browser es p = fold browser es p"

lemma run_browser_simps [simp]:
  "run_browser [] p = p"
  "run_browser (e # es) p = run_browser es (browser e p)"
  "run_browser (es @ fs) p = run_browser fs (run_browser es p)"
  by (simp_all add: run_browser_def)

text \<open>A page script: it may call the three functions at any time, between events.\<close>

inductive page_step :: "'c page \<Rightarrow> 'c page \<Rightarrow> bool" where
  event: "page_step p (browser e p)"
| wait_gl: "page_step p (whenMapLibreReady (map_option Call c) p)"
| wait_popup: "page_step p (whenStopMapPopupReady c p)"
| wait_both: "page_step p (whenMapWithPopupReady c p)"

inductive page_reach :: "'c page \<Rightarrow> bool" where
  start: "page_reach (new_page g b)"
| step: "page_reach p \<Longrightarrow> page_step p q \<Longrightarrow> page_reach q"

inductive_cases page_stepE: "page_step p q"

section \<open>Safety: a callback runs at most once, and only when its scripts are there\<close>

fun waiter_done :: "'c waiter \<Rightarrow> bool" where
  "waiter_done (GlWaiter cb d) = d"
| "waiter_done (PopupWaiter c d) = d"

fun waiter_ok :: "'c page \<Rightarrow> 'c waiter \<Rightarrow> bool" where
  "waiter_ok p (GlWaiter cb d) = (d \<longrightarrow> gl p)"
| "waiter_ok p (PopupWaiter c d) = (d \<longrightarrow> popup_js p)"

fun waiter_calls :: "'c waiter \<Rightarrow> 'c \<Rightarrow> bool" where
  "waiter_calls (GlWaiter cb d) c = (d \<and> cb = Call c)"
| "waiter_calls (PopupWaiter c' d) c = (d \<and> c' = c)"

fun job_waiter :: "job \<Rightarrow> nat" where
  "job_waiter (GlTick k n) = k"
| "job_waiter (PopupTick k n) = k"

definition page_inv :: "'c page \<Rightarrow> bool" where
  "page_inv p \<longleftrightarrow>
     list_all (waiter_ok p) (waiters p)
   \<and> (\<forall>(k, c) \<in> set (calls p). k < length (waiters p) \<and> waiter_calls (waiters p ! k) c)
   \<and> distinct (map fst (calls p))
   \<and> (\<forall>j \<in> set (frames p). job_waiter j < length (waiters p))
   \<and> (\<forall>k \<in> set (on_parsed p) \<union> set (on_load p). k < length (waiters p))"

lemma page_inv_new: "page_inv (new_page g b)"
  by (simp add: page_inv_def new_page_def)

lemma waiter_calls_done: "waiter_calls w c \<Longrightarrow> waiter_done w"
  by (cases w) auto

text \<open>A waiter that is not done yet is marked done and its callback logged.\<close>

lemma page_inv_call:
  assumes "page_inv p" and "k < length (waiters p)" and "\<not> waiter_done (waiters p ! k)"
    and "waiter_ok p w" and "waiter_calls w c"
  shows "page_inv (p\<lparr>waiters := (waiters p)[k := w], calls := calls p @ [(k, c)]\<rparr>)"
proof -
  let ?q = "p\<lparr>waiters := (waiters p)[k := w], calls := calls p @ [(k, c)]\<rparr>"
  have ok: "waiter_ok ?q = waiter_ok p"
  proof
    fix v show "waiter_ok ?q v = waiter_ok p v" by (cases v) auto
  qed
  have k: "k \<notin> fst ` set (calls p)"
    using assms(1,3) waiter_calls_done by (fastforce simp: page_inv_def)
  then have "\<forall>(j, d) \<in> set (calls p). j \<noteq> k" by force
  with assms k show ?thesis
    by (auto simp: page_inv_def ok list_all_length nth_list_update)
qed

lemma page_inv_mark:
  assumes "page_inv p" and "k < length (waiters p)" and "\<not> waiter_done (waiters p ! k)"
    and "waiter_ok p w"
  shows "page_inv (p\<lparr>waiters := (waiters p)[k := w]\<rparr>)"
proof -
  let ?q = "p\<lparr>waiters := (waiters p)[k := w]\<rparr>"
  have ok: "waiter_ok ?q = waiter_ok p"
  proof
    fix v show "waiter_ok ?q v = waiter_ok p v" by (cases v) auto
  qed
  have "k \<notin> fst ` set (calls p)"
    using assms(1,3) waiter_calls_done by (fastforce simp: page_inv_def)
  then have "\<forall>(j, d) \<in> set (calls p). j \<noteq> k" by force
  with assms show ?thesis
    by (auto simp: page_inv_def ok list_all_length nth_list_update)
qed

lemma page_inv_new_waiter:
  assumes "page_inv p" and "\<not> waiter_done w"
  shows "page_inv (p\<lparr>waiters := waiters p @ [w]\<rparr>)"
proof -
  let ?q = "p\<lparr>waiters := waiters p @ [w]\<rparr>"
  have ok: "waiter_ok ?q = waiter_ok p"
  proof
    fix v show "waiter_ok ?q v = waiter_ok p v" by (cases v) auto
  qed
  have "waiter_ok p w" using assms(2) by (cases w) auto
  with assms show ?thesis
    by (auto simp: page_inv_def ok nth_append less_Suc_eq dest!: bspec)
qed

lemma page_inv_request:
  "page_inv p \<Longrightarrow> job_waiter j < length (waiters p) \<Longrightarrow> page_inv (request_job j p)"
  by (auto simp: page_inv_def request_job_def list_all_iff elim!: waiter_ok.elims)

definition page_grows :: "'c page \<Rightarrow> 'c page \<Rightarrow> bool" where
  "page_grows p q \<longleftrightarrow>
     (page_inv p \<longrightarrow> page_inv q) \<and> length (waiters p) \<le> length (waiters q)
   \<and> gl q = gl p \<and> popup_js q = popup_js p"

lemma page_grows_refl [simp]: "page_grows p p"
  by (simp add: page_grows_def)

lemma page_grows_trans: "page_grows p q \<Longrightarrow> page_grows q r \<Longrightarrow> page_grows p r"
  by (auto simp: page_grows_def)

lemma page_grows_fold:
  assumes "\<And>x p. g x < length (waiters p) \<Longrightarrow> page_grows p (f x p)"
    and "\<forall>x \<in> set xs. g x < length (waiters p)"
  shows "page_grows p (fold f xs p)"
  using assms(2)
proof (induction xs arbitrary: p)
  case Nil
  then show ?case by simp
next
  case (Cons x xs)
  then have p: "page_grows p (f x p)" using assms(1) by simp
  then have "length (waiters p) \<le> length (waiters (f x p))" by (simp add: page_grows_def)
  with Cons.prems have "\<forall>x' \<in> set xs. g x' < length (waiters (f x p))"
    by (auto intro: less_le_trans)
  then have "page_grows (f x p) (fold f xs (f x p))" by (rule Cons.IH)
  with p show ?case using page_grows_trans by auto
qed

lemma grows_request: "job_waiter j < length (waiters p) \<Longrightarrow> page_grows p (request_job j p)"
  using page_inv_request by (auto simp: page_grows_def request_job_def)

lemma grows_popup_invoke: "k < length (waiters p) \<Longrightarrow> page_grows p (popup_invoke k p)"
  by (auto simp: page_grows_def popup_invoke_def intro!: page_inv_call split: waiter.splits)

lemma grows_new_waiter:
  "\<not> waiter_done w \<Longrightarrow> page_grows p (p\<lparr>waiters := waiters p @ [w]\<rparr>)"
  using page_inv_new_waiter by (auto simp: page_grows_def)

lemma grows_whenPopup: "page_grows p (whenStopMapPopupReady c p)"
proof (cases c)
  case (Some d)
  let ?q = "p\<lparr>waiters := waiters p @ [PopupWaiter d False]\<rparr>"
  have "page_grows p ?q" by (rule grows_new_waiter) simp
  moreover have "page_grows ?q (popup_invoke (length (waiters p)) ?q)"
    by (rule grows_popup_invoke) simp
  moreover have "page_grows ?q (request_job (PopupTick (length (waiters p)) 0) ?q)"
    by (rule grows_request) simp
  ultimately show ?thesis
    using Some page_grows_trans by (auto simp: whenStopMapPopupReady_def Let_def)
qed (simp add: whenStopMapPopupReady_def)

lemma grows_gl_invoke:
  assumes "k < length (waiters p)"
  shows "page_grows p (gl_invoke k p)"
proof (cases "\<exists>cb. waiters p ! k = GlWaiter cb False \<and> gl p")
  case False
  then show ?thesis by (auto simp: gl_invoke_def split: waiter.splits)
next
  case True
  then obtain cb where w: "waiters p ! k = GlWaiter cb False" "gl p" by auto
  let ?q = "p\<lparr>waiters := (waiters p)[k := GlWaiter cb True]\<rparr>"
  have q: "page_grows p ?q"
    using assms w by (auto simp: page_grows_def intro!: page_inv_mark)
  show ?thesis
  proof (cases cb)
    case (Call c)
    with assms w show ?thesis
      by (auto simp: page_grows_def gl_invoke_def intro!: page_inv_call)
  next
    case (ThenPopup c)
    with w q grows_whenPopup [of ?q c] show ?thesis
      by (auto simp: gl_invoke_def intro: page_grows_trans)
  qed
qed

lemma grows_tick:
  "k < length (waiters p) \<Longrightarrow> page_grows p (gl_tick k n p)"
  "k < length (waiters p) \<Longrightarrow> page_grows p (popup_tick k n p)"
  by (simp_all add: gl_tick_def popup_tick_def Let_def grows_gl_invoke grows_popup_invoke
      grows_request)

lemma grows_run_job: "job_waiter j < length (waiters p) \<Longrightarrow> page_grows p (run_job j p)"
  by (cases j) (simp_all add: grows_tick)

lemma grows_listeners:
  "k < length (waiters p) \<Longrightarrow> page_grows p (onParsingDone k p)"
  "k < length (waiters p) \<Longrightarrow> page_grows p (onWindowLoad k p)"
  by (simp_all add: onParsingDone_def onWindowLoad_def scheduleRaf_def grows_gl_invoke
      grows_request)

lemma page_inv_listener:
  "page_inv p \<Longrightarrow> k < length (waiters p) \<Longrightarrow>
   page_inv (p\<lparr>on_parsed := on_parsed p @ [k]\<rparr>) \<and> page_inv (p\<lparr>on_load := on_load p @ [k]\<rparr>)"
  by (auto simp: page_inv_def list_all_iff elim!: waiter_ok.elims)

lemma grows_whenGl: "page_grows p (whenMapLibreReady c p)"
proof (cases c)
  case (Some cb)
  let ?k = "length (waiters p)"
  let ?q = "p\<lparr>waiters := waiters p @ [GlWaiter cb False]\<rparr>"
  let ?r = "if parsing p then ?q\<lparr>on_parsed := on_parsed p @ [?k]\<rparr> else onParsingDone ?k ?q"
  have q: "page_grows p ?q" by (rule grows_new_waiter) simp
  have k: "?k < length (waiters ?q)" by simp
  have r: "page_grows ?q ?r"
    using grows_listeners(1) [OF k] page_inv_listener [OF _ k] by (auto simp: page_grows_def)
  then have "?k < length (waiters ?r)" using k unfolding page_grows_def by linarith
  then have "page_grows ?r (?r\<lparr>on_load := on_load ?r @ [?k]\<rparr>)"
    using page_inv_listener [of ?r ?k] by (simp add: page_grows_def)
  then have "page_grows p (?r\<lparr>on_load := on_load ?r @ [?k]\<rparr>)"
    using q r page_grows_trans by blast
  moreover have "page_grows p (gl_invoke ?k ?q)"
    using q grows_gl_invoke [OF k] page_grows_trans by blast
  ultimately show ?thesis using Some
    by (simp add: whenMapLibreReady_def Let_def cong: if_cong)
qed (simp add: whenMapLibreReady_def)

lemma page_inv_browser: "page_inv p \<Longrightarrow> page_inv (browser e p)"
proof (cases e)
  case Parsed
  assume p: "page_inv p"
  then have "page_inv (p\<lparr>parsing := False\<rparr>)"
    by (auto simp: page_inv_def list_all_iff elim!: waiter_ok.elims)
  moreover have "\<forall>k \<in> set (on_parsed p). id k < length (waiters (p\<lparr>parsing := False\<rparr>))"
    using p by (auto simp: page_inv_def)
  then have "page_grows (p\<lparr>parsing := False\<rparr>) (fold onParsingDone (on_parsed p) (p\<lparr>parsing := False\<rparr>))"
    by (intro page_grows_fold [of id]) (auto simp: grows_listeners)
  ultimately show ?thesis using Parsed p by (simp add: page_grows_def)
next
  case Loaded
  assume p: "page_inv p"
  then have "page_inv (p\<lparr>load_fired := True\<rparr>)"
    by (auto simp: page_inv_def list_all_iff elim!: waiter_ok.elims)
  moreover have "\<forall>k \<in> set (on_load p). id k < length (waiters (p\<lparr>load_fired := True\<rparr>))"
    using p by (auto simp: page_inv_def)
  then have "page_grows (p\<lparr>load_fired := True\<rparr>) (fold onWindowLoad (on_load p) (p\<lparr>load_fired := True\<rparr>))"
    by (intro page_grows_fold [of id]) (auto simp: grows_listeners)
  ultimately show ?thesis using Loaded p by (simp add: page_grows_def)
next
  case Frame
  assume p: "page_inv p"
  then have "page_inv (p\<lparr>frames := []\<rparr>)"
    by (auto simp: page_inv_def list_all_iff elim!: waiter_ok.elims)
  moreover have "\<forall>j \<in> set (frames p). job_waiter j < length (waiters (p\<lparr>frames := []\<rparr>))"
    using p by (auto simp: page_inv_def)
  then have "page_grows (p\<lparr>frames := []\<rparr>) (fold run_job (frames p) (p\<lparr>frames := []\<rparr>))"
    by (intro page_grows_fold [of job_waiter]) (auto simp: grows_run_job)
  ultimately show ?thesis using Frame by (simp add: page_grows_def)
qed (auto simp: page_inv_def list_all_iff elim!: waiter_ok.elims)

lemma page_inv_run: "page_inv p \<Longrightarrow> page_inv (run_browser es p)"
  by (induction es arbitrary: p) (simp_all add: page_inv_browser)

lemma page_reach_inv: "page_reach p \<Longrightarrow> page_inv p"
proof (induction rule: page_reach.induct)
  case (start g b)
  then show ?case by (rule page_inv_new)
next
  case (step p q)
  from step.hyps(2) step.IH show ?case
  proof (cases rule: page_step.cases)
    case (wait_both c)
    then show ?thesis
      using step.IH grows_whenGl [of p "Some (ThenPopup c)"]
      by (simp add: page_grows_def whenMapWithPopupReady_def)
  qed (use grows_whenGl grows_whenPopup page_inv_browser in \<open>auto simp: page_grows_def\<close>)
qed

section \<open>One call of whenMapWithPopupReady\<close>

text \<open>
  The three phases of the call: waiting for MapLibre, waiting for the popup script, called.
  \<open>ready_inv\<close> ties them to the page's state.
\<close>

definition phase1 :: "'c \<Rightarrow> 'c page \<Rightarrow> bool" where
  "phase1 c p \<longleftrightarrow> waiters p = [GlWaiter (ThenPopup (Some c)) False] \<and> calls p = []
     \<and> (\<forall>j \<in> set (frames p). \<exists>n \<le> 300. j = GlTick 0 n)"

definition phase2 :: "'c \<Rightarrow> 'c page \<Rightarrow> bool" where
  "phase2 c p \<longleftrightarrow> gl p \<and> waiters p = [GlWaiter (ThenPopup (Some c)) True, PopupWaiter c False]
     \<and> calls p = [] \<and> (\<forall>j \<in> set (frames p). job_waiter j < 2)"

definition phase3 :: "'c \<Rightarrow> 'c page \<Rightarrow> bool" where
  "phase3 c p \<longleftrightarrow> gl p \<and> popup_js p
     \<and> waiters p = [GlWaiter (ThenPopup (Some c)) True, PopupWaiter c True]
     \<and> calls p = [(1, c)] \<and> (\<forall>j \<in> set (frames p). job_waiter j < 2)"

definition ready_inv :: "'c \<Rightarrow> 'c page \<Rightarrow> bool" where
  "ready_inv c p \<longleftrightarrow> (phase1 c p \<or> phase2 c p \<or> phase3 c p)
     \<and> (\<forall>k \<in> set (on_parsed p) \<union> set (on_load p). k = 0)"

lemmas phase_defs = phase1_def phase2_def phase3_def

lemma ready_inv_start: "ready_inv c (whenMapWithPopupReady (Some c) (new_page g b))"
  by (auto simp: ready_inv_def phase_defs whenMapWithPopupReady_def whenMapLibreReady_def
      new_page_def gl_invoke_def whenStopMapPopupReady_def popup_invoke_def request_job_def Let_def)

lemma gl_invoke_start:
  assumes "phase1 c p" and "gl p"
  shows "(phase2 c (gl_invoke 0 p) \<and> PopupTick 1 0 \<in> set (frames (gl_invoke 0 p)) \<or> phase3 c (gl_invoke 0 p))
     \<and> on_parsed (gl_invoke 0 p) = on_parsed p \<and> on_load (gl_invoke 0 p) = on_load p
     \<and> set (frames p) \<subseteq> set (frames (gl_invoke 0 p))"
  using assms
  by (auto simp: phase_defs gl_invoke_def whenStopMapPopupReady_def popup_invoke_def
      request_job_def Let_def)

lemma gl_invoke_done:
  "phase2 c p \<or> phase3 c p \<Longrightarrow> k < 2 \<Longrightarrow> gl_invoke k p = p"
  by (auto simp: phase_defs gl_invoke_def less_Suc_eq numeral_2_eq_2 split: waiter.splits)

lemma popup_invoke_done:
  "phase3 c p \<Longrightarrow> k < 2 \<Longrightarrow> popup_invoke k p = p"
  by (auto simp: phase_defs popup_invoke_def less_Suc_eq numeral_2_eq_2 split: waiter.splits)

lemma run_job_phase3: "phase3 c p \<Longrightarrow> job_waiter j < 2 \<Longrightarrow> run_job j p = p"
proof -
  assume p: "phase3 c p" and j: "job_waiter j < 2"
  then have "gl p" and "popup_js p" by (simp_all add: phase3_def)
  with p j gl_invoke_done [of c p] popup_invoke_done [of c p] show ?thesis
    by (cases j) (simp_all add: gl_tick_def popup_tick_def)
qed

lemma popup_invoke_phase2:
  "phase2 c p \<Longrightarrow> popup_js p \<Longrightarrow> phase3 c (popup_invoke 1 p)"
  "phase2 c p \<Longrightarrow> popup_invoke 0 p = p"
  by (auto simp: phase_defs popup_invoke_def)

lemma request_phase2:
  "phase2 c p \<Longrightarrow> job_waiter j < 2 \<Longrightarrow> phase2 c (request_job j p)"
  by (auto simp: phase2_def request_job_def)

lemma run_job_phase2:
  assumes "phase2 c p" and "job_waiter j < 2"
  shows "phase2 c (run_job j p) \<and> set (frames p) \<subseteq> set (frames (run_job j p))
     \<or> phase3 c (run_job j p)"
proof (cases j)
  case (GlTick k n)
  with assms show ?thesis by (simp add: gl_tick_def phase2_def gl_invoke_done [of c])
next
  case (PopupTick k n)
  with assms(2) have "k = 0 \<or> k = 1" by auto
  with PopupTick assms request_phase2 [OF assms(1)] popup_invoke_phase2 [OF assms(1)] show ?thesis
    by (auto simp: popup_tick_def Let_def request_job_def)
qed

lemma popup_invoke_frame:
  "on_parsed (popup_invoke k p) = on_parsed p" "on_load (popup_invoke k p) = on_load p"
  "frames (popup_invoke k p) = frames p"
  by (auto simp: popup_invoke_def split: waiter.splits)

lemma gl_invoke_frame:
  "on_parsed (gl_invoke k p) = on_parsed p" "on_load (gl_invoke k p) = on_load p"
  by (auto simp: gl_invoke_def whenStopMapPopupReady_def popup_invoke_frame request_job_def Let_def
      split: waiter.splits callback.splits option.splits)

lemma run_job_frame:
  "on_parsed (run_job j p) = on_parsed p" "on_load (run_job j p) = on_load p"
  by (cases j; simp add: gl_tick_def popup_tick_def popup_invoke_frame gl_invoke_frame
      request_job_def Let_def)+

text \<open>The jobs a page in its phase may hold.\<close>

definition job_fits :: "'c \<Rightarrow> 'c page \<Rightarrow> job \<Rightarrow> bool" where
  "job_fits c p j \<longleftrightarrow> (if phase1 c p then (\<exists>n \<le> 300. j = GlTick 0 n) else job_waiter j < 2)"

lemma ready_inv_jobs: "ready_inv c p \<Longrightarrow> \<forall>j \<in> set (frames p). job_fits c p j"
  by (auto simp: ready_inv_def job_fits_def phase_defs)

lemma phase1_not: "phase2 c p \<or> phase3 c p \<Longrightarrow> \<not> phase1 c p"
  by (auto simp: phase_defs)

lemma gl_tick_phase1:
  assumes "phase1 c p" and "n \<le> 300"
  shows "if gl p then phase2 c (gl_tick 0 n p) \<or> phase3 c (gl_tick 0 n p)
         else gl_tick 0 n p = p\<lparr>frames := frames p @ (if n < 300 then [GlTick 0 (n + 1)] else [])\<rparr>"
  using gl_invoke_start [OF assms(1)] assms by (auto simp: gl_tick_def request_job_def Let_def)

lemma run_job_inv:
  assumes "ready_inv c p" and "job_fits c p j"
  shows "ready_inv c (run_job j p) \<and> (job_fits c p i \<longrightarrow> job_fits c (run_job j p) i)"
proof (cases "phase1 c p")
  case True
  with assms(2) obtain n where j: "j = GlTick 0 n" and n: "n \<le> 300" by (auto simp: job_fits_def)
  have "phase1 c (run_job j p) \<or> phase2 c (run_job j p) \<or> phase3 c (run_job j p)"
    using gl_tick_phase1 [OF True n] True j by (auto simp: phase1_def split: if_splits)
  then show ?thesis
    using assms(1) True phase1_not [of c "run_job j p"]
    by (auto simp: ready_inv_def run_job_frame job_fits_def)
next
  case False
  with assms have p: "phase2 c p \<or> phase3 c p" "job_waiter j < 2"
    by (simp_all add: ready_inv_def job_fits_def)
  then have "phase2 c (run_job j p) \<or> phase3 c (run_job j p)"
    using run_job_phase2 [of c p j] run_job_phase3 [of c p j] by auto
  then show ?thesis
    using assms(1) False phase1_not [of c "run_job j p"]
    by (auto simp: ready_inv_def run_job_frame job_fits_def)
qed

lemma run_jobs_inv:
  "ready_inv c p \<Longrightarrow> \<forall>j \<in> set js. job_fits c p j \<Longrightarrow> ready_inv c (fold run_job js p)"
proof (induction js arbitrary: p)
  case Nil
  then show ?case by simp
next
  case (Cons j js)
  then have "ready_inv c (run_job j p)" and "\<forall>i \<in> set js. job_fits c (run_job j p) i"
    using run_job_inv [of c p j] by auto
  then show ?case using Cons.IH by simp
qed

lemma listener_inv:
  assumes "ready_inv c p" and "k = 0"
  shows "ready_inv c (onParsingDone k p)"
proof (cases "gl p")
  case True
  with assms show ?thesis
    using gl_invoke_start [of c p] gl_invoke_done [of c p 0]
    by (auto simp: ready_inv_def onParsingDone_def gl_invoke_frame)
next
  case False
  with assms show ?thesis
    by (auto simp: ready_inv_def phase_defs onParsingDone_def scheduleRaf_def request_job_def)
qed

lemma onWindowLoad_eq: "onWindowLoad = onParsingDone"
  by (intro ext) (simp add: onWindowLoad_def onParsingDone_def)

lemma listeners_inv:
  "ready_inv c p \<Longrightarrow> \<forall>k \<in> set ks. k = 0 \<Longrightarrow> ready_inv c (fold onParsingDone ks p)"
  by (induction ks arbitrary: p) (simp_all add: listener_inv)

lemma browser_inv:
  assumes "ready_inv c p"
  shows "ready_inv c (browser e p)"
proof (cases e)
  case Parsed
  have "ready_inv c (p\<lparr>parsing := False\<rparr>)" using assms by (auto simp: ready_inv_def phase_defs)
  then show ?thesis
    using Parsed assms listeners_inv [of c "p\<lparr>parsing := False\<rparr>" "on_parsed p"]
    by (auto simp: ready_inv_def)
next
  case Loaded
  have "ready_inv c (p\<lparr>load_fired := True\<rparr>)" using assms by (auto simp: ready_inv_def phase_defs)
  then show ?thesis
    using Loaded assms listeners_inv [of c "p\<lparr>load_fired := True\<rparr>" "on_load p"]
    by (auto simp: ready_inv_def onWindowLoad_eq)
next
  case Frame
  have "ready_inv c (p\<lparr>frames := []\<rparr>)" using assms by (auto simp: ready_inv_def phase_defs)
  moreover have "\<forall>j \<in> set (frames p). job_fits c (p\<lparr>frames := []\<rparr>) j"
    using assms by (fastforce simp: ready_inv_def phase_defs job_fits_def)
  ultimately show ?thesis using Frame run_jobs_inv by simp
qed (use assms in \<open>auto simp: ready_inv_def phase_defs\<close>)

lemma run_browser_inv: "ready_inv c p \<Longrightarrow> ready_inv c (run_browser es p)"
  by (induction es arbitrary: p) (simp_all add: browser_inv)

section \<open>Liveness and giving up\<close>

text \<open>While the document is parsed nothing polls; the listener is registered.\<close>

definition parse_inv :: "'c \<Rightarrow> 'c page \<Rightarrow> bool" where
  "parse_inv c p \<longleftrightarrow> parsing p \<and> phase1 c p \<and> frames p = [] \<and> on_parsed p = [0]
     \<and> set (on_load p) \<subseteq> {0}"

lemma parse_inv_start: "parse_inv c (whenMapWithPopupReady (Some c) (new_page False b))"
  by (simp add: parse_inv_def phase1_def whenMapWithPopupReady_def whenMapLibreReady_def new_page_def Let_def)

lemma parse_inv_step:
  assumes "parse_inv c p" and "e \<noteq> Parsed"
  shows "parse_inv c (browser e p) \<and> gl (browser e p) = (gl p \<or> e = GlScript)
     \<and> popup_js (browser e p) = (popup_js p \<or> e = PopupScript)"
proof (cases e)
  case Frame
  then have "browser e p = p\<lparr>frames := []\<rparr>" using assms(1) by (simp add: parse_inv_def)
  with Frame assms(1) show ?thesis by (simp add: parse_inv_def phase1_def)
qed (use assms in \<open>simp_all add: parse_inv_def phase1_def\<close>)

lemma parse_inv_run:
  "parse_inv c p \<Longrightarrow> Parsed \<notin> set es \<Longrightarrow> parse_inv c (run_browser es p)
     \<and> gl (run_browser es p) = (gl p \<or> GlScript \<in> set es)
     \<and> popup_js (run_browser es p) = (popup_js p \<or> PopupScript \<in> set es)"
proof (induction es arbitrary: p)
  case Nil
  then show ?case by simp
next
  case (Cons e es)
  then have e: "e \<noteq> Parsed" and es: "Parsed \<notin> set es" by auto
  note s = parse_inv_step [OF Cons.prems(1) e]
  from s Cons.IH [OF _ es] show ?case by auto
qed

definition popup_wait :: "'c \<Rightarrow> nat \<Rightarrow> 'c page \<Rightarrow> bool" where
  "popup_wait c m p \<longleftrightarrow> \<not> parsing p \<and> set (on_load p) \<subseteq> {0}
     \<and> (phase3 c p \<or> phase2 c p \<and> (\<exists>n \<le> m. PopupTick 1 n \<in> set (frames p)))"

lemma run_job_js:
  "phase2 c p \<or> phase3 c p \<Longrightarrow> job_waiter j < 2 \<Longrightarrow> popup_js (run_job j p) = popup_js p"
  using grows_run_job [of j p] by (auto simp: page_grows_def phase_defs)

lemma run_jobs_phase3:
  "phase3 c p \<Longrightarrow> \<forall>j \<in> set js. job_waiter j < 2 \<Longrightarrow> fold run_job js p = p"
  by (induction js) (auto simp: run_job_phase3)

lemma run_jobs_phase2:
  "phase2 c p \<Longrightarrow> \<forall>j \<in> set js. job_waiter j < 2 \<Longrightarrow>
   phase3 c (fold run_job js p)
     \<or> phase2 c (fold run_job js p) \<and> set (frames p) \<subseteq> set (frames (fold run_job js p))"
proof (induction js arbitrary: p)
  case Nil
  then show ?case by simp
next
  case (Cons j js)
  then have j: "job_waiter j < 2" "\<forall>j \<in> set js. job_waiter j < 2" by simp_all
  from run_job_phase2 [OF Cons.prems(1) j(1)] show ?case
    using Cons.IH [OF _ j(2), of "run_job j p"] run_jobs_phase3 [OF _ j(2), of c "run_job j p"] by auto
qed

lemma run_jobs_popup:
  assumes "phase2 c p" and "\<forall>j \<in> set js. job_waiter j < 2" and "PopupTick 1 n \<in> set js"
    and "popup_js p \<or> n < 120"
  shows "phase3 c (fold run_job js p)
     \<or> \<not> popup_js p \<and> phase2 c (fold run_job js p)
       \<and> PopupTick 1 (n + 1) \<in> set (frames (fold run_job js p))"
proof -
  from assms(3) obtain xs ys where js: "js = xs @ PopupTick 1 n # ys" by (meson split_list)
  let ?q = "fold run_job xs p"
  have xs: "\<forall>j \<in> set xs. job_waiter j < 2" and ys: "\<forall>j \<in> set ys. job_waiter j < 2"
    using assms(2) js by auto
  have q: "popup_js ?q = popup_js p"
    using assms(1) xs
  proof (induction xs arbitrary: p)
    case Nil
    then show ?case by simp
  next
    case (Cons j js)
    then have j: "job_waiter j < 2" "\<forall>j \<in> set js. job_waiter j < 2" by simp_all
    from run_job_phase2 [OF Cons.prems(1) j(1)] show ?case
      using Cons.IH [OF _ j(2), of "run_job j p"] run_jobs_phase3 [OF _ j(2), of c "run_job j p"]
        run_job_js [OF disjI1 [OF Cons.prems(1)] j(1)] by auto
  qed
  from run_jobs_phase2 [OF assms(1) xs] show ?thesis
  proof
    assume "phase3 c ?q"
    then have "fold run_job js p = ?q"
      using js ys run_job_phase3 [of c ?q "PopupTick 1 n"] run_jobs_phase3 [of c ?q ys] by simp
    with \<open>phase3 c ?q\<close> show ?thesis by simp
  next
    assume "phase2 c ?q \<and> set (frames p) \<subseteq> set (frames ?q)"
    then have p2: "phase2 c ?q" by simp
    show ?thesis
    proof (cases "popup_js p")
      case True
      then have "phase3 c (run_job (PopupTick 1 n) ?q)"
        using q popup_invoke_phase2(1) [OF p2] by (simp add: popup_tick_def)
      from run_jobs_phase3 [OF this ys] this show ?thesis by (simp add: js)
    next
      case False
      then have r: "run_job (PopupTick 1 n) ?q = request_job (PopupTick 1 (n + 1)) ?q"
        using q assms(4) by (simp add: popup_tick_def)
      then have "phase2 c (run_job (PopupTick 1 n) ?q)" using request_phase2 [OF p2] by simp
      from run_jobs_phase2 [OF this ys] r False show ?thesis by (auto simp: js request_job_def)
    qed
  qed
qed

lemma listeners_idle:
  "phase2 c p \<or> phase3 c p \<Longrightarrow> \<forall>k \<in> set ks. k = 0 \<Longrightarrow> fold onParsingDone ks p = p"
proof (induction ks)
  case (Cons k ks)
  then have "onParsingDone k p = p"
    using gl_invoke_done [of c p 0] by (auto simp: onParsingDone_def phase_defs)
  with Cons show ?case by simp
qed simp

lemma run_job_parsing: "parsing (run_job j p) = parsing p"
  by (cases j) (auto simp: gl_tick_def popup_tick_def gl_invoke_def popup_invoke_def request_job_def
      whenStopMapPopupReady_def Let_def split: waiter.splits callback.splits option.splits)

lemma run_jobs_frame:
  "parsing (fold run_job js p) = parsing p" "on_load (fold run_job js p) = on_load p"
  by (induction js arbitrary: p) (simp_all add: run_job_parsing run_job_frame)

lemma popup_wait_frame:
  assumes "popup_wait c m p" and "popup_js p \<or> m < 120"
  shows "popup_wait c (m + 1) (browser Frame p)" and "popup_js p \<Longrightarrow> phase3 c (browser Frame p)"
proof -
  let ?q = "p\<lparr>frames := []\<rparr>"
  have js: "\<forall>j \<in> set (frames p). job_waiter j < 2"
    using assms(1) by (auto simp: popup_wait_def phase_defs)
  have "phase3 c (browser Frame p) \<or> \<not> popup_js p \<and> phase2 c (browser Frame p)
      \<and> (\<exists>n \<le> m + 1. PopupTick 1 n \<in> set (frames (browser Frame p)))"
  proof (cases "phase3 c p")
    case True
    then have "phase3 c ?q" by (auto simp: phase3_def)
    from run_jobs_phase3 [OF this js] this show ?thesis by simp
  next
    case False
    with assms obtain n where n: "n \<le> m" "PopupTick 1 n \<in> set (frames p)" "phase2 c p"
      by (auto simp: popup_wait_def)
    then have "phase2 c ?q" by (auto simp: phase2_def)
    from run_jobs_popup [OF this js n(2)] n(1) assms(2) show ?thesis by fastforce
  qed
  then show "popup_wait c (m + 1) (browser Frame p)" and "popup_js p \<Longrightarrow> phase3 c (browser Frame p)"
    using assms(1) by (auto simp: popup_wait_def run_jobs_frame)
qed

lemma popup_wait_run:
  "popup_wait c m p \<Longrightarrow> m + count_list es Frame \<le> 120 \<Longrightarrow>
   popup_wait c (m + count_list es Frame) (run_browser es p)"
proof (induction es arbitrary: m p)
  case Nil
  then show ?case by simp
next
  case (Cons e es)
  show ?case
  proof (cases "e = Frame")
    case True
    then show ?thesis
      using popup_wait_frame(1) [OF Cons.prems(1)] Cons.prems(2) Cons.IH [of "m + 1" "browser e p"]
      by simp
  next
    case False
    have "popup_wait c m (browser e p)"
    proof (cases e)
      case Loaded
      have "phase2 c (p\<lparr>load_fired := True\<rparr>) \<or> phase3 c (p\<lparr>load_fired := True\<rparr>)"
        using Cons.prems(1) by (auto simp: popup_wait_def phase_defs)
      then have "fold onWindowLoad (on_load p) (p\<lparr>load_fired := True\<rparr>) = p\<lparr>load_fired := True\<rparr>"
        using Cons.prems(1) by (simp add: onWindowLoad_eq popup_wait_def listeners_idle subset_iff)
      with Loaded Cons.prems(1) show ?thesis by (auto simp: popup_wait_def phase_defs)
    qed (use False Cons.prems(1) in \<open>auto simp: popup_wait_def phase_defs\<close>)
    with False Cons show ?thesis by simp
  qed
qed

lemma phase3_run: "phase3 c p \<Longrightarrow> ready_inv c p \<Longrightarrow> phase3 c (run_browser es p)"
proof (induction es arbitrary: p)
  case Nil
  then show ?case by simp
next
  case (Cons e es)
  have "phase3 c (browser e p)"
  proof (cases e)
    case Parsed
    have "phase3 c (p\<lparr>parsing := False\<rparr>)" using Cons.prems(1) by (auto simp: phase_defs)
    with Parsed Cons.prems show ?thesis
      using listeners_idle [of c "p\<lparr>parsing := False\<rparr>" "on_parsed p"] by (auto simp: ready_inv_def)
  next
    case Loaded
    have "phase3 c (p\<lparr>load_fired := True\<rparr>)" using Cons.prems(1) by (auto simp: phase_defs)
    with Loaded Cons.prems show ?thesis
      using listeners_idle [of c "p\<lparr>load_fired := True\<rparr>" "on_load p"]
      by (auto simp: ready_inv_def onWindowLoad_eq)
  next
    case Frame
    have "phase3 c (p\<lparr>frames := []\<rparr>)" using Cons.prems(1) by (auto simp: phase_defs)
    with Frame Cons.prems show ?thesis
      using run_jobs_phase3 [of c "p\<lparr>frames := []\<rparr>" "frames p"] by (auto simp: phase3_def)
  qed (use Cons.prems(1) in \<open>auto simp: phase_defs\<close>)
  with Cons browser_inv [OF Cons.prems(2)] show ?case by simp
qed

lemma browser_popup_js:
  assumes "page_inv x"
  shows "popup_js (browser e x) = (popup_js x \<or> e = PopupScript)"
proof (cases e)
  case Parsed
  have "page_grows (x\<lparr>parsing := False\<rparr>) (fold onParsingDone (on_parsed x) (x\<lparr>parsing := False\<rparr>))"
    using assms by (intro page_grows_fold [of id]) (auto simp: page_inv_def grows_listeners)
  with Parsed show ?thesis by (simp add: page_grows_def)
next
  case Loaded
  have "page_grows (x\<lparr>load_fired := True\<rparr>) (fold onWindowLoad (on_load x) (x\<lparr>load_fired := True\<rparr>))"
    using assms by (intro page_grows_fold [of id]) (auto simp: page_inv_def grows_listeners)
  with Loaded show ?thesis by (simp add: page_grows_def)
next
  case Frame
  have "page_grows (x\<lparr>frames := []\<rparr>) (fold run_job (frames x) (x\<lparr>frames := []\<rparr>))"
    using assms by (intro page_grows_fold [of job_waiter]) (auto simp: page_inv_def grows_run_job)
  with Frame show ?thesis by (simp add: page_grows_def)
qed auto

lemma popup_js_run:
  "page_inv x \<Longrightarrow> popup_js x \<or> PopupScript \<in> set es \<Longrightarrow> popup_js (run_browser es x)"
proof (induction es arbitrary: x)
  case (Cons e es)
  then show ?case
    using browser_popup_js [of x e] page_inv_browser [of x e] by (auto simp del: browser.simps)
qed simp

lemma live_lib:
  assumes "GlScript \<in> set es1" and "Parsed \<notin> set es1" and "PopupScript \<in> set (es1 @ es2)"
    and "count_list es2 Frame \<le> 120"
  shows "calls (run_browser (es1 @ Parsed # es2 @ Frame # es3)
           (whenMapWithPopupReady (Some c) (new_page False b))) = [(1, c)]"
proof -
  let ?s = "whenMapWithPopupReady (Some c) (new_page False b)"
  let ?p = "run_browser es1 ?s"
  let ?q = "browser Parsed ?p"
  let ?r = "run_browser es2 ?q"
  have p: "parse_inv c ?p" "gl ?p" "PopupScript \<in> set es1 \<longrightarrow> popup_js ?p"
    using parse_inv_run [OF parse_inv_start assms(2), of c b] assms(1) by auto
  let ?p' = "?p\<lparr>parsing := False\<rparr>"
  have ph: "phase1 c ?p'" "gl ?p'" using p(1,2) by (auto simp: parse_inv_def phase1_def)
  have q: "?q = gl_invoke 0 ?p'"
    using p(1,2) by (simp add: parse_inv_def onParsingDone_def)
  have g: "parsing (gl_invoke 0 ?p') = False"
    using run_job_parsing [of "GlTick 0 0" ?p'] ph(2) by (simp add: gl_tick_def)
  have h: "popup_js (gl_invoke 0 ?p') = popup_js ?p'"
    using grows_gl_invoke [of 0 ?p'] ph(1) by (simp add: page_grows_def phase1_def)
  have pq: "parsing ?q = False" "popup_js ?q = popup_js ?p"
    unfolding q using g h by simp_all
  have "popup_wait c 0 ?q"
    unfolding q using gl_invoke_start [OF ph] p(1) g by (auto simp: popup_wait_def parse_inv_def)
  then have r: "popup_wait c (count_list es2 Frame) ?r"
    using popup_wait_run [of c 0 ?q es2] assms(4) by simp
  have inv: "page_inv ?s"
    using grows_whenGl [of "new_page False b" "Some (ThenPopup (Some c))"]
    by (simp add: page_grows_def whenMapWithPopupReady_def page_inv_new)
  then have iq: "page_inv ?q" using page_inv_run page_inv_browser by blast
  have "popup_js ?r" using popup_js_run [OF iq, of es2] assms(3) p(3) pq(2) by auto
  then have f: "phase3 c (browser Frame ?r)" using popup_wait_frame(2) [OF r] by blast
  have "ready_inv c (browser Frame ?r)"
    using ready_inv_start [of c False b] by (intro browser_inv run_browser_inv)
  from phase3_run [OF f this, of es3] show ?thesis by (simp add: phase3_def)
qed

text \<open>Once both events have fired without MapLibre, polling dies out.\<close>

definition dead_inv :: "'c \<Rightarrow> nat \<Rightarrow> 'c page \<Rightarrow> bool" where
  "dead_inv c m p \<longleftrightarrow> \<not> parsing p \<and> load_fired p \<and> phase1 c p \<and> (\<forall>n. GlTick 0 n \<in> set (frames p) \<longrightarrow> m \<le> n)"

lemma run_job_load: "load_fired (run_job j p) = load_fired p"
  by (cases j) (auto simp: gl_tick_def popup_tick_def gl_invoke_def popup_invoke_def request_job_def
      whenStopMapPopupReady_def Let_def split: waiter.splits callback.splits option.splits)

lemma run_jobs_dead:
  "phase1 c p \<Longrightarrow> \<not> gl p \<Longrightarrow> \<forall>j \<in> set js. \<exists>n. m \<le> n \<and> n \<le> 300 \<and> j = GlTick 0 n \<Longrightarrow>
   \<forall>n. GlTick 0 n \<in> set (frames p) \<longrightarrow> m + 1 \<le> n \<Longrightarrow>
   phase1 c (fold run_job js p) \<and> \<not> gl (fold run_job js p)
     \<and> load_fired (fold run_job js p) = load_fired p
     \<and> (\<forall>n. GlTick 0 n \<in> set (frames (fold run_job js p)) \<longrightarrow> m + 1 \<le> n)"
proof (induction js arbitrary: p)
  case Nil
  then show ?case by simp
next
  case (Cons j js)
  then obtain n where n: "j = GlTick 0 n" "m \<le> n" "n \<le> 300" by auto
  let ?q = "p\<lparr>frames := frames p @ (if n < 300 then [GlTick 0 (n + 1)] else [])\<rparr>"
  have j: "run_job j p = ?q" using gl_tick_phase1 [OF Cons.prems(1) n(3)] Cons.prems(2) n(1) by simp
  have "phase1 c ?q" using Cons.prems(1) by (auto simp: phase1_def)
  moreover have "\<forall>k. GlTick 0 k \<in> set (frames ?q) \<longrightarrow> m + 1 \<le> k" using Cons.prems(4) n(2) by auto
  ultimately show ?case using Cons.IH [of ?q] Cons.prems(2,3) j by simp
qed

lemma dead_frame:
  assumes "dead_inv c m p" and "\<not> gl p"
  shows "dead_inv c (m + 1) (browser Frame p) \<and> \<not> gl (browser Frame p)"
proof -
  let ?p = "p\<lparr>frames := []\<rparr>"
  have "phase1 c ?p" using assms(1) by (auto simp: dead_inv_def phase1_def)
  moreover have "\<forall>j \<in> set (frames p). \<exists>n. m \<le> n \<and> n \<le> 300 \<and> j = GlTick 0 n"
    using assms(1) by (auto simp: dead_inv_def phase1_def)
  ultimately show ?thesis
    using run_jobs_dead [of c ?p "frames p" m] assms run_jobs_frame(1) [of "frames p" ?p]
    by (auto simp: dead_inv_def)
qed

lemma dead_run:
  "dead_inv c m p \<Longrightarrow> \<not> gl p \<Longrightarrow> GlScript \<notin> set es \<Longrightarrow>
   dead_inv c (m + count_list es Frame) (run_browser es p)"
proof (induction es arbitrary: m p)
  case Nil
  then show ?case by simp
next
  case (Cons e es)
  show ?case
  proof (cases "e = Frame")
    case True
    with Cons.IH [of "m + 1" "browser Frame p"] dead_frame [OF Cons.prems(1,2)] Cons.prems(3)
    show ?thesis by simp
  next
    case False
    then have "dead_inv c m (browser e p) \<and> \<not> gl (browser e p)"
      using Cons.prems by (cases e) (auto simp: dead_inv_def phase1_def)
    with Cons.IH [of m "browser e p"] Cons.prems(3) False show ?thesis by simp
  qed
qed

lemma dead_over:
  "dead_inv c 301 p \<Longrightarrow> frames (run_browser es p) = [] \<and> calls (run_browser es p) = []"
proof (induction es arbitrary: p)
  case Nil
  then show ?case
    by (cases "frames p") (fastforce simp: dead_inv_def phase1_def)+
next
  case (Cons e es)
  from Cons.prems have f: "frames p = []"
    by (cases "frames p") (fastforce simp: dead_inv_def phase1_def)+
  with Cons.prems have "dead_inv c 301 (browser e p)"
    by (cases e) (auto simp: dead_inv_def phase1_def)
  then show ?case using Cons.IH by simp
qed

lemma phase1_run:
  "ready_inv c p \<Longrightarrow> \<not> gl p \<Longrightarrow> GlScript \<notin> set es \<Longrightarrow> \<not> gl (run_browser es p)"
proof (induction es arbitrary: p)
  case (Cons e es)
  have p1: "phase1 c p" using Cons.prems by (auto simp: ready_inv_def phase_defs)
  have "\<not> gl (browser e p)"
  proof (cases e)
    case Parsed
    have "\<not> gl (fold onParsingDone ks q)" if "\<not> gl q" for ks and q :: "'a page"
      using that by (induction ks arbitrary: q) (simp_all add: onParsingDone_def scheduleRaf_def request_job_def)
    with Parsed Cons.prems show ?thesis by simp
  next
    case Loaded
    have "\<not> gl (fold onWindowLoad ks q)" if "\<not> gl q" for ks and q :: "'a page"
      using that by (induction ks arbitrary: q) (simp_all add: onWindowLoad_def scheduleRaf_def request_job_def)
    with Loaded Cons.prems show ?thesis by simp
  next
    case Frame
    have "phase1 c (p\<lparr>frames := []\<rparr>)" using p1 by (simp add: phase1_def)
    with Frame p1 Cons.prems show ?thesis
      using run_jobs_dead [of c "p\<lparr>frames := []\<rparr>" "frames p" 0] by (auto simp: phase1_def)
  qed (use Cons.prems in auto)
  with Cons browser_inv [OF Cons.prems(1)] show ?case by simp
qed simp

lemma listeners_frame:
  "parsing (fold onParsingDone ks q) = parsing q \<and> load_fired (fold onParsingDone ks q) = load_fired q"
proof (induction ks arbitrary: q)
  case (Cons k ks)
  have "parsing (onParsingDone k q) = parsing q \<and> load_fired (onParsingDone k q) = load_fired q"
    using run_job_parsing [of "GlTick k 0" q] run_job_load [of "GlTick k 0" q]
    by (auto simp: onParsingDone_def scheduleRaf_def request_job_def gl_tick_def)
  with Cons [of "onParsingDone k q"] show ?case by simp
qed simp

lemma browser_parsing: "parsing (browser e q) = (parsing q \<and> e \<noteq> Parsed)"
  by (cases e) (auto simp: listeners_frame run_jobs_frame onWindowLoad_eq)

lemma run_browser_parsing: "parsing (run_browser es q) = (parsing q \<and> Parsed \<notin> set es)"
  by (induction es arbitrary: q) (auto simp: browser_parsing)

lemma gives_up_lib:
  assumes "GlScript \<notin> set (es1 @ es2 @ es3)" and "301 \<le> count_list es3 Frame"
    and "Parsed \<in> set es1"
  shows "frames (run_browser (es1 @ Loaded # es2 @ es3 @ es4)
           (whenMapWithPopupReady (Some c) (new_page False b))) = []
     \<and> calls (run_browser (es1 @ Loaded # es2 @ es3 @ es4)
           (whenMapWithPopupReady (Some c) (new_page False b))) = []"
proof -
  let ?s = "whenMapWithPopupReady (Some c) (new_page False b)"
  let ?p = "run_browser (es1 @ [Loaded]) ?s"
  let ?r = "run_browser (es1 @ Loaded # es2 @ es3) ?s"
  have s: "\<not> gl ?s"
    by (simp add: whenMapWithPopupReady_def whenMapLibreReady_def new_page_def Let_def)
  have inv: "ready_inv c (run_browser es ?s)" for es
    by (intro run_browser_inv ready_inv_start)
  have gl: "\<not> gl ?p"
    using phase1_run [OF ready_inv_start [of c False b] s, of "es1 @ [Loaded]"] assms(1) by auto
  have np: "\<not> parsing (run_browser es1 ?s)" using assms(3) by (simp add: run_browser_parsing)
  then have "\<not> parsing ?p \<and> load_fired ?p" by (simp add: listeners_frame onWindowLoad_eq)
  moreover have "phase1 c ?p" using inv [of "es1 @ [Loaded]"] gl by (auto simp: ready_inv_def phase_defs)
  ultimately have "dead_inv c 0 ?p" by (simp add: dead_inv_def)
  then have "dead_inv c (count_list (es2 @ es3) Frame) (run_browser (es2 @ es3) ?p)"
    using dead_run [of c 0 ?p "es2 @ es3"] gl assms(1) by simp
  then have "dead_inv c 301 (run_browser (es2 @ es3) ?p)"
    using assms(2) by (auto simp: dead_inv_def intro: le_trans)
  from dead_over [OF this, of es4] show ?thesis by simp
qed

section \<open>Properties\<close>

text \<open>
  In every reachable page, whatever scripts wait for whatever and in whatever order the
  browser fires its events, a waiter's callback has run at most once, and each callback that ran
  belongs to a waiter marked done, which implies that the global it waited for is there.
\<close>

theorem ready_callbacks_once:
  assumes "page_reach p"
  shows "distinct (map fst (calls p))
     \<and> (\<forall>(k, c) \<in> set (calls p). waiter_calls (waiters p ! k) c \<and> waiter_ok p (waiters p ! k))"
  using page_reach_inv [OF assms] by (auto simp: page_inv_def list_all_length)

lemma ready_callbacks_once_witness:
  "let p = whenStopMapPopupReady (Some (7 :: nat)) (new_page False True) in
   distinct (map fst (calls p)) \<and> calls p = [(0, 7)]"
proof -
  let ?p = "whenStopMapPopupReady (Some (7 :: nat)) (new_page False True)"
  have "page_reach ?p" by (rule page_reach.step [OF page_reach.start page_step.wait_popup])
  from ready_callbacks_once [OF this] show ?thesis
    by (simp add: whenStopMapPopupReady_def new_page_def popup_invoke_def)
qed

text \<open>
  After one \<open>whenMapWithPopupReady(callback)\<close> the callback runs at most once, and only when
  both MapLibre and the popup script are present, under every sequence of browser events.
\<close>

theorem with_popup_safe:
  "let p = run_browser es (whenMapWithPopupReady (Some c) (new_page g b)) in
     calls p = [] \<or> calls p = [(1, c)] \<and> gl p \<and> popup_js p"
  using run_browser_inv [OF ready_inv_start, of c es g b]
  by (auto simp: ready_inv_def phase_defs Let_def)

text \<open>
  C8: The deferred bundle runs before \<open>DOMContentLoaded\<close>.  Then the callback does run, exactly
  once, provided that the popup script arrives within 120 animation frames of it.
\<close>

theorem with_popup_live:
  assumes "GlScript \<in> set es1" and "Parsed \<notin> set es1" and "PopupScript \<in> set (es1 @ es2)"
    and "count_list es2 Frame \<le> 120"
  shows "calls (run_browser (es1 @ Parsed # es2 @ Frame # es3)
           (whenMapWithPopupReady (Some c) (new_page False b))) = [(1, c)]"
  using assms by (rule live_lib)

lemma with_popup_live_witness:
  "calls (run_browser ([GlScript] @ Parsed # [Frame, PopupScript] @ Frame # [Loaded, Frame])
     (whenMapWithPopupReady (Some ''init'') (new_page False False))) = [(1, ''init'')]"
  by (rule with_popup_live) simp_all

text \<open>
  C29: When MapLibre is still missing 301 animation frames after the \<open>load\<close> event, polling has
  stopped for good: no frame is pending and the callback never runs, even if the bundle arrives
  later.
\<close>

theorem with_popup_gives_up:
  assumes "GlScript \<notin> set (es1 @ es2 @ es3)" and "301 \<le> count_list es3 Frame"
    and "Parsed \<in> set es1"
  shows "frames (run_browser (es1 @ Loaded # es2 @ es3 @ es4)
           (whenMapWithPopupReady (Some c) (new_page False b))) = []
     \<and> calls (run_browser (es1 @ Loaded # es2 @ es3 @ es4)
           (whenMapWithPopupReady (Some c) (new_page False b))) = []"
  using assms by (rule gives_up_lib)

lemma count_list_replicate_same: "count_list (replicate n x) x = n"
  by (induction n) auto

lemma with_popup_gives_up_witness:
  "calls (run_browser ([Parsed] @ Loaded # [] @ replicate 301 Frame @ [GlScript, Frame])
     (whenMapWithPopupReady (Some ''init'') (new_page False True))) = []"
  using with_popup_gives_up [of "[Parsed]" "[]" "replicate 301 Frame" "[GlScript, Frame]" "''init''" True]
  by (simp only: count_list_replicate_same) simp

end
