(* ===== verification/Ready_Callbacks.thy ===== *)
theory Ready_Callbacks
  imports Maplibre_Ready
begin

text \<open>
  Which callbacks a page of \<open>Maplibre_Ready\<close> can run: only those it was handed, and the log of calls
  only grows.  The composition with the bootstraps rests on this.
\<close>

fun waiter_cbs :: "'c waiter \<Rightarrow> 'c set" where
  "waiter_cbs (GlWaiter (Call c) d) = {c}"
| "waiter_cbs (GlWaiter (ThenPopup c) d) = set_option c"
| "waiter_cbs (PopupWaiter c d) = {c}"

text \<open>All callbacks that a page has been given.\<close>

definition page_cbs :: "'c page \<Rightarrow> 'c set" where
  "page_cbs p = \<Union> (waiter_cbs ` set (waiters p)) \<union> snd ` set (calls p)"

text \<open>A step appends to the log of calls and learns of no callbacks but those of \<open>C\<close>.\<close>

definition learns :: "'c set \<Rightarrow> 'c page \<Rightarrow> 'c page \<Rightarrow> bool" where
  "learns C p q \<longleftrightarrow> length (waiters p) \<le> length (waiters q)
     \<and> (\<exists>cs. calls q = calls p @ cs) \<and> page_cbs q \<subseteq> page_cbs p \<union> C"

lemma learns_refl [simp]: "learns C p p"
  by (simp add: learns_def)

lemma learns_trans: "learns C p q \<Longrightarrow> learns C q r \<Longrightarrow> learns C p r"
  by (fastforce simp: learns_def)

lemma learns_fold:
  assumes "\<And>x p. g x < length (waiters p) \<Longrightarrow> learns C p (f x p)"
    and "\<forall>x \<in> set xs. g x < length (waiters p)"
  shows "learns C p (fold f xs p)"
  using assms(2)
proof (induction xs arbitrary: p)
  case Nil
  then show ?case by simp
next
  case (Cons x xs)
  then have p: "learns C p (f x p)" using assms(1) by simp
  then have "length (waiters p) \<le> length (waiters (f x p))" by (simp add: learns_def)
  with Cons.prems have "\<forall>y \<in> set xs. g y < length (waiters (f x p))" by (auto intro: less_le_trans)
  then have "learns C (f x p) (fold f xs (f x p))" by (rule Cons.IH)
  with p show ?case using learns_trans by auto
qed

lemma cbs_waiter: "k < length (waiters p) \<Longrightarrow> waiter_cbs (waiters p ! k) \<subseteq> page_cbs p"
  by (auto simp: page_cbs_def)

lemma cbs_update:
  "\<Union> (waiter_cbs ` set ((waiters p)[k := w])) \<subseteq> \<Union> (waiter_cbs ` set (waiters p)) \<union> waiter_cbs w"
  using set_update_subset_insert [of "waiters p" k w] by auto

lemma learns_request [simp]: "learns C p (request_job j p)"
  by (simp add: learns_def request_job_def page_cbs_def)

lemma learns_popup_invoke:
  assumes "k < length (waiters p)"
  shows "learns C p (popup_invoke k p)"
proof (cases "waiters p ! k")
  case (GlWaiter cb d)
  then show ?thesis by (simp add: popup_invoke_def)
next
  case (PopupWaiter c d)
  then have "c \<in> page_cbs p" using cbs_waiter [OF assms] by simp
  then show ?thesis
    using cbs_update [of p k "PopupWaiter c True"]
    by (auto simp: PopupWaiter popup_invoke_def learns_def page_cbs_def)
qed

lemma learns_new_waiter: "waiter_cbs w \<subseteq> C \<Longrightarrow> learns C p (p\<lparr>waiters := waiters p @ [w]\<rparr>)"
  by (auto simp: learns_def page_cbs_def)

lemma learns_whenPopup: "learns (set_option c) p (whenStopMapPopupReady c p)"
proof (cases c)
  case (Some d)
  let ?q = "p\<lparr>waiters := waiters p @ [PopupWaiter d False]\<rparr>"
  have "learns (set_option c) p ?q" using Some by (intro learns_new_waiter) simp
  moreover have "learns (set_option c) ?q (popup_invoke (length (waiters p)) ?q)"
    by (rule learns_popup_invoke) simp
  ultimately show ?thesis
    using Some learns_trans [of _ p ?q] by (auto simp: whenStopMapPopupReady_def Let_def)
qed (simp add: whenStopMapPopupReady_def)

lemma learns_known: "learns D p q \<Longrightarrow> D \<subseteq> page_cbs p \<Longrightarrow> learns C p q"
  by (auto simp: learns_def)

lemma learns_gl_invoke:
  assumes "k < length (waiters p)"
  shows "learns C p (gl_invoke k p)"
proof (cases "\<exists>cb. waiters p ! k = GlWaiter cb False \<and> gl p")
  case False
  then show ?thesis by (auto simp: gl_invoke_def split: waiter.splits)
next
  case True
  then obtain cb where w: "waiters p ! k = GlWaiter cb False" "gl p" by auto
  let ?q = "p\<lparr>waiters := (waiters p)[k := GlWaiter cb True]\<rparr>"
  have cb: "waiter_cbs (GlWaiter cb True) \<subseteq> page_cbs p"
    using cbs_waiter [OF assms] w by (cases cb) auto
  show ?thesis
  proof (cases cb)
    case (Call c)
    then show ?thesis
      using w cb cbs_update [of p k "GlWaiter cb True"]
      by (auto simp: learns_def gl_invoke_def page_cbs_def)
  next
    case (ThenPopup c)
    have q: "learns C p ?q" using cb cbs_update [of p k "GlWaiter cb True"] by (auto simp: learns_def page_cbs_def)
    have "set_option c \<subseteq> page_cbs ?q"
      using assms ThenPopup set_update_memI [of k "waiters p" "GlWaiter cb True"] by (fastforce simp: page_cbs_def)
    then have "learns C ?q (whenStopMapPopupReady c ?q)" using learns_known [OF learns_whenPopup] by blast
    with q w ThenPopup show ?thesis using learns_trans by (auto simp: gl_invoke_def)
  qed
qed

lemma learns_run_job: "job_waiter j < length (waiters p) \<Longrightarrow> learns C p (run_job j p)"
  by (cases j) (simp_all add: gl_tick_def popup_tick_def Let_def learns_gl_invoke learns_popup_invoke)

lemma learns_listener: "k < length (waiters p) \<Longrightarrow> learns C p (onParsingDone k p)"
  by (simp add: onParsingDone_def scheduleRaf_def learns_gl_invoke)

lemma learns_fields:
  "learns C (p\<lparr>parsing := x\<rparr>) q = learns C p q" "learns C (p\<lparr>load_fired := x\<rparr>) q = learns C p q"
  "learns C (p\<lparr>frames := fs\<rparr>) q = learns C p q" "learns C p (q\<lparr>gl := x\<rparr>) = learns C p q"
  "learns C p (q\<lparr>popup_js := x\<rparr>) = learns C p q" "learns C p (q\<lparr>on_load := ls\<rparr>) = learns C p q"
  "learns C p (q\<lparr>on_parsed := ls\<rparr>) = learns C p q"
  by (simp_all add: learns_def page_cbs_def)

lemma learns_whenGl: "learns (waiter_cbs (GlWaiter cb False)) p (whenMapLibreReady (Some cb) p)"
proof -
  let ?C = "waiter_cbs (GlWaiter cb False)"
  let ?q = "p\<lparr>waiters := waiters p @ [GlWaiter cb False]\<rparr>" and ?k = "length (waiters p)"
  have q: "learns ?C p ?q" by (rule learns_new_waiter) simp
  have "learns ?C ?q (gl_invoke ?k ?q)" "learns ?C ?q (onParsingDone ?k ?q)"
    by (simp_all add: learns_gl_invoke learns_listener)
  with q have "learns ?C p (gl_invoke ?k ?q)" "learns ?C p (onParsingDone ?k ?q)"
    using learns_trans by blast+
  with q show ?thesis by (simp add: whenMapLibreReady_def Let_def learns_fields)
qed

lemma learns_browser:
  assumes "page_inv p"
  shows "learns C p (browser e p)"
proof (cases e)
  case Parsed
  have "learns C (p\<lparr>parsing := False\<rparr>) (fold onParsingDone (on_parsed p) (p\<lparr>parsing := False\<rparr>))"
    using assms by (intro learns_fold [of id]) (auto simp: learns_listener page_inv_def)
  then show ?thesis by (simp add: Parsed learns_fields)
next
  case Loaded
  have "learns C (p\<lparr>load_fired := True\<rparr>) (fold onParsingDone (on_load p) (p\<lparr>load_fired := True\<rparr>))"
    using assms by (intro learns_fold [of id]) (auto simp: learns_listener page_inv_def)
  then show ?thesis by (simp add: Loaded learns_fields onWindowLoad_eq)
next
  case Frame
  have "learns C (p\<lparr>frames := []\<rparr>) (fold run_job (frames p) (p\<lparr>frames := []\<rparr>))"
    using assms by (intro learns_fold [of job_waiter]) (auto simp: learns_run_job page_inv_def)
  then show ?thesis by (simp add: Frame learns_fields)
qed (simp_all add: learns_fields)

end
