(* ===== verification/Page_Swaps.thy ===== *)
theory Page_Swaps
  imports Map_Pages Ready_Callbacks
begin

text \<open>
  Several map pages one after the other.  A click on a row of the route page or of a search result
  makes HTMX swap the body for another page (\<open>hx-target="body"\<close> in the templates): the scripts'
  globals, listeners, requests and maps of the page that is left live on.  This theory composes
  \<open>maplibre-ready.js\<close> (the state machine of \<open>Maplibre_Ready\<close>) with the bootstraps, the init
  functions, the answers to their requests and the load events of all five page scripts, and adds
  the last lines of each script, which register its bootstrap with the document, the window and
  HTMX.

  Every map container that has ever been in the document has a number; the one in the document is
  \<open>si_current\<close>.  \<open>base.html\<close> loads \<open>maplibre-ready.js\<close> on every page, so the bootstraps always find
  the ready functions; HTMX is deferred, so it swaps only after parsing.  A container has a
  \<open>#map-element\<close> and a loader, that of the stop and the route page a refresh button.
\<close>

section \<open>The document\<close>

text \<open>A call of an init function: the page's kind and its data attributes.\<close>

type_synonym init_call = "page_kind \<times> jstring option \<times> jstring option"

record map_page =
  mp_env :: embed_env
  mp_flag :: bool
  mp_cleanup :: "nat option"
  mp_loader :: bool
  mp_children :: "child list"
  mp_panels :: "nat list"
  mp_disabled :: bool
  mp_onclick :: "init_call option"

text \<open>A request remembers its call and the container that the init function found.\<close>

record map_request =
  rq_call :: init_call
  rq_container :: nat

record live_map =
  lm_id :: nat
  lm_request :: map_request
  lm_at :: nat
  lm_loaded :: bool

text \<open>
  A callback handed to \<open>maplibre-ready.js\<close> is a \<open>doInit\<close>: its script's kind and the container it
  closed over.  \<open>si_ran\<close>: the kinds whose \<open>window.init...Map\<close> is defined; \<open>si_bound\<close>:
  \<open>window.__...EmbedHtmxBound\<close>; \<open>si_starts\<close> records the containers whose bootstrap called the init
  function.
\<close>

record site =
  si_ready :: "(page_kind \<times> nat) page"
  si_ran :: "page_kind set"
  si_bound :: "page_kind set"
  si_dcl :: "page_kind list"
  si_load :: "page_kind list"
  si_htmx :: "page_kind list"
  si_pages :: "map_page list"
  si_current :: "nat option"
  si_starts :: "nat list"
  si_requests :: "map_request list"
  si_maps :: "live_map list"
  si_next :: nat

definition new_map_page :: "embed_env \<Rightarrow> map_page" where
  "new_map_page env = \<lparr>mp_env = env, mp_flag = False, mp_cleanup = None, mp_loader = True, mp_children = [],
     mp_panels = [], mp_disabled = False, mp_onclick = None\<rparr>"

definition new_site :: "embed_env \<Rightarrow> site" where
  "new_site env = \<lparr>si_ready = new_page False False, si_ran = {}, si_bound = {}, si_dcl = [], si_load = [],
     si_htmx = [], si_pages = [new_map_page env], si_current = Some 0, si_starts = [], si_requests = [],
     si_maps = [], si_next = 0\<rparr>"

definition on_page :: "nat \<Rightarrow> (map_page \<Rightarrow> map_page) \<Rightarrow> site \<Rightarrow> site" where
  "on_page c f s = s\<lparr>si_pages := (si_pages s)[c := f (si_pages s ! c)]\<rparr>"

abbreviation kind_of :: "site \<Rightarrow> nat \<Rightarrow> page_kind" where
  "kind_of s c \<equiv> ee_kind (mp_env (si_pages s ! c))"

definition own_call :: "map_page \<Rightarrow> init_call" where
  "own_call p = (ee_kind (mp_env p), ee_first (mp_env p), ee_second (mp_env p))"

text \<open>The kinds with a clean-up function and a refresh button, and those with a layer panel.\<close>

definition refreshes :: "page_kind \<Rightarrow> bool" where
  "refreshes k \<longleftrightarrow> k = StopPage \<or> k = RoutePage"

definition has_panel :: "page_kind \<Rightarrow> bool" where
  "has_panel k \<longleftrightarrow> refreshes k \<or> k = AgencyPage"

section \<open>The init functions\<close>

text \<open>The globals that the init function of the kind tests.\<close>

definition scripts_there :: "page_kind \<Rightarrow> site \<Rightarrow> bool" where
  "scripts_there k s \<longleftrightarrow> gl (si_ready s) \<and> (k = AgencyPage \<or> popup_js (si_ready s))"

definition url_ok :: "init_call \<Rightarrow> bool" where
  "url_ok call = (case call of (k, a, b) \<Rightarrow> (case k of
      StopPage \<Rightarrow> stop_map_url (case a of Some x \<Rightarrow> x | None \<Rightarrow> []) \<noteq> None
    | RoutePage \<Rightarrow> route_map_url (case a of Some x \<Rightarrow> x | None \<Rightarrow> []) (case b of Some x \<Rightarrow> x | None \<Rightarrow> []) \<noteq> None
    | NearbyPage \<Rightarrow> True
    | StaticPage \<Rightarrow> static_stop_map_url (case a of Some x \<Rightarrow> x | None \<Rightarrow> []) \<noteq> None
    | AgencyPage \<Rightarrow> agency_url (case a of Some x \<Rightarrow> x | None \<Rightarrow> []) \<noteq> None))"

text \<open>\<open>map.remove()\<close> and \<open>panel.remove()\<close>.\<close>

definition remove_map :: "nat \<Rightarrow> site \<Rightarrow> site" where
  "remove_map m s = s\<lparr>si_maps := filter (\<lambda>l. lm_id l \<noteq> m) (si_maps s),
     si_pages := map (\<lambda>p. p\<lparr>mp_children := removeAll (Canvas m) (mp_children p),
                            mp_panels := removeAll m (mp_panels p)\<rparr>) (si_pages s)\<rparr>"

text \<open>
  \<open>document.getElementById\<close> finds the element of the page in the document, and \<open>closest\<close> the
  container of that element if it is of the function's own kind.
\<close>

definition init_site :: "init_call \<Rightarrow> site \<Rightarrow> site" where
  "init_site call s =
     (case si_current s of
        None \<Rightarrow> s
      | Some c \<Rightarrow>
          if \<not> scripts_there (fst call) s then s
          else let s = (if refreshes (fst call) \<and> kind_of s c = fst call
                        then case mp_cleanup (si_pages s ! c) of
                               None \<Rightarrow> s
                             | Some m \<Rightarrow> on_page c (\<lambda>p. p\<lparr>mp_cleanup := None\<rparr>) (remove_map m s)
                        else s);
                   s = (if refreshes (fst call) then on_page c (\<lambda>p. p\<lparr>mp_loader := True\<rparr>) s else s)
               in if url_ok call
                  then s\<lparr>si_requests := si_requests s @ [\<lparr>rq_call = call, rq_container = c\<rparr>]\<rparr> else s)"

definition do_init :: "page_kind \<times> nat \<Rightarrow> site \<Rightarrow> site" where
  "do_init cb s =
     (let k = fst cb; w = snd cb; p = si_pages s ! w in
      if mp_flag p then s
      else if \<not> (k \<in> si_ran s \<and> scripts_there k s) then s
      else init_site (k, ee_first (mp_env p), ee_second (mp_env p))
             (on_page w (\<lambda>p. p\<lparr>mp_flag := True\<rparr>) (s\<lparr>si_starts := si_starts s @ [w]\<rparr>)))"

section \<open>The bootstraps\<close>

text \<open>A step of \<open>maplibre-ready.js\<close>, with the callbacks it runs.\<close>

definition with_ready :: "((page_kind \<times> nat) page \<Rightarrow> (page_kind \<times> nat) page) \<Rightarrow> site \<Rightarrow> site" where
  "with_ready f s =
     (let r = f (si_ready s); new = drop (length (calls (si_ready s))) (calls r)
      in fold do_init (map snd new) (s\<lparr>si_ready := r\<rparr>))"

definition hand_over :: "page_kind \<Rightarrow> nat \<Rightarrow> (page_kind \<times> nat) page \<Rightarrow> (page_kind \<times> nat) page" where
  "hand_over k c = (if k = AgencyPage then whenMapLibreReady (Some (Call (k, c)))
                    else whenMapWithPopupReady (Some (k, c)))"

definition bind_page :: "page_kind \<Rightarrow> site \<Rightarrow> site" where
  "bind_page k s =
     (case si_current s of
        None \<Rightarrow> s
      | Some c \<Rightarrow>
          let p = si_pages s ! c in
          if ee_kind (mp_env p) \<noteq> k \<or> mp_flag p then s
          else if k \<notin> si_ran s then s
          else if \<not> attributes_ok k (mp_env p) then s
          else with_ready (hand_over k c) s)"

text \<open>A page script runs: it defines its init function and registers its bootstrap.\<close>

definition run_script :: "page_kind \<Rightarrow> site \<Rightarrow> site" where
  "run_script k s =
     (let s = s\<lparr>si_ran := insert k (si_ran s)\<rparr>;
          s = (if parsing (si_ready s) then s\<lparr>si_dcl := si_dcl s @ [k]\<rparr> else bind_page k s);
          s = s\<lparr>si_load := si_load s @ [k]\<rparr>
      in if k \<in> si_bound s then s
         else s\<lparr>si_bound := insert k (si_bound s), si_htmx := si_htmx s @ [k]\<rparr>)"

text \<open>What the last statements of the five scripts do.\<close>

definition stopMapScript :: "site \<Rightarrow> site" where "stopMapScript = run_script StopPage"
definition routeMapScript :: "site \<Rightarrow> site" where "routeMapScript = run_script RoutePage"
definition nearbyMapScript :: "site \<Rightarrow> site" where "nearbyMapScript = run_script NearbyPage"
definition staticStopMapScript :: "site \<Rightarrow> site" where "staticStopMapScript = run_script StaticPage"
definition agencyMapScript :: "site \<Rightarrow> site" where "agencyMapScript = run_script AgencyPage"

section \<open>Answers, load events, the refresh button\<close>

definition hide_loader :: "nat \<Rightarrow> site \<Rightarrow> site" where
  "hide_loader c = on_page c (\<lambda>p. p\<lparr>mp_loader := False\<rparr>)"

text \<open>\<open>document.getElementById("...-map-refresh")\<close>: the button of the page in the document.\<close>

definition on_button :: "page_kind \<Rightarrow> (map_page \<Rightarrow> map_page) \<Rightarrow> site \<Rightarrow> site" where
  "on_button k f s =
     (case si_current s of
        None \<Rightarrow> s
      | Some d \<Rightarrow> if refreshes k \<and> kind_of s d = k then on_page d f s else s)"

text \<open>The \<open>catch\<close> handler writes into the container that the init function found.\<close>

definition answer_failed :: "map_request \<Rightarrow> site \<Rightarrow> site" where
  "answer_failed q s =
     on_page (rq_container q) (\<lambda>p. p\<lparr>mp_children := [ErrorText]\<rparr>)
       (on_button (fst (rq_call q)) (\<lambda>p. p\<lparr>mp_disabled := False\<rparr>) (hide_loader (rq_container q) s))"

text \<open>The map's constructor looks its container up by id, and throws when there is none.\<close>

definition answer_ok :: "map_request \<Rightarrow> site \<Rightarrow> site" where
  "answer_ok q s =
     (case si_current s of
        None \<Rightarrow> answer_failed q (hide_loader (rq_container q) s)
      | Some d \<Rightarrow>
          on_page d (\<lambda>p. p\<lparr>mp_children := mp_children p @ [Canvas (si_next s)]\<rparr>)
            ((hide_loader (rq_container q) s)
               \<lparr>si_maps := si_maps s @ [\<lparr>lm_id = si_next s, lm_request = q, lm_at = d, lm_loaded = False\<rparr>],
                si_next := Suc (si_next s)\<rparr>))"

definition answer :: "nat \<Rightarrow> map_response \<Rightarrow> site \<Rightarrow> site" where
  "answer i r s =
     (if length (si_requests s) \<le> i then s
      else let q = si_requests s ! i;
               s = s\<lparr>si_requests := take i (si_requests s) @ drop (Suc i) (si_requests s)\<rparr>
           in case r of
                Payload \<Rightarrow> answer_ok q s
              | NoMap \<Rightarrow> answer_failed q (hide_loader (rq_container q) s)
              | Failed \<Rightarrow> answer_failed q s)"

text \<open>
  The end of the load handler (\<open>returns\<close>: nothing before it threw): the panel goes next to the
  container of the init function, the clean-up function to its page, and the refresh button of the
  document repeats the call.
\<close>

definition map_loaded :: "nat \<Rightarrow> bool \<Rightarrow> site \<Rightarrow> site" where
  "map_loaded m returns s =
     (case List.find (\<lambda>l. lm_id l = m \<and> \<not> lm_loaded l) (si_maps s) of
        None \<Rightarrow> s
      | Some l \<Rightarrow>
          let call = rq_call (lm_request l); k = fst call; c = rq_container (lm_request l);
              s = s\<lparr>si_maps := map (\<lambda>l. if lm_id l = m then l\<lparr>lm_loaded := True\<rparr> else l) (si_maps s)\<rparr>
          in if \<not> returns then s
             else let s = (if has_panel k then on_page c (\<lambda>p. p\<lparr>mp_panels := mp_panels p @ [m]\<rparr>) s else s);
                      s = (if refreshes k \<and> kind_of s c = k
                           then on_page c (\<lambda>p. p\<lparr>mp_cleanup := Some m\<rparr>) s else s)
                  in on_button k (\<lambda>p. p\<lparr>mp_disabled := False, mp_onclick := Some call\<rparr>) s)"

definition click_refresh :: "site \<Rightarrow> site" where
  "click_refresh s =
     (case si_current s of
        None \<Rightarrow> s
      | Some d \<Rightarrow>
          (case mp_onclick (si_pages s ! d) of
             None \<Rightarrow> s
           | Some call \<Rightarrow>
               if mp_disabled (si_pages s ! d) then s
               else init_site call (on_page d (\<lambda>p. p\<lparr>mp_disabled := True\<rparr>) s)))"

section \<open>Events\<close>

text \<open>
  \<open>SwapIn\<close>: HTMX replaces the body by another page, with a map container or without; its scripts
  run afterwards (\<open>RunScript\<close>), as they are fetched.  On \<open>DOMContentLoaded\<close> and \<open>load\<close> the listeners
  of \<open>maplibre-ready.js\<close> are taken to run before the bootstraps.
\<close>

datatype site_event =
    Browser browser_event
  | RunScript page_kind
  | SwapIn "embed_env option"
  | AfterSwap
  | AfterSettle
  | Answer nat map_response
  | Loads nat bool
  | ClickRefresh

definition swap_in :: "embed_env option \<Rightarrow> site \<Rightarrow> site" where
  "swap_in e s =
     (if parsing (si_ready s) then s
      else case e of
        None \<Rightarrow> s\<lparr>si_current := None\<rparr>
      | Some env \<Rightarrow> s\<lparr>si_pages := si_pages s @ [new_map_page env], si_current := Some (length (si_pages s))\<rparr>)"

definition htmx_event :: "site \<Rightarrow> site" where
  "htmx_event s = (if parsing (si_ready s) then s else fold bind_page (si_htmx s) s)"

fun on_site :: "site_event \<Rightarrow> site \<Rightarrow> site" where
  "on_site (Browser e) s =
     (case e of
        Parsed \<Rightarrow> if parsing (si_ready s) then fold bind_page (si_dcl s) (with_ready (browser Parsed) s) else s
      | Loaded \<Rightarrow> if parsing (si_ready s) \<or> load_fired (si_ready s) then s
                  else fold bind_page (si_load s) (with_ready (browser Loaded) s)
      | _ \<Rightarrow> with_ready (browser e) s)"
| "on_site (RunScript k) s = run_script k s"
| "on_site (SwapIn e) s = swap_in e s"
| "on_site AfterSwap s = htmx_event s"
| "on_site AfterSettle s = htmx_event s"
| "on_site (Answer i r) s = answer i r s"
| "on_site (Loads m b) s = map_loaded m b s"
| "on_site ClickRefresh s = click_refresh s"

section \<open>What the operations leave alone\<close>

lemma learns_hand_over: "learns {(k, c)} p (hand_over k c p)"
  using learns_whenGl [of "Call (k, c)" p] learns_whenGl [of "ThenPopup (Some (k, c))" p]
  by (cases "k = AgencyPage") (simp_all add: hand_over_def whenMapWithPopupReady_def)


lemma on_page_fields [simp]:
  "si_ready (on_page c f s) = si_ready s" "si_ran (on_page c f s) = si_ran s" "si_bound (on_page c f s) = si_bound s"
  "si_dcl (on_page c f s) = si_dcl s" "si_load (on_page c f s) = si_load s" "si_htmx (on_page c f s) = si_htmx s"
  "si_current (on_page c f s) = si_current s" "si_starts (on_page c f s) = si_starts s"
  "si_requests (on_page c f s) = si_requests s" "si_maps (on_page c f s) = si_maps s" "si_next (on_page c f s) = si_next s"
  "length (si_pages (on_page c f s)) = length (si_pages s)"
  by (simp_all add: on_page_def)

lemma on_page_nth:
  "si_pages (on_page c f s) ! w = (if w = c \<and> c < length (si_pages s) then f (si_pages s ! c) else si_pages s ! w)"
  by (cases "c < length (si_pages s)") (auto simp: on_page_def nth_list_update list_update_beyond)

text \<open>The data attributes and the flag of every container.\<close>

definition tags :: "site \<Rightarrow> (embed_env \<times> bool) list" where
  "tags s = map (\<lambda>p. (mp_env p, mp_flag p)) (si_pages s)"

lemma tags_on_page: "(\<And>p. mp_env (f p) = mp_env p \<and> mp_flag (f p) = mp_flag p) \<Longrightarrow> tags (on_page c f s) = tags s"
  by (intro nth_equalityI) (auto simp: tags_def on_page_nth)

lemma tags_remove_map [simp]: "tags (remove_map m s) = tags s"
  by (simp add: tags_def remove_map_def)

lemma tagsD:
  assumes "tags t = tags s"
  shows "length (si_pages t) = length (si_pages s)"
    and "w < length (si_pages s) \<Longrightarrow> mp_flag (si_pages t ! w) = mp_flag (si_pages s ! w)"
    and "w < length (si_pages s) \<Longrightarrow> mp_env (si_pages t ! w) = mp_env (si_pages s ! w)"
proof -
  show l: "length (si_pages t) = length (si_pages s)" using assms unfolding tags_def by (metis length_map)
  show "w < length (si_pages s) \<Longrightarrow> mp_flag (si_pages t ! w) = mp_flag (si_pages s ! w)"
    using arg_cong [OF assms, of "\<lambda>ts. snd (ts ! w)"] l by (simp add: tags_def)
  show "w < length (si_pages s) \<Longrightarrow> mp_env (si_pages t ! w) = mp_env (si_pages s ! w)"
    using arg_cong [OF assms, of "\<lambda>ts. fst (ts ! w)"] l by (simp add: tags_def)
qed

text \<open>The scripts and their registrations, and which page is shown.\<close>

definition wiring :: "site \<Rightarrow> page_kind set \<times> page_kind set \<times> page_kind list \<times> page_kind list \<times> page_kind list \<times> nat option" where
  "wiring s = (si_ran s, si_bound s, si_dcl s, si_load s, si_htmx s, si_current s)"

lemma remove_map_fields [simp]:
  "si_ready (remove_map m s) = si_ready s" "wiring (remove_map m s) = wiring s"
  "si_bound (remove_map m s) = si_bound s" "si_dcl (remove_map m s) = si_dcl s" "si_load (remove_map m s) = si_load s"
  "si_htmx (remove_map m s) = si_htmx s" "si_current (remove_map m s) = si_current s" "si_ran (remove_map m s) = si_ran s"
  "si_starts (remove_map m s) = si_starts s" "si_requests (remove_map m s) = si_requests s"
  "si_next (remove_map m s) = si_next s" "length (si_pages (remove_map m s)) = length (si_pages s)"
  by (simp_all add: remove_map_def wiring_def)

lemma wiring_on_page [simp]: "wiring (on_page c f s) = wiring s"
  by (simp add: wiring_def)

lemma tags_wiring_updates [simp]:
  "tags (s\<lparr>si_requests := a\<rparr>) = tags s" "tags (s\<lparr>si_maps := b\<rparr>) = tags s" "tags (s\<lparr>si_next := n\<rparr>) = tags s"
  "tags (s\<lparr>si_starts := ws\<rparr>) = tags s" "tags (s\<lparr>si_ready := r\<rparr>) = tags s"
  "wiring (s\<lparr>si_requests := a\<rparr>) = wiring s" "wiring (s\<lparr>si_maps := b\<rparr>) = wiring s" "wiring (s\<lparr>si_next := n\<rparr>) = wiring s"
  "wiring (s\<lparr>si_starts := ws\<rparr>) = wiring s" "wiring (s\<lparr>si_ready := r\<rparr>) = wiring s"
  by (simp_all add: tags_def wiring_def)

lemma init_site_fields [simp]:
  "si_ready (init_site call s) = si_ready s" "wiring (init_site call s) = wiring s"
  "si_starts (init_site call s) = si_starts s" "si_next (init_site call s) = si_next s"
  "tags (init_site call s) = tags s"
  by (simp_all add: init_site_def Let_def tags_on_page split: option.split)

lemma remove_map_nth:
  "w < length (si_pages s) \<Longrightarrow> si_pages (remove_map m s) ! w =
     (si_pages s ! w)\<lparr>mp_children := removeAll (Canvas m) (mp_children (si_pages s ! w)),
        mp_panels := removeAll m (mp_panels (si_pages s ! w))\<rparr>"
  by (simp add: remove_map_def)

lemma wiringD: "wiring t = wiring s \<Longrightarrow> si_current t = si_current s \<and> si_ran t = si_ran s \<and> si_bound t = si_bound s
    \<and> si_dcl t = si_dcl s \<and> si_load t = si_load s \<and> si_htmx t = si_htmx s"
  by (simp add: wiring_def)

lemma do_init_fields [simp]:
  "si_ready (do_init cb s) = si_ready s" "wiring (do_init cb s) = wiring s" "si_next (do_init cb s) = si_next s"
  by (simp_all add: do_init_def Let_def)

end
