(* ===== verification/Swap_Invariant.thy ===== *)
theory Swap_Invariant
  imports Page_Swaps
begin

text \<open>
  The invariant of the composed pages of \<open>Page_Swaps\<close>, kept by every event, and what follows from it:
  every container is started once, and pages that are swapped in are started.
\<close>

section \<open>The invariant\<close>

text \<open>Scripts register once with HTMX.\<close>

definition registered :: "site \<Rightarrow> bool" where
  "registered s \<longleftrightarrow> distinct (si_htmx s) \<and> set (si_htmx s) = si_ran s \<and> si_bound s = si_ran s
     \<and> set (si_dcl s) \<union> set (si_load s) \<subseteq> si_ran s"

text \<open>The page in the document is the last one.\<close>

definition last_shown :: "site \<Rightarrow> bool" where
  "last_shown s \<longleftrightarrow> (\<forall>c. si_current s = Some c \<longrightarrow> Suc c = length (si_pages s))"

text \<open>Callbacks close over containers of their script's kind; a container is started once.\<close>

definition started :: "site \<Rightarrow> bool" where
  "started s \<longleftrightarrow> page_inv (si_ready s)
     \<and> (\<forall>(k, w) \<in> page_cbs (si_ready s). w < length (si_pages s) \<and> kind_of s w = k)
     \<and> distinct (si_starts s)
     \<and> (\<forall>w. w \<in> set (si_starts s) \<longleftrightarrow> w < length (si_pages s) \<and> mp_flag (si_pages s ! w))"

text \<open>Maps have their own numbers; a clean-up function removes only a map of its own container.\<close>

definition maps_ok :: "site \<Rightarrow> bool" where
  "maps_ok s \<longleftrightarrow> (\<forall>q \<in> set (si_requests s). rq_container q < length (si_pages s))
     \<and> (\<forall>l \<in> set (si_maps s). lm_id l < si_next s \<and> rq_container (lm_request l) < length (si_pages s))
     \<and> distinct (map lm_id (si_maps s))
     \<and> (\<forall>w < length (si_pages s). \<forall>m. mp_cleanup (si_pages s ! w) = Some m \<longrightarrow> m < si_next s
          \<and> (\<forall>l \<in> set (si_maps s). lm_id l = m \<longrightarrow> rq_container (lm_request l) = w))"

definition site_ok :: "site \<Rightarrow> bool" where
  "site_ok s \<longleftrightarrow> last_shown s \<and> started s \<and> maps_ok s"

lemma last_shown_eq:
  "wiring t = wiring s \<Longrightarrow> length (si_pages t) = length (si_pages s) \<Longrightarrow> last_shown t = last_shown s"
  by (drule wiringD) (simp add: last_shown_def)

lemma started_eq:
  assumes "tags t = tags s" and "si_ready t = si_ready s" and "si_starts t = si_starts s"
  shows "started t = started s"
proof -
  have "(w < length (si_pages t) \<and> kind_of t w = k) = (w < length (si_pages s) \<and> kind_of s w = k)"
    "(w < length (si_pages t) \<and> mp_flag (si_pages t ! w)) = (w < length (si_pages s) \<and> mp_flag (si_pages s ! w))"
    for w k
    using tagsD [OF assms(1)] by auto
  then show ?thesis by (simp add: started_def assms(2,3))
qed

lemma maps_ok_page:
  assumes "maps_ok s" and "\<And>p. mp_cleanup (f p) = mp_cleanup p \<or> mp_cleanup (f p) = None"
  shows "maps_ok (on_page c f s)"
proof -
  have "mp_cleanup (si_pages s ! w) = Some m"
    if "mp_cleanup (si_pages (on_page c f s) ! w) = Some m" for w m
    using that assms(2) [of "si_pages s ! c"] by (auto simp: on_page_nth split: if_splits)
  then show ?thesis using assms(1) by (auto simp: maps_ok_def)
qed

lemma maps_ok_remove: "maps_ok s \<Longrightarrow> maps_ok (remove_map m s)"
  by (auto simp: maps_ok_def remove_map_def distinct_map inj_on_def)

lemma init_site_ok:
  assumes "site_ok s"
  shows "site_ok (init_site call s)"
proof -
  have "maps_ok (init_site call s)"
  proof (cases "si_current s")
    case None
    then show ?thesis using assms by (simp add: init_site_def site_ok_def)
  next
    case (Some c)
    define g where "g = (if refreshes (fst call) \<and> kind_of s c = fst call
        then case mp_cleanup (si_pages s ! c) of
               None \<Rightarrow> s | Some m \<Rightarrow> on_page c (\<lambda>p. p\<lparr>mp_cleanup := None\<rparr>) (remove_map m s)
        else s)"
    define h where "h = (if refreshes (fst call) then on_page c (\<lambda>p. p\<lparr>mp_loader := True\<rparr>) g else g)"
    have g: "maps_ok g"
      using assms by (auto simp: g_def site_ok_def intro!: maps_ok_page maps_ok_remove split: option.split)
    then have h: "maps_ok h" by (simp add: h_def maps_ok_page)
    have "length (si_pages h) = length (si_pages s)" by (simp add: g_def h_def split: option.split)
    moreover have "c < length (si_pages s)" using assms Some by (auto simp: site_ok_def last_shown_def)
    ultimately have "maps_ok (h\<lparr>si_requests := si_requests h @ [\<lparr>rq_call = call, rq_container = c\<rparr>]\<rparr>)"
      using h by (auto simp: maps_ok_def)
    with h assms show ?thesis
      by (simp add: init_site_def Some Let_def site_ok_def flip: g_def h_def)
  qed
  moreover have "last_shown (init_site call s)" "started (init_site call s)"
    using assms last_shown_eq [OF init_site_fields(2) tagsD(1) [OF init_site_fields(5)], of call s]
      started_eq [OF init_site_fields(5,1,3), of call s]
    by (simp_all add: site_ok_def)
  ultimately show ?thesis by (simp add: site_ok_def)
qed

abbreviation mark_started :: "nat \<Rightarrow> site \<Rightarrow> site" where
  "mark_started w s \<equiv> on_page w (\<lambda>p. p\<lparr>mp_flag := True\<rparr>) (s\<lparr>si_starts := si_starts s @ [w]\<rparr>)"

lemma mark_started_ok:
  assumes "site_ok s" and "w < length (si_pages s)" and "\<not> mp_flag (si_pages s ! w)"
  shows "site_ok (mark_started w s)"
proof -
  have "maps_ok (s\<lparr>si_starts := si_starts s @ [w]\<rparr>)" using assms(1) by (simp add: site_ok_def maps_ok_def)
  then have "maps_ok (mark_started w s)" by (rule maps_ok_page) simp
  moreover have "last_shown (mark_started w s)"
    using assms(1) last_shown_eq [of "mark_started w s" s] by (simp add: site_ok_def)
  moreover have "started (mark_started w s)"
    using assms by (auto simp: site_ok_def started_def on_page_nth)
  ultimately show ?thesis by (simp add: site_ok_def)
qed

lemma do_init_eq:
  "do_init cb s = (if mp_flag (si_pages s ! snd cb) \<or> \<not> (fst cb \<in> si_ran s \<and> scripts_there (fst cb) s) then s
     else init_site (fst cb, ee_first (mp_env (si_pages s ! snd cb)), ee_second (mp_env (si_pages s ! snd cb)))
            (mark_started (snd cb) s))"
  by (simp add: do_init_def Let_def)

lemma do_init_ok: "site_ok s \<Longrightarrow> snd cb < length (si_pages s) \<Longrightarrow> site_ok (do_init cb s)"
  by (simp add: do_init_eq init_site_ok mark_started_ok)

lemma do_inits_ok:
  "site_ok s \<Longrightarrow> \<forall>cb \<in> set cbs. snd cb < length (si_pages s) \<Longrightarrow> site_ok (fold do_init cbs s)"
proof (induction cbs arbitrary: s)
  case Nil
  then show ?case by simp
next
  case (Cons cb cbs)
  have "length (si_pages (do_init cb s)) = length (si_pages s)"
    using tagsD(1) [OF init_site_fields(5)] by (simp add: do_init_def Let_def)
  with Cons do_init_ok [of s cb] show ?case by simp
qed

text \<open>A step of \<open>maplibre-ready.js\<close> runs only callbacks of known containers.\<close>

lemma ready_step_ok:
  assumes "site_ok s" and "page_inv (f (si_ready s))" and "learns C (si_ready s) (f (si_ready s))"
    and "\<forall>(k, w) \<in> C. w < length (si_pages s) \<and> kind_of s w = k"
  shows "site_ok (s\<lparr>si_ready := f (si_ready s)\<rparr>)"
    and "\<forall>cb \<in> set (map snd (drop (length (calls (si_ready s))) (calls (f (si_ready s))))).
      snd cb < length (si_pages s)"
proof -
  let ?r = "f (si_ready s)" and ?t = "s\<lparr>si_ready := f (si_ready s)\<rparr>"
  have cbs: "\<forall>(k, w) \<in> page_cbs ?r. w < length (si_pages s) \<and> kind_of s w = k"
    using assms(1,3,4) by (fastforce simp: site_ok_def started_def learns_def)
  show "site_ok ?t"
    using assms(1,2) cbs last_shown_eq [of ?t s] by (simp add: site_ok_def started_def maps_ok_def)
  show "\<forall>cb \<in> set (map snd (drop (length (calls (si_ready s))) (calls ?r))). snd cb < length (si_pages s)"
  proof
    fix cb
    assume "cb \<in> set (map snd (drop (length (calls (si_ready s))) (calls ?r)))"
    then have "cb \<in> page_cbs ?r" using set_drop_subset by (fastforce simp: page_cbs_def)
    with cbs show "snd cb < length (si_pages s)" by auto
  qed
qed

lemma with_ready_ok:
  assumes "site_ok s" and "page_inv (f (si_ready s))" and "learns C (si_ready s) (f (si_ready s))"
    and "\<forall>(k, w) \<in> C. w < length (si_pages s) \<and> kind_of s w = k"
  shows "site_ok (with_ready f s)"
  unfolding with_ready_def Let_def using ready_step_ok [where f = f and C = C, OF assms] by (intro do_inits_ok) simp_all

lemma page_inv_hand_over: "page_inv p \<Longrightarrow> page_inv (hand_over k c p)"
  using grows_whenGl by (auto simp: hand_over_def whenMapWithPopupReady_def page_grows_def)

lemma bind_page_ok:
  assumes "site_ok s"
  shows "site_ok (bind_page k s)"
proof (cases "si_current s")
  case None
  then show ?thesis using assms by (simp add: bind_page_def)
next
  case (Some c)
  then have c: "c < length (si_pages s)" using assms by (auto simp: site_ok_def last_shown_def)
  have "site_ok (with_ready (hand_over k c) s)" if "kind_of s c = k"
    using assms c that learns_hand_over page_inv_hand_over
    by (intro with_ready_ok [where C = "{(k, c)}"]) (auto simp: site_ok_def started_def)
  then show ?thesis using assms by (simp add: bind_page_def Some Let_def)
qed

lemma binds_ok: "site_ok s \<Longrightarrow> site_ok (fold bind_page ks s)"
  by (induction ks arbitrary: s) (simp_all add: bind_page_ok)

lemma browser_ok: "site_ok s \<Longrightarrow> site_ok (with_ready (browser e) s)"
  by (rule with_ready_ok [where C = "{}"]) (auto simp: site_ok_def started_def page_inv_browser learns_browser)

lemma run_script_ok:
  assumes "site_ok s"
  shows "site_ok (run_script k s)"
proof -
  have up: "site_ok (t\<lparr>si_ran := a\<rparr>) = site_ok t" "site_ok (t\<lparr>si_dcl := b\<rparr>) = site_ok t"
    "site_ok (t\<lparr>si_load := b\<rparr>) = site_ok t" "site_ok (t\<lparr>si_bound := a, si_htmx := b\<rparr>) = site_ok t" for t a b
    by (simp_all add: site_ok_def last_shown_def started_def maps_ok_def)
  show ?thesis using assms by (simp add: run_script_def Let_def up bind_page_ok)
qed

lemma swap_in_ok:
  assumes "site_ok s"
  shows "site_ok (swap_in e s)"
proof -
  have "site_ok (s\<lparr>si_current := None\<rparr>)"
    using assms by (simp add: site_ok_def last_shown_def started_def maps_ok_def)
  moreover have "site_ok (s\<lparr>si_pages := si_pages s @ [new_map_page env], si_current := Some (length (si_pages s))\<rparr>)" for env
    using assms
    by (auto simp: site_ok_def last_shown_def started_def maps_ok_def nth_append new_map_page_def less_Suc_eq)
  ultimately show ?thesis using assms by (simp add: swap_in_def split: option.split)
qed

lemma on_page_ok:
  assumes "site_ok s"
    and "\<And>p. mp_env (f p) = mp_env p \<and> mp_flag (f p) = mp_flag p \<and> mp_cleanup (f p) = mp_cleanup p"
  shows "site_ok (on_page c f s)"
  using assms last_shown_eq [of "on_page c f s" s] started_eq [OF tags_on_page, of f c s] maps_ok_page [of s f c]
  by (simp add: site_ok_def)

lemma on_button_ok:
  "site_ok s \<Longrightarrow> (\<And>p. mp_env (f p) = mp_env p \<and> mp_flag (f p) = mp_flag p \<and> mp_cleanup (f p) = mp_cleanup p) \<Longrightarrow>
   site_ok (on_button k f s)"
  by (simp add: on_button_def on_page_ok split: option.split)

lemma requests_ok: "site_ok s \<Longrightarrow> set rs \<subseteq> set (si_requests s) \<Longrightarrow> site_ok (s\<lparr>si_requests := rs\<rparr>)"
  by (auto simp: site_ok_def last_shown_def started_def maps_ok_def)

lemma answer_failed_ok: "site_ok s \<Longrightarrow> site_ok (answer_failed q s)"
  by (simp add: answer_failed_def hide_loader_def on_page_ok on_button_ok)

lemma answer_ok_ok:
  assumes "site_ok s" and "rq_container q < length (si_pages s)"
  shows "site_ok (answer_ok q s)"
proof (cases "si_current s")
  case None
  then show ?thesis using assms(1) by (simp add: answer_ok_def hide_loader_def on_page_ok answer_failed_ok)
next
  case (Some d)
  define t where "t = hide_loader (rq_container q) s"
  have t: "site_ok t" "si_maps t = si_maps s" "si_next t = si_next s" "length (si_pages t) = length (si_pages s)"
    using assms(1) by (simp_all add: t_def hide_loader_def on_page_ok)
  have "site_ok (t\<lparr>si_maps := si_maps s @ [\<lparr>lm_id = si_next s, lm_request = q, lm_at = d, lm_loaded = False\<rparr>],
      si_next := Suc (si_next s)\<rparr>)"
    using t(1,4) assms(2) unfolding site_ok_def last_shown_def started_def
    by (auto simp: maps_ok_def t(2) [symmetric] t(3) [symmetric])
  then show ?thesis by (simp add: answer_ok_def Some on_page_ok flip: t_def)
qed

lemma answer_event_ok:
  assumes "site_ok s"
  shows "site_ok (answer i r s)"
proof (cases "length (si_requests s) \<le> i")
  case True
  then show ?thesis using assms by (simp add: answer_def)
next
  case False
  let ?t = "s\<lparr>si_requests := take i (si_requests s) @ drop (Suc i) (si_requests s)\<rparr>"
  have "site_ok ?t" using assms set_take_subset set_drop_subset by (intro requests_ok) fastforce+
  moreover have "rq_container (si_requests s ! i) < length (si_pages ?t)"
    using assms False by (auto simp: site_ok_def maps_ok_def)
  ultimately show ?thesis
    using False
    by (cases r) (simp_all add: answer_def Let_def answer_ok_ok answer_failed_ok hide_loader_def on_page_ok)
qed

lemma map_loaded_ok:
  assumes "site_ok s"
  shows "site_ok (map_loaded m b s)"
proof (cases "List.find (\<lambda>l. lm_id l = m \<and> \<not> lm_loaded l) (si_maps s)")
  case None
  then show ?thesis using assms by (simp add: map_loaded_def)
next
  case (Some l)
  then have l: "l \<in> set (si_maps s)" "lm_id l = m" by (auto simp: find_Some_iff)
  let ?c = "rq_container (lm_request l)"
  let ?f = "\<lambda>l. if lm_id l = m then l\<lparr>lm_loaded := True\<rparr> else l"
  let ?t = "s\<lparr>si_maps := map ?f (si_maps s)\<rparr>"
  have f: "lm_id (?f x) = lm_id x" "lm_request (?f x) = lm_request x" for x by simp_all
  have t: "site_ok ?t"
    using assms by (auto simp: site_ok_def last_shown_def started_def maps_ok_def comp_def f)
  define u where "u = (if has_panel (fst (rq_call (lm_request l)))
    then on_page ?c (\<lambda>p. p\<lparr>mp_panels := mp_panels p @ [m]\<rparr>) ?t else ?t)"
  have u: "site_ok u" "si_maps u = map ?f (si_maps s)" "si_next u = si_next s" "length (si_pages u) = length (si_pages s)"
    using t by (simp_all add: u_def on_page_ok)
  have "inj_on lm_id (set (si_maps s))" using assms by (simp add: site_ok_def maps_ok_def distinct_map)
  then have same: "x = l" if "x \<in> set (si_maps s)" "lm_id x = m" for x
    using l that by (simp add: inj_on_def)
  have m: "m < si_next u" using assms l u(3) by (auto simp: site_ok_def maps_ok_def)
  have own: "rq_container (lm_request x) = ?c" if "x \<in> set (si_maps u)" "lm_id x = m" for x
  proof -
    from that(1) obtain y where y: "y \<in> set (si_maps s)" "x = ?f y" unfolding u(2) by auto
    with that(2) have "y = l" by (intro same) (simp_all only: f)
    then show ?thesis by (simp only: y(2) f)
  qed
  have "maps_ok (on_page ?c (\<lambda>p. p\<lparr>mp_cleanup := Some m\<rparr>) u)"
    using u(1) m own by (simp add: site_ok_def maps_ok_def on_page_nth)
  then have "site_ok (on_page ?c (\<lambda>p. p\<lparr>mp_cleanup := Some m\<rparr>) u)"
    using u(1) last_shown_eq [of "on_page ?c (\<lambda>p. p\<lparr>mp_cleanup := Some m\<rparr>) u" u]
      started_eq [OF tags_on_page, of "\<lambda>p. p\<lparr>mp_cleanup := Some m\<rparr>" ?c u] by (simp add: site_ok_def)
  with t u(1) show ?thesis
    by (simp add: map_loaded_def Some Let_def on_button_ok flip: u_def)
qed

lemma click_refresh_ok: "site_ok s \<Longrightarrow> site_ok (click_refresh s)"
  by (simp add: click_refresh_def on_page_ok init_site_ok split: option.split)

lemma site_event_ok: "site_ok s \<Longrightarrow> site_ok (on_site e s)"
  by (cases e) (simp_all add: binds_ok browser_ok run_script_ok swap_in_ok htmx_event_def answer_event_ok
      map_loaded_ok click_refresh_ok split: browser_event.split)

interpretation site: kept on_site site_ok
  by unfold_locales (rule site_event_ok)

lemma new_site_ok: "site_ok (new_site env)"
  using page_inv_new [of False False]
  by (auto simp: new_site_def site_ok_def last_shown_def started_def maps_ok_def page_cbs_def new_page_def new_map_page_def)

section \<open>Registrations\<close>

lemma registered_eq: "wiring t = wiring s \<Longrightarrow> registered t = registered s"
  by (drule wiringD) (simp add: registered_def)

lemma do_inits_wiring: "wiring (fold do_init cbs s) = wiring s"
  by (induction cbs arbitrary: s) simp_all

lemma with_ready_wiring [simp]: "wiring (with_ready f s) = wiring s"
  by (simp add: with_ready_def Let_def do_inits_wiring)

lemma bind_page_wiring [simp]: "wiring (bind_page k s) = wiring s"
  by (simp add: bind_page_def Let_def split: option.split)

lemma binds_wiring [simp]: "wiring (fold bind_page ks s) = wiring s"
  by (induction ks arbitrary: s) simp_all

lemma button_wiring [simp]: "wiring (on_button k f s) = wiring s"
  by (simp add: on_button_def split: option.split)

lemma answer_wiring [simp]: "wiring (answer i r s) = wiring s"
proof -
  have f: "wiring (answer_failed q t) = wiring t" for q t by (simp add: answer_failed_def hide_loader_def)
  then have "wiring (answer_ok q t) = wiring t" for q t
    by (simp add: answer_ok_def hide_loader_def split: option.split)
  with f show ?thesis by (simp add: answer_def Let_def hide_loader_def split: map_response.split)
qed

lemma other_wiring [simp]: "wiring (map_loaded m b s) = wiring s" "wiring (click_refresh s) = wiring s"
  by (simp_all add: map_loaded_def click_refresh_def Let_def split: option.split)

lemma run_script_registered:
  assumes "registered s"
  shows "registered (run_script k s)"
proof -
  let ?s = "s\<lparr>si_ran := insert k (si_ran s)\<rparr>"
  let ?t = "if parsing (si_ready ?s) then ?s\<lparr>si_dcl := si_dcl ?s @ [k]\<rparr> else bind_page k ?s"
  have t: "si_ran ?t = insert k (si_ran s)" "si_bound ?t = si_bound s" "si_htmx ?t = si_htmx s"
    "si_load ?t = si_load s" "set (si_dcl ?t) \<subseteq> insert k (set (si_dcl s))"
    using wiringD [OF bind_page_wiring [of k ?s]] by auto
  then show ?thesis
    using assms unfolding run_script_def Let_def registered_def by (auto simp: t simp del: if_split_asm)
qed

lemma site_event_wiring:
  "(\<forall>k. e \<noteq> RunScript k) \<Longrightarrow> (\<forall>p. e \<noteq> SwapIn p) \<Longrightarrow> wiring (on_site e s) = wiring s"
  by (cases e) (auto simp: htmx_event_def split: browser_event.split)

lemma site_event_registered:
  assumes "registered s"
  shows "registered (on_site e s)"
proof (cases "\<exists>k p. e = RunScript k \<or> e = SwapIn p")
  case True
  with assms show ?thesis
    by (auto simp: run_script_registered) (auto simp: swap_in_def registered_def split: option.split)
next
  case False
  then have "wiring (on_site e s) = wiring s" by (intro site_event_wiring) auto
  then show ?thesis using assms registered_eq by blast
qed

interpretation wires: kept on_site registered
  by unfold_locales (rule site_event_registered)

lemma reached_site: "site_ok (fold on_site es (new_site env))" "registered (fold on_site es (new_site env))"
  by (rule site.run_inv [OF new_site_ok]) (rule wires.run_inv, simp add: new_site_def registered_def)

section \<open>A swapped-in page is started\<close>

lemma hand_over_there:
  assumes "gl p" and "popup_js p"
  shows "\<exists>j. calls (hand_over k c p) = calls p @ [(j, (k, c))]"
    and "gl (hand_over k c p)" and "popup_js (hand_over k c p)"
  using assms
  by (simp_all add: hand_over_def whenMapWithPopupReady_def whenMapLibreReady_def Let_def gl_invoke_def
      whenStopMapPopupReady_def popup_invoke_def nth_append)

lemma init_site_request:
  assumes "si_current s = Some c" and "scripts_there (fst call) s" and "url_ok call"
  shows "si_requests (init_site call s) = si_requests s @ [\<lparr>rq_call = call, rq_container = c\<rparr>]"
proof -
  have r: "si_requests (remove_map m s) = si_requests s" for m by (simp add: remove_map_def)
  show ?thesis using assms by (simp add: init_site_def Let_def r split: option.split)
qed

lemma bind_starts:
  assumes "si_current s = Some c" and "c < length (si_pages s)" and "kind_of s c = k" and "k \<in> si_ran s"
    and "attributes_ok k (mp_env (si_pages s ! c))" and "gl (si_ready s)" and "popup_js (si_ready s)"
  shows "mp_flag (si_pages (bind_page k s) ! c)"
    and "\<not> mp_flag (si_pages s ! c) \<Longrightarrow> url_ok (own_call (si_pages s ! c)) \<Longrightarrow>
      si_requests (bind_page k s) = si_requests s @ [\<lparr>rq_call = own_call (si_pages s ! c), rq_container = c\<rparr>]"
proof -
  let ?p = "si_pages s ! c" and ?r = "hand_over k c (si_ready s)"
  obtain j where j: "calls ?r = calls (si_ready s) @ [(j, (k, c))]" "gl ?r" "popup_js ?r"
    using hand_over_there [OF assms(6,7)] by blast
  let ?t = "on_page c (\<lambda>p. p\<lparr>mp_flag := True\<rparr>) (s\<lparr>si_ready := ?r, si_starts := si_starts s @ [c]\<rparr>)"
  have b: "bind_page k s = init_site (own_call ?p) ?t" if "\<not> mp_flag ?p"
    using assms that by (simp add: bind_page_def with_ready_def j do_init_def Let_def scripts_there_def own_call_def)
  have t: "tags (init_site (own_call ?p) ?t) = tags ?t" by simp
  show "mp_flag (si_pages (bind_page k s) ! c)"
  proof (cases "mp_flag ?p")
    case True
    then show ?thesis using assms(1) by (simp add: bind_page_def)
  next
    case False
    then show ?thesis using b tagsD(2) [OF t, of c] assms(2) by (simp add: on_page_nth)
  qed
  assume "\<not> mp_flag ?p" and u: "url_ok (own_call ?p)"
  moreover have "si_requests (init_site (own_call ?p) ?t) = si_requests s @ [\<lparr>rq_call = own_call ?p, rq_container = c\<rparr>]"
    using init_site_request [of ?t c "own_call ?p"] assms(1) u by (simp add: scripts_there_def j)
  ultimately show "si_requests (bind_page k s) = si_requests s @ [\<lparr>rq_call = own_call ?p, rq_container = c\<rparr>]"
    using b by simp
qed

lemma bind_idle:
  "si_current s = Some c \<Longrightarrow> kind_of s c \<noteq> k \<or> mp_flag (si_pages s ! c) \<Longrightarrow> bind_page k s = s"
  by (auto simp: bind_page_def)

lemma binds_idle: "si_current s = Some c \<Longrightarrow> mp_flag (si_pages s ! c) \<Longrightarrow> fold bind_page ks s = s"
  by (induction ks) (simp_all add: bind_idle)

lemma binds_once:
  assumes "si_current s = Some c" and "k \<in> set ks" and "kind_of s c = k" and "mp_flag (si_pages (bind_page k s) ! c)"
  shows "fold bind_page ks s = bind_page k s"
  using assms(2)
proof (induction ks)
  case Nil
  then show ?case by simp
next
  case (Cons j ks)
  show ?case
  proof (cases "j = k")
    case True
    have "si_current (bind_page k s) = Some c" using wiringD [OF bind_page_wiring] assms(1) by simp
    with True binds_idle assms(4) show ?thesis by simp
  next
    case False
    with Cons bind_idle [OF assms(1), of j] assms(3) show ?thesis by simp
  qed
qed

section \<open>Maps of pages that were left\<close>

text \<open>Map \<open>m\<close> of request \<open>q\<close>, drawn on page \<open>d\<close>, lives while the page of its request is gone.\<close>

definition outlives :: "nat \<Rightarrow> map_request \<Rightarrow> nat \<Rightarrow> site \<Rightarrow> bool" where
  "outlives m q d s \<longleftrightarrow> site_ok s \<and> (\<exists>l \<in> set (si_maps s). lm_id l = m \<and> lm_request l = q \<and> lm_at l = d)
     \<and> si_current s \<noteq> Some (rq_container q)"

abbreviation has_map :: "nat \<Rightarrow> map_request \<Rightarrow> nat \<Rightarrow> live_map list \<Rightarrow> bool" where
  "has_map m q d ls \<equiv> \<exists>l \<in> set ls. lm_id l = m \<and> lm_request l = q \<and> lm_at l = d"

lemma cleanup_own:
  assumes "site_ok s" and "si_current s = Some c" and "mp_cleanup (si_pages s ! c) = Some m"
    and "l \<in> set (si_maps s)" and "rq_container (lm_request l) \<noteq> c"
  shows "lm_id l \<noteq> m"
proof -
  have "c < length (si_pages s)" using assms(1,2) by (auto simp: site_ok_def last_shown_def)
  with assms show ?thesis unfolding site_ok_def maps_ok_def by blast
qed

lemma outlivesI:
  "outlives m q d s \<Longrightarrow> site_ok t \<Longrightarrow> wiring t = wiring s \<Longrightarrow> has_map m q d (si_maps t) \<Longrightarrow> outlives m q d t"
  using wiringD [of t s] by (simp add: outlives_def)

lemma init_site_keeps:
  assumes "outlives m q d s"
  shows "outlives m q d (init_site call s)"
proof -
  have "has_map m q d (si_maps (init_site call s))"
  proof (cases "si_current s")
    case None
    then show ?thesis using assms by (simp add: init_site_def outlives_def)
  next
    case (Some c)
    obtain l where l: "l \<in> set (si_maps s)" "lm_id l = m" "lm_request l = q" "lm_at l = d"
      using assms by (auto simp: outlives_def)
    have "rq_container (lm_request l) \<noteq> c" using assms Some l by (simp add: outlives_def)
    with cleanup_own [OF _ Some _ l(1)] assms have "m' \<noteq> m" if "mp_cleanup (si_pages s ! c) = Some m'" for m'
      using that l(2) by (auto simp: outlives_def)
    then have "l \<in> set (si_maps (init_site call s))"
      using l by (auto simp: init_site_def Some Let_def remove_map_def split: option.split)
    with l show ?thesis by blast
  qed
  moreover have "site_ok (init_site call s)" using assms init_site_ok by (simp add: outlives_def)
  ultimately show ?thesis by (intro outlivesI [OF assms]) simp_all
qed

lemma do_init_keeps:
  assumes "outlives m q d s" and "snd cb < length (si_pages s)"
  shows "outlives m q d (do_init cb s)"
proof -
  have "outlives m q d (mark_started (snd cb) s)" if "\<not> mp_flag (si_pages s ! snd cb)"
    using assms that mark_started_ok by (intro outlivesI [OF assms(1)]) (auto simp: outlives_def)
  then show ?thesis using assms(1) by (simp add: do_init_eq init_site_keeps)
qed

lemma do_inits_keep:
  "outlives m q d s \<Longrightarrow> \<forall>cb \<in> set cbs. snd cb < length (si_pages s) \<Longrightarrow> outlives m q d (fold do_init cbs s)"
proof (induction cbs arbitrary: s)
  case Nil
  then show ?case by simp
next
  case (Cons cb cbs)
  have "length (si_pages (do_init cb s)) = length (si_pages s)"
    using tagsD(1) [OF init_site_fields(5)] by (simp add: do_init_eq)
  with Cons do_init_keeps [of m q d s cb] show ?case by simp
qed

lemma with_ready_keeps:
  assumes "outlives m q d s" and "page_inv (f (si_ready s))" and "learns C (si_ready s) (f (si_ready s))"
    and "\<forall>(k, w) \<in> C. w < length (si_pages s) \<and> kind_of s w = k"
  shows "outlives m q d (with_ready f s)"
proof -
  have "site_ok s" using assms(1) by (simp add: outlives_def)
  note r = ready_step_ok [where f = f and C = C, OF this assms(2-4)]
  have "outlives m q d (s\<lparr>si_ready := f (si_ready s)\<rparr>)"
    using assms(1) r(1) by (intro outlivesI [OF assms(1)]) (simp_all add: outlives_def)
  then show ?thesis unfolding with_ready_def Let_def using r(2) by (intro do_inits_keep) simp_all
qed

lemma bind_page_keeps:
  assumes "outlives m q d s"
  shows "outlives m q d (bind_page k s)"
proof (cases "si_current s")
  case None
  then show ?thesis using assms by (simp add: bind_page_def)
next
  case (Some c)
  then have c: "c < length (si_pages s)" using assms by (auto simp: outlives_def site_ok_def last_shown_def)
  have "outlives m q d (with_ready (hand_over k c) s)" if "kind_of s c = k"
    using assms c that learns_hand_over page_inv_hand_over
    by (intro with_ready_keeps [where C = "{(k, c)}"]) (auto simp: outlives_def site_ok_def started_def)
  then show ?thesis using assms by (simp add: bind_page_def Some Let_def)
qed

lemma binds_keep: "outlives m q d s \<Longrightarrow> outlives m q d (fold bind_page ks s)"
  by (induction ks arbitrary: s) (simp_all add: bind_page_keeps)

lemma browser_keeps: "outlives m q d s \<Longrightarrow> outlives m q d (with_ready (browser e) s)"
  by (rule with_ready_keeps [where C = "{}"])
    (auto simp: outlives_def site_ok_def started_def page_inv_browser learns_browser)

lemma run_script_keeps:
  assumes "outlives m q d s"
  shows "outlives m q d (run_script k s)"
proof -
  have up: "outlives m q d (t\<lparr>si_ran := a\<rparr>) = outlives m q d t" "outlives m q d (t\<lparr>si_dcl := b\<rparr>) = outlives m q d t"
    "outlives m q d (t\<lparr>si_load := b\<rparr>) = outlives m q d t"
    "outlives m q d (t\<lparr>si_bound := a, si_htmx := b\<rparr>) = outlives m q d t" for t a b
    by (simp_all add: outlives_def site_ok_def last_shown_def started_def maps_ok_def)
  show ?thesis using assms by (simp add: run_script_def Let_def up bind_page_keeps)
qed

lemma swap_in_keeps:
  assumes "outlives m q d s"
  shows "outlives m q d (swap_in e s)"
proof -
  have "rq_container q < length (si_pages s)" using assms by (auto simp: outlives_def site_ok_def maps_ok_def)
  then show ?thesis
    using assms swap_in_ok [of s e] by (auto simp: outlives_def swap_in_def split: option.split)
qed

lemma button_maps [simp]: "si_maps (on_button k f s) = si_maps s"
  by (simp add: on_button_def split: option.split)

lemma answer_keeps:
  assumes "outlives m q d s"
  shows "outlives m q d (answer i r s)"
proof -
  have f: "si_maps (answer_failed p t) = si_maps t" for p t by (simp add: answer_failed_def hide_loader_def)
  then have "set (si_maps t) \<subseteq> set (si_maps (answer_ok p t))" for p t
    by (auto simp: answer_ok_def hide_loader_def split: option.split)
  from f this [of "s\<lparr>si_requests := take i (si_requests s) @ drop (Suc i) (si_requests s)\<rparr>" "si_requests s ! i"]
  have "set (si_maps s) \<subseteq> set (si_maps (answer i r s))"
    by (simp add: answer_def Let_def hide_loader_def split: map_response.split)
  then have "has_map m q d (si_maps (answer i r s))" using assms by (auto simp: outlives_def)
  then show ?thesis
    using assms answer_event_ok by (intro outlivesI [OF assms]) (simp_all add: outlives_def)
qed

lemma map_loaded_keeps:
  assumes "outlives m q d s"
  shows "outlives m q d (map_loaded n b s)"
proof -
  obtain l where l: "l \<in> set (si_maps s)" "lm_id l = m" "lm_request l = q" "lm_at l = d"
    using assms by (auto simp: outlives_def)
  have "si_maps (map_loaded n b s) = si_maps s
     \<or> si_maps (map_loaded n b s) = map (\<lambda>l. if lm_id l = n then l\<lparr>lm_loaded := True\<rparr> else l) (si_maps s)"
    by (simp add: map_loaded_def Let_def split: option.split)
  then have "l \<in> set (si_maps (map_loaded n b s)) \<or> l\<lparr>lm_loaded := True\<rparr> \<in> set (si_maps (map_loaded n b s))"
    using l(1) by (cases "lm_id l = n") auto
  then have "has_map m q d (si_maps (map_loaded n b s))"
    using l(2-4) by (auto intro: bexI [of _ l] bexI [of _ "l\<lparr>lm_loaded := True\<rparr>"])
  then show ?thesis
    using assms map_loaded_ok by (intro outlivesI [OF assms]) (simp_all add: outlives_def)
qed

lemma click_refresh_keeps: "outlives m q d s \<Longrightarrow> outlives m q d (click_refresh s)"
proof -
  assume a: "outlives m q d s"
  have "outlives m q d (on_page c (\<lambda>p. p\<lparr>mp_disabled := True\<rparr>) s)" for c
    using a by (intro outlivesI [OF a]) (simp_all add: outlives_def on_page_ok)
  then show ?thesis using a by (simp add: click_refresh_def init_site_keeps split: option.split)
qed

lemma site_event_keeps: "outlives m q d s \<Longrightarrow> outlives m q d (on_site e s)"
  by (cases e) (simp_all add: binds_keep browser_keeps run_script_keeps swap_in_keeps htmx_event_def answer_keeps
      map_loaded_keeps click_refresh_keeps split: browser_event.split)

interpretation left_map: kept on_site "outlives m q d"
  by unfold_locales (rule site_event_keeps)

end
