(* ===== verification/Swap_Properties.thy ===== *)
theory Swap_Properties
  imports Swap_Invariant
begin

text \<open>
  What HTMX navigation does to the map pages: every page that is swapped in is started once and with
  its own data, but nothing that the page left behind is taken back.
\<close>

text \<open>
  However often the page scripts run, in whatever order the document events fire and pages are
  swapped in, each script has exactly one listener for HTMX's events, and each map container is
  started by its bootstrap at most once, namely exactly when its flag is set.
\<close>

theorem swaps_start_once:
  assumes "s = fold on_site es (new_site env)"
  shows "distinct (si_htmx s) \<and> set (si_htmx s) = si_ran s \<and> distinct (si_starts s)
     \<and> (\<forall>w. w \<in> set (si_starts s) \<longleftrightarrow> w < length (si_pages s) \<and> mp_flag (si_pages s ! w))"
  using reached_site [of es env] by (simp add: assms registered_def site_ok_def started_def)

definition sample_page :: "page_kind \<Rightarrow> string \<Rightarrow> embed_env" where
  "sample_page k i = \<lparr>ee_kind = k, ee_wrap = True, ee_element = True, ee_init = True, ee_when = True,
     ee_first = Some (lit i), ee_second = Some (lit ''0''), ee_float = (\<lambda>x. Some 0)\<rparr>"

text \<open>A route page, and the stop page that HTMX swaps in while the route's data are awaited.\<close>

definition swap_trace :: "site_event list" where
  "swap_trace = [RunScript RoutePage, Browser GlScript, Browser PopupScript, Browser Parsed,
     SwapIn (Some (sample_page StopPage ''7'')), AfterSwap, RunScript StopPage, AfterSettle]"

lemma swap_trace_state:
  "let s = fold on_site swap_trace (new_site (sample_page RoutePage ''1'')) in
     si_current s = Some 1 \<and> length (si_pages s) = 2 \<and> kind_of s 1 = StopPage \<and> \<not> parsing (si_ready s)
     \<and> si_requests s = [\<lparr>rq_call = (RoutePage, Some (lit ''1''), Some (lit ''0'')), rq_container = 0\<rparr>,
          \<lparr>rq_call = (StopPage, Some (lit ''7''), Some (lit ''0'')), rq_container = 1\<rparr>]
     \<and> si_starts s = [0, 1] \<and> si_htmx s = [RoutePage, StopPage] \<and> si_next s = 0
     \<and> mp_children (si_pages s ! 1) = [] \<and> mp_cleanup (si_pages s ! 1) = None
     \<and> scripts_there StopPage s \<and> own_call (si_pages s ! 1) = (StopPage, Some (lit ''7''), Some (lit ''0''))"
  by code_simp

lemma swaps_start_once_witness:
  "let s = fold on_site swap_trace (new_site (sample_page RoutePage ''1''))
   in distinct (si_starts s) \<and> si_starts s = [0, 1]"
  using swaps_start_once [OF refl, of swap_trace "sample_page RoutePage ''1''"] swap_trace_state
  by (simp only: Let_def)






lemma answer_starts [simp]: "si_starts (answer i r s) = si_starts s"
  by (simp add: answer_def answer_ok_def answer_failed_def on_button_def hide_loader_def Let_def
      split: option.split map_response.split)

lemma map_loaded_starts [simp]: "si_starts (map_loaded m b s) = si_starts s"
  by (simp add: map_loaded_def on_button_def Let_def split: option.split)

lemma click_refresh_starts [simp]: "si_starts (click_refresh s) = si_starts s"
  by (simp add: click_refresh_def split: option.split)








text \<open>
  A map that was requested by a page no longer in the document is never removed again: no
  refresh, no further swap and no other event touches it.  The clean-up function hangs on the page
  that was left, and only the init function of a page in the document calls it.
\<close>

theorem left_maps_stay:
  assumes "s = fold on_site es (new_site env)" and "l \<in> set (si_maps s)"
    and "si_current s \<noteq> Some (rq_container (lm_request l))"
  shows "\<exists>l' \<in> set (si_maps (fold on_site fs s)).
     lm_id l' = lm_id l \<and> lm_request l' = lm_request l \<and> lm_at l' = lm_at l"
proof -
  have "outlives (lm_id l) (lm_request l) (lm_at l) s"
    using reached_site(1) [of es env] assms by (auto simp: outlives_def)
  from left_map.run_inv [OF this] show ?thesis by (simp add: outlives_def)
qed

lemma left_maps_stay_witness:
  "let s = fold on_site [RunScript RoutePage, Browser GlScript, Browser PopupScript, Browser Parsed,
       Answer 0 Payload, Loads 0 True, SwapIn None] (new_site (sample_page RoutePage ''1''))
   in \<exists>l \<in> set (si_maps (on_site ClickRefresh s)). lm_id l = 0"
proof -
  let ?es = "[RunScript RoutePage, Browser GlScript, Browser PopupScript, Browser Parsed,
       Answer 0 Payload, Loads 0 True, SwapIn None]"
  let ?s = "fold on_site ?es (new_site (sample_page RoutePage ''1''))"
  let ?l = "\<lparr>lm_id = 0, lm_request = \<lparr>rq_call = (RoutePage, Some (lit ''1''), Some (lit ''0'')), rq_container = 0\<rparr>,
    lm_at = 0, lm_loaded = True\<rparr>"
  have s: "si_maps ?s = [?l]" "si_current ?s = None" by code_simp+
  have l: "?l \<in> set (si_maps ?s)" "si_current ?s \<noteq> Some (rq_container (lm_request ?l))" by (simp_all only: s) simp_all
  from left_maps_stay [OF refl l, of "[ClickRefresh]"] show ?thesis by (simp only: Let_def) auto
qed

text \<open>
  C20: A request that is still pending when HTMX swaps the page in is drawn on the next page: the
  container is looked up again, by its id, when the answer arrives.  If a page \<open>d\<close> with a refresh
  button awaits its own answer while that of a page of another kind is pending, both maps end up
  in its container, the stranger first, and a refresh replaces only its own: the other page's map
  stays there whatever happens afterwards.
\<close>

theorem late_answer_on_next_page:
  assumes "s = fold on_site es (new_site env)" and "si_current s = Some d" and "p = si_pages s ! d"
    and "si_requests s = [q, \<lparr>rq_call = own_call p, rq_container = d\<rparr>]" and "rq_container q \<noteq> d"
    and "refreshes (fst (own_call p))" and "fst (rq_call q) \<noteq> fst (own_call p)" and "mp_children p = []"
    and "mp_cleanup p = None" and "scripts_there (fst (own_call p)) s" and "url_ok (own_call p)" and "n = si_next s"
    and "t = fold on_site [Answer 0 Payload, Answer 0 Payload, Loads (Suc n) True] s"
    and "u = fold on_site [ClickRefresh, Answer 0 Payload] t"
  shows "mp_children (si_pages t ! d) = [Canvas n, Canvas (Suc n)]
     \<and> mp_cleanup (si_pages t ! d) = Some (Suc n)
     \<and> mp_children (si_pages u ! d) = [Canvas n, Canvas (Suc (Suc n))]
     \<and> (\<forall>fs. has_map n q d (si_maps (fold on_site fs u)))"
proof -
  have ok: "site_ok s" unfolding assms(1) by (rule reached_site)
  then have d: "d < length (si_pages s)" using assms(2) by (auto simp: site_ok_def last_shown_def)
  have ids: "\<forall>l \<in> set (si_maps s). lm_id l < n" using ok by (simp add: site_ok_def maps_ok_def assms(12))
  let ?q = "\<lparr>rq_call = own_call p, rq_container = d\<rparr>"
  define g where "g = on_site (Answer 0 Payload) s"
  have g: "si_current g = Some d" "si_requests g = [?q]" "si_next g = Suc n" "length (si_pages g) = length (si_pages s)"
    "si_maps g = si_maps s @ [\<lparr>lm_id = n, lm_request = q, lm_at = d, lm_loaded = False\<rparr>]"
    "mp_children (si_pages g ! d) = [Canvas n]" "mp_cleanup (si_pages g ! d) = None" "mp_env (si_pages g ! d) = mp_env p"
    "si_ready g = si_ready s"
    using assms(2-5,8,9) d
    by (simp_all add: g_def answer_def answer_ok_def hide_loader_def on_page_nth assms(12))
  define h where "h = on_site (Answer 0 Payload) g"
  let ?l = "\<lparr>lm_id = Suc n, lm_request = ?q, lm_at = d, lm_loaded = False\<rparr>"
  have h: "si_current h = Some d" "si_requests h = []" "si_next h = Suc (Suc n)" "length (si_pages h) = length (si_pages s)"
    "si_maps h = si_maps g @ [?l]"
    "mp_children (si_pages h ! d) = [Canvas n, Canvas (Suc n)]" "mp_cleanup (si_pages h ! d) = None"
    "mp_env (si_pages h ! d) = mp_env p" "si_ready h = si_ready s"
    using g d by (simp_all add: h_def answer_def answer_ok_def hide_loader_def on_page_nth)
  have f: "List.find (\<lambda>l. lm_id l = Suc n \<and> \<not> lm_loaded l) (si_maps h) = Some ?l"
  proof -
    have "List.find (\<lambda>l. lm_id l = Suc n \<and> \<not> lm_loaded l) (si_maps s) = None"
      using ids by (auto simp: find_None_iff)
    then show ?thesis by (simp add: h(5) g(5) find_append)
  qed
  have k: "fst (own_call p) = ee_kind (mp_env p)" by (simp add: own_call_def)
  have t: "t = map_loaded (Suc n) True h" by (simp add: assms(13) g_def h_def)
  have page_t: "si_current t = Some d" "si_requests t = []" "si_next t = Suc (Suc n)" "si_ready t = si_ready s"
    "length (si_pages t) = length (si_pages s)" "mp_children (si_pages t ! d) = [Canvas n, Canvas (Suc n)]"
    "mp_cleanup (si_pages t ! d) = Some (Suc n)" "mp_env (si_pages t ! d) = mp_env p"
    "mp_onclick (si_pages t ! d) = Some (own_call p)" "\<not> mp_disabled (si_pages t ! d)"
    using h(1-4,6-9) d assms(6) k by (simp_all add: t map_loaded_def f Let_def has_panel_def on_button_def on_page_nth)
  define v where "v = on_site ClickRefresh t"
  have v: "si_current v = Some d" "si_requests v = [?q]" "si_next v = Suc (Suc n)"
    "length (si_pages v) = length (si_pages s)" "mp_children (si_pages v ! d) = [Canvas n]"
    using page_t d assms(6,10,11) k
    by (simp_all add: v_def click_refresh_def init_site_def Let_def on_page_nth remove_map_nth scripts_there_def)
  have u: "u = on_site (Answer 0 Payload) v" by (simp add: assms(14) v_def)
  have child_u: "mp_children (si_pages u ! d) = [Canvas n, Canvas (Suc (Suc n))]"
    using v d by (simp add: u answer_def answer_ok_def hide_loader_def on_page_nth)
  have "site_ok g" unfolding g_def by (rule site_event_ok [OF ok])
  then have "outlives n q d g" using g assms(5) by (auto simp: outlives_def)
  then have "outlives n q d u"
    unfolding u v_def t h_def by (intro site_event_keeps map_loaded_keeps)
  then have "has_map n q d (si_maps (fold on_site fs u))" for fs
    using left_map.run_inv [of n q d u fs] by (simp add: outlives_def)
  with page_t(6,7) child_u show ?thesis by blast
qed

lemma late_answer_on_next_page_witness:
  "let s = fold on_site swap_trace (new_site (sample_page RoutePage ''1''));
       u = fold on_site [ClickRefresh, Answer 0 Payload] (fold on_site [Answer 0 Payload, Answer 0 Payload, Loads 1 True] s)
   in mp_children (si_pages u ! 1) = [Canvas 0, Canvas 2]"
proof -
  let ?s = "fold on_site swap_trace (new_site (sample_page RoutePage ''1''))"
  let ?q = "\<lparr>rq_call = (RoutePage, Some (lit ''1''), Some (lit ''0'')), rq_container = 0\<rparr>"
  have own: "own_call (si_pages ?s ! 1) = (StopPage, Some (lit ''7''), Some (lit ''0''))"
    using swap_trace_state by (simp only: Let_def)
  have s: "si_current ?s = Some 1" "si_requests ?s = [?q, \<lparr>rq_call = own_call (si_pages ?s ! 1), rq_container = 1\<rparr>]"
    "mp_children (si_pages ?s ! 1) = []" "mp_cleanup (si_pages ?s ! 1) = None" "si_next ?s = 0"
    "scripts_there (fst (own_call (si_pages ?s ! 1))) ?s"
    unfolding own using swap_trace_state by (simp_all only: Let_def fst_conv)
  have c: "rq_container ?q \<noteq> 1" "refreshes (fst (own_call (si_pages ?s ! 1)))"
    "fst (rq_call ?q) \<noteq> fst (own_call (si_pages ?s ! 1))" "url_ok (own_call (si_pages ?s ! 1))"
    unfolding own by code_simp+
  note t = late_answer_on_next_page [OF refl s(1) refl s(2) c(1-3) s(3,4,6) c(4) s(5) [symmetric] refl refl]
  show ?thesis using t by (simp only: Let_def One_nat_def numeral_2_eq_2)
qed

end
