(* ===== verification/Swap_Calm.thy ===== *)
theory Swap_Calm
  imports Swap_Properties
begin

text \<open>
  Navigation that waits: as long as HTMX swaps a page out only when its map has been answered and
  loaded and no bootstrap of it is waiting, the pages do not disturb each other, and the page in the
  document has at most one map, which is its own.
\<close>

section \<open>Waiting before a swap\<close>

text \<open>Something of the pages seen so far is awaited: an answer, a load event or the scripts.\<close>

definition busy :: "site \<Rightarrow> bool" where
  "busy s \<longleftrightarrow> si_requests s \<noteq> [] \<or> (\<exists>l \<in> set (si_maps s). \<not> lm_loaded l)
     \<or> (\<exists>(k, w) \<in> page_cbs (si_ready s). \<not> mp_flag (si_pages s ! w))"

fun calm_site :: "site_event \<Rightarrow> site \<Rightarrow> site" where
  "calm_site (SwapIn p) s = (if busy s then s else on_site (SwapIn p) s)"
| "calm_site e s = on_site e s"

section \<open>The invariant\<close>

definition clickable :: "map_page \<Rightarrow> bool" where
  "clickable p \<longleftrightarrow> mp_onclick p \<noteq> None \<and> \<not> mp_disabled p"

definition maps_at :: "nat \<Rightarrow> site \<Rightarrow> live_map list" where
  "maps_at c s = filter (\<lambda>l. lm_at l = c) (si_maps s)"

text \<open>The work under way is that of the page in the document.\<close>

definition own_page :: "nat \<Rightarrow> site \<Rightarrow> bool" where
  "own_page c s \<longleftrightarrow> (let p = si_pages s ! c; own = \<lparr>rq_call = own_call p, rq_container = c\<rparr> in
     (\<forall>q \<in> set (si_requests s). q = own)
     \<and> (\<forall>l \<in> set (maps_at c s). lm_request l = own) \<and> (\<forall>l \<in> set (si_maps s). lm_loaded l \<or> lm_at l = c)
     \<and> length (si_requests s) + length (maps_at c s) \<le> 1
     \<and> canvases (mp_children p) = map lm_id (maps_at c s)
     \<and> (\<forall>call. mp_onclick p = Some call \<longrightarrow> call = own_call p \<and> refreshes (fst call))
     \<and> (\<not> mp_flag p \<longrightarrow> si_requests s = [] \<and> maps_at c s = [] \<and> mp_onclick p = None)
     \<and> (clickable p \<longrightarrow> si_requests s = []
          \<and> (\<forall>l \<in> set (maps_at c s). lm_loaded l \<and> mp_cleanup p = Some (lm_id l)))
     \<and> (\<forall>(k, w) \<in> page_cbs (si_ready s). w \<noteq> c \<longrightarrow> mp_flag (si_pages s ! w)))"

definition calm :: "site \<Rightarrow> bool" where
  "calm s \<longleftrightarrow> site_ok s \<and> (\<forall>l \<in> set (si_maps s). lm_at l < length (si_pages s))
     \<and> (case si_current s of None \<Rightarrow> \<not> busy s | Some c \<Rightarrow> own_page c s)"

text \<open>A page that is about to request its map.\<close>

definition idle_page :: "nat \<Rightarrow> site \<Rightarrow> bool" where
  "idle_page c s \<longleftrightarrow> (let p = si_pages s ! c in
     si_requests s = [] \<and> (\<forall>l \<in> set (si_maps s). lm_loaded l) \<and> mp_flag p \<and> \<not> clickable p
     \<and> (\<forall>l \<in> set (maps_at c s). refreshes (fst (own_call p)) \<and> mp_cleanup p = Some (lm_id l))
     \<and> length (maps_at c s) \<le> 1)"

lemma maps_at_remove: "maps_at c (remove_map m s) = filter (\<lambda>l. lm_id l \<noteq> m) (maps_at c s)"
  by (simp add: maps_at_def remove_map_def conj_commute)

lemma maps_at_page [simp]: "maps_at c (on_page d f s) = maps_at c s"
  by (simp add: maps_at_def)

lemma removeAll_ids: "removeAll m (map lm_id ls) = map lm_id (filter (\<lambda>l. lm_id l \<noteq> m) ls)"
  by (induction ls) auto

lemma init_own:
  assumes "own_page c s" and "idle_page c s" and "si_current s = Some c" and "c < length (si_pages s)"
    and "\<forall>(k, w) \<in> page_cbs (si_ready s). w < length (si_pages s)"
    and "call = own_call (si_pages s ! c)"
  shows "own_page c (init_site call s)"
proof (cases "scripts_there (fst call) s")
  case False
  then show ?thesis using assms(1,3) by (simp add: init_site_def)
next
  case True
  let ?p = "si_pages s ! c"
  have k: "fst call = ee_kind (mp_env ?p)" by (simp add: assms(6) own_call_def)
  define g where "g = (if refreshes (fst call) \<and> kind_of s c = fst call
        then case mp_cleanup ?p of
               None \<Rightarrow> s | Some m \<Rightarrow> on_page c (\<lambda>p. p\<lparr>mp_cleanup := None\<rparr>) (remove_map m s)
        else s)"
  define h where "h = (if refreshes (fst call) then on_page c (\<lambda>p. p\<lparr>mp_loader := True\<rparr>) g else g)"
  have none: "maps_at c g = []"
    using assms(2) k by (auto simp: g_def idle_page_def Let_def maps_at_remove filter_empty_conv assms(6)
        split: option.splits)
  have g: "si_requests g = []" "si_ready g = si_ready s" "si_current g = Some c" "tags g = tags s"
    "length (si_pages g) = length (si_pages s)" "\<forall>l \<in> set (si_maps g). lm_loaded l"
    "mp_onclick (si_pages g ! c) = mp_onclick ?p" "mp_disabled (si_pages g ! c) = mp_disabled ?p"
    "canvases (mp_children (si_pages g ! c)) = map lm_id (maps_at c g)"
    using assms(1-4)
    by (auto simp: g_def idle_page_def own_page_def Let_def tags_on_page on_page_nth remove_map_nth maps_at_remove
        removeAll_ids split: option.splits) (auto simp: remove_map_def)
  have h: "si_requests h = []" "si_ready h = si_ready s" "tags h = tags s" "\<forall>l \<in> set (si_maps h). lm_loaded l"
    "mp_onclick (si_pages h ! c) = mp_onclick ?p" "mp_disabled (si_pages h ! c) = mp_disabled ?p"
    "canvases (mp_children (si_pages h ! c)) = []" "maps_at c h = []"
    using g none by (simp_all add: h_def on_page_nth tags_on_page)
  note t = tagsD [OF h(3)]
  let ?t = "if url_ok call then h\<lparr>si_requests := si_requests h @ [\<lparr>rq_call = call, rq_container = c\<rparr>]\<rparr> else h"
  have i: "init_site call s = ?t"
    using assms(3) True by (simp add: init_site_def Let_def flip: g_def h_def)
  have p: "si_pages ?t = si_pages h" "si_maps ?t = si_maps h" "si_ready ?t = si_ready h" "maps_at c ?t = []"
    "\<forall>q \<in> set (si_requests ?t). q = \<lparr>rq_call = call, rq_container = c\<rparr>" "length (si_requests ?t) \<le> 1"
    using h(1,8) by (simp_all add: maps_at_def)
  have q: "own_call (si_pages h ! c) = call" "mp_flag (si_pages h ! c)" "\<not> clickable (si_pages h ! c)"
    using assms(2,4,6) t(2,3) [OF assms(4)] h(5,6)
    by (simp_all add: own_call_def idle_page_def Let_def clickable_def)
  have w: "\<forall>(k, w) \<in> page_cbs (si_ready h). w \<noteq> c \<longrightarrow> mp_flag (si_pages h ! w)"
    using assms(1,5) t(2) unfolding h(2) own_page_def Let_def by fastforce
  have o: "\<forall>x. mp_onclick (si_pages h ! c) = Some x \<longrightarrow> x = call \<and> refreshes (fst x)"
    using assms(1,6) by (auto simp: own_page_def Let_def h(5))
  show ?thesis
    unfolding i own_page_def Let_def p q(1) using p(5,6) q(2,3) w o h(4,7) by simp
qed

section \<open>Every waiting event keeps it\<close>

lemma calm_siteD: "calm s \<Longrightarrow> site_ok s"
  by (simp add: calm_def)

lemma calm_current:
  assumes "calm s" and "si_current s = Some c"
  shows "c < length (si_pages s)" and "own_page c s"
  using assms by (auto simp: calm_def site_ok_def last_shown_def)

lemma site_cbs: "site_ok s \<Longrightarrow> \<forall>(k, w) \<in> page_cbs (si_ready s). w < length (si_pages s) \<and> kind_of s w = k"
  by (simp add: site_ok_def started_def)

lemma init_site_maps: "set (si_maps (init_site call s)) \<subseteq> set (si_maps s)"
  by (auto simp: init_site_def Let_def remove_map_def split: option.split)

lemma calmI:
  assumes "site_ok t" and "si_current t = Some c" and "own_page c t"
    and "\<forall>l \<in> set (si_maps t). lm_at l < length (si_pages t)"
  shows "calm t"
  using assms by (simp add: calm_def)

lemma do_init_calm:
  assumes "calm s" and "cb \<in> page_cbs (si_ready s)"
  shows "calm (do_init cb s)"
proof (cases "mp_flag (si_pages s ! snd cb) \<or> \<not> (fst cb \<in> si_ran s \<and> scripts_there (fst cb) s)")
  case True
  then show ?thesis using assms(1) by (auto simp: do_init_eq)
next
  case False
  obtain k w where cb: "cb = (k, w)" by (cases cb)
  note ok = calm_siteD [OF assms(1)]
  have w: "w < length (si_pages s)" "kind_of s w = k" using site_cbs [OF ok] assms(2) cb by auto
  have f: "\<not> mp_flag (si_pages s ! w)" using False cb by simp
  obtain c where c: "si_current s = Some c"
    using assms f cb by (cases "si_current s") (auto simp: calm_def busy_def)
  note own = calm_current [OF assms(1) c]
  have wc: "w = c" using own(2) assms(2) f cb by (auto simp: own_page_def Let_def)
  let ?t = "mark_started c s"
  have o: "own_call (si_pages ?t ! c) = own_call (si_pages s ! c)"
    using own(1) by (simp add: on_page_nth own_call_def)
  have m: "maps_at c ?t = maps_at c s" by (simp add: maps_at_def)
  have t: "own_page c ?t"
    using own f wc o m by (auto simp: own_page_def Let_def on_page_nth clickable_def)
  have i: "idle_page c ?t"
    using own f wc m by (auto simp: own_page_def idle_page_def Let_def on_page_nth clickable_def maps_at_def filter_empty_conv)
  have call: "(k, ee_first (mp_env (si_pages s ! w)), ee_second (mp_env (si_pages s ! w))) = own_call (si_pages ?t ! c)"
    unfolding o using w(2) wc by (simp add: own_call_def)
  have "own_page c (init_site (own_call (si_pages ?t ! c)) ?t)"
    using own(1) c site_cbs [OF ok] by (intro init_own [OF t i]) auto
  then have "own_page c (do_init cb s)"
    using False call wc by (simp add: do_init_eq cb)
  moreover have "si_current (do_init cb s) = Some c" using wiringD [OF do_init_fields(2)] c by simp
  moreover have "length (si_pages (do_init cb s)) = length (si_pages s)"
    using tagsD(1) [OF init_site_fields(5)] by (simp add: do_init_eq)
  moreover have "set (si_maps (do_init cb s)) \<subseteq> set (si_maps s)"
    using init_site_maps [of _ "mark_started (snd cb) s"] by (simp add: do_init_eq)
  ultimately show ?thesis
    using assms(1) do_init_ok [OF ok, of cb] w cb by (intro calmI) (auto simp: calm_def)
qed

lemma do_inits_calm: "calm s \<Longrightarrow> set cbs \<subseteq> page_cbs (si_ready s) \<Longrightarrow> calm (fold do_init cbs s)"
  by (induction cbs arbitrary: s) (simp_all add: do_init_calm)

lemma with_ready_calm:
  assumes "calm s" and "page_inv (f (si_ready s))" and "learns C (si_ready s) (f (si_ready s))"
    and "\<forall>(k, w) \<in> C. w < length (si_pages s) \<and> kind_of s w = k \<and> si_current s = Some w"
  shows "calm (with_ready f s)"
proof -
  let ?r = "f (si_ready s)" and ?t = "s\<lparr>si_ready := f (si_ready s)\<rparr>"
  have "\<forall>(k, w) \<in> C. w < length (si_pages s) \<and> kind_of s w = k" using assms(4) by auto
  note r = ready_step_ok(1) [where f = f and C = C, OF calm_siteD [OF assms(1)] assms(2,3) this]
  have cbs: "page_cbs ?r \<subseteq> page_cbs (si_ready s) \<union> C" using assms(3) by (simp add: learns_def)
  have "calm ?t"
  proof (cases "si_current s")
    case None
    then have "C = {}" using assms(4) by auto
    with cbs None assms(1) r show ?thesis by (auto simp: calm_def busy_def)
  next
    case (Some c)
    have "\<forall>(k, w) \<in> page_cbs ?r. w \<noteq> c \<longrightarrow> mp_flag (si_pages s ! w)"
      using calm_current(2) [OF assms(1) Some] cbs assms(4) Some by (fastforce simp: own_page_def Let_def)
    then have "own_page c ?t"
      using calm_current(2) [OF assms(1) Some] by (simp add: own_page_def Let_def maps_at_def)
    with assms(1) Some r show ?thesis by (simp add: calm_def)
  qed
  moreover have "set (map snd (drop (length (calls (si_ready s))) (calls ?r))) \<subseteq> page_cbs ?r"
    using set_drop_subset by (fastforce simp: page_cbs_def)
  ultimately show ?thesis unfolding with_ready_def Let_def by (intro do_inits_calm) simp_all
qed

lemma bind_page_calm:
  assumes "calm s"
  shows "calm (bind_page k s)"
proof (cases "si_current s")
  case None
  then show ?thesis using assms by (simp add: bind_page_def)
next
  case (Some c)
  have "calm (with_ready (hand_over k c) s)" if "kind_of s c = k"
    using assms Some that calm_current(1) [OF assms Some] learns_hand_over page_inv_hand_over
    by (intro with_ready_calm [where C = "{(k, c)}"]) (auto simp: calm_def site_ok_def started_def)
  then show ?thesis using assms by (simp add: bind_page_def Some Let_def)
qed

lemma binds_calm: "calm s \<Longrightarrow> calm (fold bind_page ks s)"
  by (induction ks arbitrary: s) (simp_all add: bind_page_calm)

lemma browser_calm: "calm s \<Longrightarrow> calm (with_ready (browser e) s)"
  by (rule with_ready_calm [where C = "{}"])
    (auto simp: calm_def site_ok_def started_def page_inv_browser learns_browser)

lemma run_script_calm:
  assumes "calm s"
  shows "calm (run_script k s)"
proof -
  have up: "calm (t\<lparr>si_ran := a\<rparr>) = calm t" "calm (t\<lparr>si_dcl := b\<rparr>) = calm t"
    "calm (t\<lparr>si_load := b\<rparr>) = calm t" "calm (t\<lparr>si_bound := a, si_htmx := b\<rparr>) = calm t" for t a b
    by (simp_all add: calm_def site_ok_def last_shown_def started_def maps_ok_def busy_def own_page_def maps_at_def
        split: option.split)
  show ?thesis using assms by (simp add: run_script_def Let_def up bind_page_calm)
qed

lemma swap_calm:
  assumes "calm s" and "\<not> busy s"
  shows "calm (swap_in e s)"
proof -
  let ?n = "length (si_pages s)"
  let ?t = "\<lambda>env. s\<lparr>si_pages := si_pages s @ [new_map_page env], si_current := Some ?n\<rparr>"
  have "maps_at ?n (?t env) = []" for env
    using assms(1) by (auto simp: maps_at_def calm_def filter_empty_conv)
  moreover have "\<forall>(k, w) \<in> page_cbs (si_ready s). w \<noteq> ?n \<longrightarrow> mp_flag (si_pages (?t env) ! w)" for env
    using assms(2) site_cbs [OF calm_siteD [OF assms(1)]] by (auto simp: busy_def nth_append)
  ultimately have "own_page ?n (?t env)" for env
    using assms(2) by (simp add: own_page_def Let_def busy_def clickable_def new_map_page_def)
  moreover have "\<forall>l \<in> set (si_maps s). lm_at l < Suc ?n" using assms(1) by (auto simp: calm_def)
  ultimately show ?thesis
    using assms swap_in_ok [OF calm_siteD [OF assms(1)], of e]
    by (auto simp: swap_in_def calm_def split: option.split) (auto simp: busy_def)
qed

lemma answer_none: "si_requests s = [] \<Longrightarrow> answer i r s = s"
  by (simp add: answer_def)

lemma on_page_twice: "c < length (si_pages s) \<Longrightarrow> on_page c f (on_page c g s) = on_page c (\<lambda>p. f (g p)) s"
  by (simp add: on_page_def)

text \<open>An answer that draws nothing: the loader goes, the error text comes, the button works again.\<close>

definition error_page :: "map_page \<Rightarrow> map_page" where
  "error_page p = p\<lparr>mp_loader := False, mp_children := [ErrorText],
     mp_disabled := mp_disabled p \<and> \<not> refreshes (ee_kind (mp_env p))\<rparr>"

lemma answer_failed_own:
  assumes "si_current s = Some c" and "c < length (si_pages s)" and "fst (rq_call q) = kind_of s c"
    and "rq_container q = c"
  shows "answer_failed q s = on_page c error_page s"
    and "answer_failed q (hide_loader c s) = on_page c error_page s"
proof -
  have "error_page (p\<lparr>mp_loader := False\<rparr>) = error_page p"
    and "error_page p = (if refreshes (ee_kind (mp_env p))
      then p\<lparr>mp_loader := False, mp_disabled := False, mp_children := [ErrorText]\<rparr>
      else p\<lparr>mp_loader := False, mp_children := [ErrorText]\<rparr>)" for p
    by (cases p; simp add: error_page_def)+
  then show "answer_failed q s = on_page c error_page s" "answer_failed q (hide_loader c s) = on_page c error_page s"
    using assms by (simp_all add: answer_failed_def hide_loader_def on_button_def on_page_nth on_page_twice)
      (simp_all add: on_page_def)
qed

lemma answer_calm:
  assumes "calm s"
  shows "calm (answer i r s)"
proof (cases "length (si_requests s) \<le> i")
  case True
  then show ?thesis using assms by (simp add: answer_def)
next
  case False
  obtain c where c: "si_current s = Some c"
    using assms False by (cases "si_current s") (auto simp: calm_def busy_def)
  note own = calm_current [OF assms c]
  let ?p = "si_pages s ! c"
  let ?q = "\<lparr>rq_call = own_call ?p, rq_container = c\<rparr>"
  have "length (si_requests s) = 1" using own(2) False by (simp add: own_page_def Let_def)
  then have q: "si_requests s = [?q]" "i = 0"
    using own(2) False by (auto simp: own_page_def Let_def length_Suc_conv)
  have none: "maps_at c s = []" using own(2) q by (simp add: own_page_def Let_def)
  have p: "mp_flag ?p" "\<not> clickable ?p" "canvases (mp_children ?p) = []" "\<forall>l \<in> set (si_maps s). lm_loaded l \<or> lm_at l = c"
    using own(2) q none by (auto simp: own_page_def Let_def)
  have k: "fst (own_call ?p) = ee_kind (mp_env ?p)" by (simp add: own_call_def)
  have cur: "si_current (answer i r s) = Some c"
    using wiringD [OF answer_wiring [of i r s]] c by simp
  have "own_page c (answer i r s) \<and> (\<forall>l \<in> set (si_maps (answer i r s)). lm_at l < length (si_pages (answer i r s)))"
  proof (cases "r = Payload")
    case True
    have "answer i r s = on_page c (\<lambda>p. p\<lparr>mp_children := mp_children p @ [Canvas (si_next s)]\<rparr>)
            ((on_page c (\<lambda>p. p\<lparr>mp_loader := False\<rparr>) s)
               \<lparr>si_requests := [], si_maps := si_maps s @ [\<lparr>lm_id = si_next s, lm_request = ?q, lm_at = c, lm_loaded = False\<rparr>],
                si_next := Suc (si_next s)\<rparr>)"
      using q c by (simp add: True answer_def answer_ok_def hide_loader_def) (simp add: on_page_def)
    then show ?thesis
      using own q none p assms
      by (auto simp: own_page_def Let_def on_page_nth maps_at_def clickable_def own_call_def calm_def)
  next
    case False
    define t where "t = on_page c error_page (s\<lparr>si_requests := []\<rparr>)"
    have a: "answer i r s = t"
      using False q c own(1) k answer_failed_own [of "s\<lparr>si_requests := []\<rparr>" c ?q]
      by (cases r) (simp_all add: answer_def t_def)
    have t: "si_requests t = []" "si_maps t = si_maps s" "si_ready t = si_ready s" "length (si_pages t) = length (si_pages s)"
      "si_pages t ! c = error_page ?p" "w \<noteq> c \<Longrightarrow> si_pages t ! w = si_pages s ! w" for w
      using own(1) by (simp_all add: t_def on_page_nth)
    have mt: "maps_at c t = []" using none by (simp add: maps_at_def t(2))
    have e: "own_call (error_page ?p) = own_call ?p" "mp_flag (error_page ?p) = mp_flag ?p"
      "mp_onclick (error_page ?p) = mp_onclick ?p" "canvases (mp_children (error_page ?p)) = []"
      by (simp_all add: error_page_def own_call_def canvases_simps)
    have "own_page c t"
      using own(2) p unfolding own_page_def Let_def t(1-5) mt e
      by (auto simp: t(6))
    then show ?thesis using assms unfolding a by (auto simp: t calm_def)
  qed
  then show ?thesis using cur answer_event_ok [OF calm_siteD [OF assms]] by (intro calmI) auto
qed

lemma map_loaded_calm:
  assumes "calm s"
  shows "calm (map_loaded m b s)"
proof (cases "List.find (\<lambda>l. lm_id l = m \<and> \<not> lm_loaded l) (si_maps s)")
  case None
  then show ?thesis using assms by (simp add: map_loaded_def)
next
  case (Some l)
  then have l: "l \<in> set (si_maps s)" "lm_id l = m" "\<not> lm_loaded l" by (auto simp: find_Some_iff)
  obtain c where c: "si_current s = Some c"
    using assms l by (cases "si_current s") (auto simp: calm_def busy_def)
  note own = calm_current [OF assms c]
  let ?p = "si_pages s ! c" and ?f = "\<lambda>l. if lm_id l = m then l\<lparr>lm_loaded := True\<rparr> else l"
  have at: "lm_at l = c" using own(2) l by (auto simp: own_page_def Let_def)
  then have "l \<in> set (maps_at c s)" using l by (simp add: maps_at_def)
  then have "length (maps_at c s) = 1" "si_requests s = []"
    using own(2) by (cases "maps_at c s"; simp add: own_page_def Let_def)+
  with \<open>l \<in> set (maps_at c s)\<close> have one: "maps_at c s = [l]" "si_requests s = []"
    by (auto simp: length_Suc_conv)
  have p: "lm_request l = \<lparr>rq_call = own_call ?p, rq_container = c\<rparr>" "mp_flag ?p" "\<not> clickable ?p"
    using own(2) one l by (auto simp: own_page_def Let_def)
  have k: "fst (own_call ?p) = ee_kind (mp_env ?p)" by (simp add: own_call_def)
  define t where "t = map_loaded m b s"
  let ?g = "\<lambda>p. if b then p\<lparr>
      mp_panels := (if has_panel (ee_kind (mp_env p)) then mp_panels p @ [m] else mp_panels p),
      mp_cleanup := (if refreshes (ee_kind (mp_env p)) then Some m else mp_cleanup p),
      mp_disabled := mp_disabled p \<and> \<not> refreshes (ee_kind (mp_env p)),
      mp_onclick := (if refreshes (ee_kind (mp_env p)) then Some (own_call p) else mp_onclick p)\<rparr> else p"
  have t: "si_requests t = []" "si_maps t = map ?f (si_maps s)" "si_ready t = si_ready s" "si_current t = Some c"
    "length (si_pages t) = length (si_pages s)" "si_pages t ! c = ?g ?p" "w \<noteq> c \<Longrightarrow> si_pages t ! w = si_pages s ! w" for w
    using c own(1) one p(1) k
    by (simp_all add: t_def map_loaded_def Some Let_def on_button_def on_page_nth own_call_def)
  have mt: "maps_at c t = [l\<lparr>lm_loaded := True\<rparr>]"
  proof -
    have "maps_at c t = map ?f (maps_at c s)" by (auto simp: maps_at_def t(2) filter_map comp_def intro!: arg_cong [of _ _ "map ?f"] filter_cong)
    then show ?thesis using l by (simp add: one)
  qed
  have g: "own_call (?g ?p) = own_call ?p" "mp_flag (?g ?p) = mp_flag ?p" "mp_children (?g ?p) = mp_children ?p"
    by (simp_all add: own_call_def)
  have "own_page c t"
    using own(2) p one l k unfolding own_page_def Let_def t(1,3,6) mt g
    by (auto simp: t(2,7) clickable_def)
  moreover have "\<forall>l \<in> set (si_maps t). lm_at l < length (si_pages t)"
    using assms by (auto simp: t calm_def)
  ultimately show ?thesis
    using t(4) map_loaded_ok [OF calm_siteD [OF assms], of m b] unfolding t_def [symmetric] by (intro calmI)
qed


lemma clickable_idle:
  assumes "own_page c s" and "clickable (si_pages s ! c)"
  shows "si_requests s = []" and "\<forall>l \<in> set (si_maps s). lm_loaded l" and "mp_flag (si_pages s ! c)"
    and "\<forall>l \<in> set (maps_at c s). mp_cleanup (si_pages s ! c) = Some (lm_id l)"
    and "length (maps_at c s) \<le> 1" and "refreshes (fst (own_call (si_pages s ! c)))"
    and "mp_onclick (si_pages s ! c) = Some (own_call (si_pages s ! c))"
proof -
  obtain x where x: "mp_onclick (si_pages s ! c) = Some x" using assms(2) by (auto simp: clickable_def)
  moreover have "x = own_call (si_pages s ! c)" "refreshes (fst x)"
    using assms(1) x unfolding own_page_def Let_def by blast+
  ultimately show "refreshes (fst (own_call (si_pages s ! c)))"
    and "mp_onclick (si_pages s ! c) = Some (own_call (si_pages s ! c))" by simp_all
qed (use assms in \<open>auto simp: own_page_def Let_def clickable_def maps_at_def\<close>)

lemma click_refresh_calm:
  assumes "calm s"
  shows "calm (click_refresh s)"
proof (cases "\<exists>c. si_current s = Some c \<and> clickable (si_pages s ! c)")
  case False
  then show ?thesis
    using assms by (auto simp: click_refresh_def clickable_def split: option.split)
next
  case True
  then obtain c where c: "si_current s = Some c" "clickable (si_pages s ! c)" by blast
  note own = calm_current [OF assms c(1)]
  note idle = clickable_idle [OF own(2) c(2)]
  let ?t = "on_page c (\<lambda>p. p\<lparr>mp_disabled := True\<rparr>) s"
  have o: "own_call (si_pages ?t ! c) = own_call (si_pages s ! c)" "\<not> clickable (si_pages ?t ! c)"
    using own(1) by (simp_all add: on_page_nth own_call_def clickable_def)
  have "own_page c ?t"
    using own o(2) unfolding own_page_def Let_def o(1) by (simp add: on_page_nth)
  moreover have "idle_page c ?t"
    using own(1) idle(1-6) o(2) unfolding idle_page_def Let_def o(1) by (simp add: on_page_nth)
  ultimately have n: "own_page c (init_site (own_call (si_pages s ! c)) ?t)"
    using c own(1) site_cbs [OF calm_siteD [OF assms]] by (intro init_own) (auto simp: o(1))
  have e: "click_refresh s = init_site (own_call (si_pages s ! c)) ?t"
    using c idle(7) by (simp add: click_refresh_def clickable_def)
  have m: "set (si_maps (click_refresh s)) \<subseteq> set (si_maps s)"
    using init_site_maps [of "own_call (si_pages s ! c)" ?t] by (simp add: e)
  have len: "length (si_pages (click_refresh s)) = length (si_pages s)"
    using tagsD(1) [OF init_site_fields(5)] by (simp add: e)
  have cur: "si_current (click_refresh s) = Some c"
    using wiringD [OF init_site_fields(2)] c(1) by (simp add: e)
  show ?thesis
    using assms m n len cur click_refresh_ok [OF calm_siteD [OF assms]]
    by (intro calmI) (auto simp: calm_def e)
qed

lemma on_site_calm:
  assumes "calm s" and "\<forall>p. e = SwapIn p \<longrightarrow> \<not> busy s"
  shows "calm (on_site e s)"
proof (cases e)
  case (Browser b)
  then show ?thesis using assms(1) by (cases b) (simp_all add: browser_calm binds_calm)
qed (use assms in \<open>simp_all add: run_script_calm swap_calm htmx_event_def binds_calm answer_calm map_loaded_calm
  click_refresh_calm\<close>)

lemma new_site_calm: "calm (new_site env)"
  using new_site_ok [of env]
  by (simp add: calm_def new_site_def own_page_def Let_def maps_at_def new_map_page_def clickable_def
      page_cbs_def new_page_def)

lemma calm_site_keeps: "calm s \<Longrightarrow> calm (calm_site e s)"
  using on_site_calm [of s e] by (cases e) auto

interpretation waits: kept calm_site calm
  by unfold_locales (rule calm_site_keeps)

text \<open>
  C4: When navigation waits - a page is swapped out only after every request was answered, every map
  loaded and every waiting bootstrap was run - the pages stay apart, however they are visited,
  reloaded and refreshed: each request under way is for the data of the page in the document, that
  page has at most one map or request, the canvases in its element are those of the maps made in it,
  these maps show its own data, and its refresh button repeats its own call.  (Without waiting this
  fails: a late answer is drawn into the next page.)
\<close>

theorem calm_pages_keep_apart:
  assumes "s = fold calm_site es (new_site env)" and "si_current s = Some c" and "p = si_pages s ! c"
    and "ms = filter (\<lambda>l. lm_at l = c) (si_maps s)"
  shows "(\<forall>q \<in> set (si_requests s). q = \<lparr>rq_call = own_call p, rq_container = c\<rparr>)
     \<and> (\<forall>l \<in> set ms. lm_request l = \<lparr>rq_call = own_call p, rq_container = c\<rparr>)
     \<and> (\<forall>l \<in> set (si_maps s). lm_loaded l \<or> lm_at l = c)
     \<and> length (si_requests s) + length ms \<le> 1 \<and> canvases (mp_children p) = map lm_id ms
     \<and> (\<forall>call. mp_onclick p = Some call \<longrightarrow> call = own_call p \<and> refreshes (fst call))"
proof -
  have "calm s" unfolding assms(1) by (rule waits.run_inv [OF new_site_calm])
  from calm_current(2) [OF this assms(2)] show ?thesis
    by (auto simp: own_page_def Let_def maps_at_def assms(3,4))
qed

text \<open>The route page, its map loaded, refreshed and loaded again; then the stop page.\<close>

definition calm_trace :: "site_event list" where
  "calm_trace = [RunScript RoutePage, Browser GlScript, Browser PopupScript, Browser Parsed, Answer 0 Payload,
     SwapIn (Some (sample_page StopPage ''7'')), Loads 0 True, ClickRefresh, Answer 0 Payload, Loads 1 True,
     SwapIn (Some (sample_page StopPage ''7'')), AfterSwap, RunScript StopPage, Answer 0 Payload, Loads 2 True]"

lemma calm_trace_state:
  "let s = fold calm_site calm_trace (new_site (sample_page RoutePage ''1'')) in
     si_current s = Some 1 \<and> map lm_id (si_maps s) = [1, 2] \<and> map lm_at (si_maps s) = [0, 1]
     \<and> own_call (si_pages s ! 1) = (StopPage, Some (lit ''7''), Some (lit ''0''))"
  by code_simp

lemma calm_pages_keep_apart_witness:
  "let s = fold calm_site calm_trace (new_site (sample_page RoutePage ''1'')) in
     canvases (mp_children (si_pages s ! 1)) = map lm_id (filter (\<lambda>l. lm_at l = 1) (si_maps s))
     \<and> si_current s = Some 1"
  using calm_pages_keep_apart [OF refl _ refl refl, of calm_trace "sample_page RoutePage ''1''" 1] calm_trace_state
  by (simp only: Let_def)

end
