(* ===== verification/Table_Filter.thy ===== *)
theory Table_Filter
  imports Table_Sort Event_Machine "HOL-Library.Sublist"
begin

text \<open>
  \<open>templates/widgets/filter_table.html\<close>: the search boxes of the stop page, which hide the rows of a
  table whose first cell does not contain the typed text.  The first pair of box and table comes with
  an HTMX fragment; of the second only the table does (\<open>templates/realtime/stop.html\<close>), and its headers
  sort it (\<open>tablesort.js\<close>).  \<open>lower\<close> is \<open>toLowerCase\<close>, whose tables are those of Unicode.
\<close>

section \<open>Rows\<close>

text \<open>\<open>fr_shown\<close>: \<open>row.style.display\<close> is empty.  The first cell is the row's first \<open>.dense-text\<close>.\<close>

record filter_row =
  fr_cells :: row
  fr_shown :: bool

record filter_table =
  ft_headers :: "header list"
  ft_rows :: "filter_row list"

text \<open>\<open>s.includes(t)\<close>.\<close>

fun js_includes :: "jstring \<Rightarrow> jstring \<Rightarrow> bool" where
  "js_includes [] t = (t = [])"
| "js_includes (u # s) t = (take (length t) (u # s) = t \<or> js_includes s t)"

text \<open>The loop over the rows; one without a cell is a null dereference.\<close>

fun filter_rows :: "(jstring \<Rightarrow> jstring) \<Rightarrow> jstring \<Rightarrow> filter_row list \<Rightarrow> filter_row list outcome" where
  "filter_rows lower filterValue [] = Done []"
| "filter_rows lower filterValue (r # rs) =
     (case fr_cells r of
        [] \<Rightarrow> Thrown (TypeError ''null'') (r # rs)
      | routeName # cs \<Rightarrow>
          let r = r\<lparr>fr_shown := js_includes (lower routeName) filterValue\<rparr>
          in case filter_rows lower filterValue rs of
               Done rs' \<Rightarrow> Done (r # rs')
             | Thrown e rs' \<Rightarrow> Thrown e (r # rs'))"

section \<open>The page\<close>

text \<open>\<open>sb_listeners\<close> counts the input listeners of the element.\<close>

record search_box =
  sb_value :: jstring
  sb_has_filter :: bool
  sb_listeners :: nat

definition fresh_box :: search_box where
  "fresh_box = \<lparr>sb_value = [], sb_has_filter = False, sb_listeners = 0\<rparr>"

text \<open>
  \<open>fd_box k\<close> and \<open>fd_table k\<close> are the elements with the ids \<open>search-box-k\<close> and \<open>table-k\<close>; \<open>fd_ready\<close> and
  \<open>fd_swaps\<close> count the listeners of the document for \<open>DOMContentLoaded\<close> and \<open>htmx:afterSwap\<close>.
\<close>

record filter_page =
  fd_box :: "nat \<Rightarrow> search_box option"
  fd_table :: "nat \<Rightarrow> filter_table option"
  fd_ready :: nat
  fd_swaps :: nat

definition filterTable :: "(jstring \<Rightarrow> jstring) \<Rightarrow> nat \<Rightarrow> filter_page \<Rightarrow> filter_page outcome" where
  "filterTable lower k p =
     (case fd_box p k of
        None \<Rightarrow> Thrown (TypeError ''null'') p
      | Some b \<Rightarrow>
          let filterValue = lower (sb_value b)
          in case fd_table p k of
               None \<Rightarrow> Done p
             | Some t \<Rightarrow>
                 (case filter_rows lower filterValue (ft_rows t) of
                    Done rs \<Rightarrow> Done (p\<lparr>fd_table := (fd_table p)(k \<mapsto> t\<lparr>ft_rows := rs\<rparr>)\<rparr>)
                  | Thrown e rs \<Rightarrow> Thrown e (p\<lparr>fd_table := (fd_table p)(k \<mapsto> t\<lparr>ft_rows := rs\<rparr>)\<rparr>)))"

definition attachFilter :: "nat \<Rightarrow> filter_page \<Rightarrow> filter_page" where
  "attachFilter k p =
     (case fd_box p k of
        None \<Rightarrow> p
      | Some b \<Rightarrow>
          if sb_has_filter b then p
          else p\<lparr>fd_box := (fd_box p)(k \<mapsto> b\<lparr>sb_listeners := Suc (sb_listeners b), sb_has_filter := True\<rparr>)\<rparr>)"

definition initializeFilters :: "filter_page \<Rightarrow> filter_page" where
  "initializeFilters p = attachFilter 2 (attachFilter 1 p)"

text \<open>The last lines of the script, which run again with every page that includes it.\<close>

definition filter_script :: "filter_page \<Rightarrow> filter_page" where
  "filter_script p = p\<lparr>fd_ready := Suc (fd_ready p), fd_swaps := Suc (fd_swaps p)\<rparr>"

text \<open>Typing: the element's listeners run one after the other; an exception ends only its listener.\<close>

definition type_text :: "(jstring \<Rightarrow> jstring) \<Rightarrow> nat \<Rightarrow> jstring \<Rightarrow> filter_page \<Rightarrow> filter_page" where
  "type_text lower k v p =
     (case fd_box p k of
        None \<Rightarrow> p
      | Some b \<Rightarrow>
          ((\<lambda>p. state_of (filterTable lower k p)) ^^ sb_listeners b)
            (p\<lparr>fd_box := (fd_box p)(k \<mapsto> b\<lparr>sb_value := v\<rparr>)\<rparr>))"

text \<open>
  A header click: the comparator of \<open>tablesort.js\<close> on the texts of the cells; the elements move, and
  each takes its \<open>display\<close> with it.
\<close>

definition plain_table :: "filter_table \<Rightarrow> table" where
  "plain_table t = \<lparr>headers = ft_headers t, rows = map fr_cells (ft_rows t)\<rparr>"

definition sort_shown :: "(real \<Rightarrow> real) \<Rightarrow> nat \<Rightarrow> filter_table \<Rightarrow> filter_table" where
  "sort_shown rnd column t =
     (let asc = \<not> h_asc (ft_headers t ! column)
      in case sortTableByColumn js_sort rnd column asc (plain_table t) of
           Thrown e s \<Rightarrow> t
         | Done s \<Rightarrow>
             let type = column_type (ft_headers t ! column)
             in t\<lparr>ft_headers := headers s,
                  ft_rows := js_sort (\<lambda>a b. compare_texts rnd type asc (cell_text column (fr_cells a)) (cell_text column (fr_cells b))) (ft_rows t)\<rparr>)"

text \<open>Elements of a fragment: all rows shown, the box empty.\<close>

definition served_table :: "header list \<Rightarrow> row list \<Rightarrow> filter_table" where
  "served_table hs rs = \<lparr>ft_headers = hs, ft_rows = map (\<lambda>r. \<lparr>fr_cells = r, fr_shown = True\<rparr>) rs\<rparr>"

definition after_swap :: "filter_page \<Rightarrow> filter_page" where
  "after_swap p = (initializeFilters ^^ fd_swaps p) p"

text \<open>
  \<open>Fragment k with_box hs rs\<close>: HTMX replaces the table \<open>k\<close>, and its box too if that is part of the
  fragment.  \<open>BodySwap\<close>: another page, with the boxes and tables given.
\<close>

datatype filter_event =
    FilterScript
  | ContentLoaded
  | Typed nat jstring
  | HeaderClick nat nat
  | Fragment nat bool "header list" "row list"
  | BodySwap "nat \<Rightarrow> bool" "nat \<Rightarrow> (header list \<times> row list) option"

fun on_filter_event :: "(jstring \<Rightarrow> jstring) \<Rightarrow> (real \<Rightarrow> real) \<Rightarrow> filter_event \<Rightarrow> filter_page \<Rightarrow> filter_page" where
  "on_filter_event lower rnd FilterScript p = filter_script p"
| "on_filter_event lower rnd ContentLoaded p = (initializeFilters ^^ fd_ready p) p"
| "on_filter_event lower rnd (Typed k v) p = type_text lower k v p"
| "on_filter_event lower rnd (HeaderClick k column) p =
     p\<lparr>fd_table := (fd_table p)(k := map_option (sort_shown rnd column) (fd_table p k))\<rparr>"
| "on_filter_event lower rnd (Fragment k with_box hs rs) p =
     after_swap (p\<lparr>fd_table := (fd_table p)(k \<mapsto> served_table hs rs),
       fd_box := (if with_box then (fd_box p)(k \<mapsto> fresh_box) else fd_box p)\<rparr>)"
| "on_filter_event lower rnd (BodySwap boxes tables) p =
     after_swap (p\<lparr>fd_table := (\<lambda>k. if k \<in> {1, 2} then map_option (\<lambda>(hs, rs). served_table hs rs) (tables k) else None),
       fd_box := (\<lambda>k. if k \<in> {1, 2} \<and> boxes k then Some fresh_box else None)\<rparr>)"

definition blank_page :: filter_page where
  "blank_page = \<lparr>fd_box = (\<lambda>k. None), fd_table = (\<lambda>k. None), fd_ready = 0, fd_swaps = 0\<rparr>"

section \<open>Lemmas\<close>

lemma includes_sublist: "js_includes s t \<longleftrightarrow> sublist t s"
proof (induction s)
  case (Cons u s)
  have "take (length t) (u # s) = t \<longleftrightarrow> prefix t (u # s)" by (metis append_eq_conv_conj append_take_drop_id prefix_def)
  with Cons show ?case by (simp add: sublist_Cons_right)
qed simp

lemma includes_Nil [simp]: "js_includes s []"
  by (cases s) simp_all

text \<open>The rows that the text matches.\<close>

definition matches :: "(jstring \<Rightarrow> jstring) \<Rightarrow> jstring \<Rightarrow> filter_row \<Rightarrow> bool" where
  "matches lower v r \<longleftrightarrow> sublist (lower v) (lower (hd (fr_cells r)))"

definition named_rows :: "filter_row list \<Rightarrow> bool" where
  "named_rows rs \<longleftrightarrow> (\<forall>r \<in> set rs. fr_cells r \<noteq> [])"

lemma filter_rows_Done:
  "named_rows rs \<Longrightarrow> filter_rows lower (lower v) rs = Done (map (\<lambda>r. r\<lparr>fr_shown := matches lower v r\<rparr>) rs)"
proof (induction rs)
  case (Cons r rs)
  then show ?case by (cases "fr_cells r") (simp_all add: named_rows_def matches_def includes_sublist)
qed simp

text \<open>The first row without a cell ends the loop: the rows above it are filtered, the others are not.\<close>

lemma filter_rows_Thrown:
  assumes "named_rows xs" and "fr_cells r = []"
  shows "filter_rows lower (lower v) (xs @ r # ys)
    = Thrown (TypeError ''null'') (map (\<lambda>r. r\<lparr>fr_shown := matches lower v r\<rparr>) xs @ r # ys)"
  using assms(1)
proof (induction xs)
  case (Cons x xs)
  then show ?case by (cases "fr_cells x") (simp_all add: named_rows_def matches_def includes_sublist)
qed (simp add: assms(2))

text \<open>Sorting rows by a part of them sorts that part.\<close>

lemma map_ins: "map f (ins (\<lambda>a b. c (f a) (f b)) x ys) = ins c (f x) (map f ys)"
  by (induction ys) simp_all

lemma map_js_sort: "map f (js_sort (\<lambda>a b. c (f a) (f b)) xs) = js_sort c (map f xs)"
proof -
  have "map f (fold (ins (\<lambda>a b. c (f a) (f b))) xs ys) = fold (ins c) (map f xs) (map f ys)" for ys
    by (induction xs arbitrary: ys) (simp_all add: map_ins)
  then show ?thesis by (simp add: js_sort_def)
qed



text \<open>
  The sort of a filtered table refines the sort of \<open>tablesort.js\<close>: its cells are those of the plain
  table after the click.
\<close>

lemma sort_shown_plain:
  "plain_table (sort_shown rnd column t) = state_of (on_header_click js_sort rnd column (plain_table t))"
  by (simp add: sort_shown_def plain_table_def on_header_click_def sortTableByColumn_def Let_def
      map_js_sort [where f = fr_cells and c = "\<lambda>a b. compare_texts rnd _ _ (cell_text column a) (cell_text column b)"])

section \<open>The invariant\<close>

definition attached_once :: "filter_page \<Rightarrow> bool" where
  "attached_once p \<longleftrightarrow> (\<forall>k b. fd_box p k = Some b \<longrightarrow> sb_listeners b = (if sb_has_filter b then 1 else 0))"

text \<open>The rows shown are those that match the box's text.\<close>

definition rows_match :: "(jstring \<Rightarrow> jstring) \<Rightarrow> search_box \<Rightarrow> filter_table \<Rightarrow> bool" where
  "rows_match lower b t \<longleftrightarrow> named_rows (ft_rows t) \<and> (\<forall>r \<in> set (ft_rows t). fr_shown r \<longleftrightarrow> matches lower (sb_value b) r)"

definition shows_matches :: "(jstring \<Rightarrow> jstring) \<Rightarrow> filter_page \<Rightarrow> bool" where
  "shows_matches lower p \<longleftrightarrow> (\<forall>k b t. fd_box p k = Some b \<longrightarrow> fd_table p k = Some t \<longrightarrow> rows_match lower b t)"

lemma rows_match_box [simp]:
  "rows_match lower (b\<lparr>sb_listeners := n\<rparr>) t = rows_match lower b t"
  "rows_match lower (b\<lparr>sb_has_filter := h\<rparr>) t = rows_match lower b t"
  by (simp_all add: rows_match_def)

lemma attach_ok:
  "attached_once p \<Longrightarrow> attached_once (attachFilter k p)"
  "shows_matches lower p \<Longrightarrow> shows_matches lower (attachFilter k p)"
  by (auto simp: attachFilter_def attached_once_def shows_matches_def split: option.split)

lemma initialize_ok:
  "attached_once p \<Longrightarrow> attached_once ((initializeFilters ^^ n) p)"
  "shows_matches lower p \<Longrightarrow> shows_matches lower ((initializeFilters ^^ n) p)"
  by (induction n) (simp_all add: initializeFilters_def attach_ok)

lemma attach_frame [simp]:
  "fd_table (attachFilter k p) = fd_table p" "fd_ready (attachFilter k p) = fd_ready p" "fd_swaps (attachFilter k p) = fd_swaps p"
  "map_option sb_value (fd_box (attachFilter k p) j) = map_option sb_value (fd_box p j)"
  by (auto simp: attachFilter_def split: option.split)

lemma initialize_frame [simp]:
  "fd_table ((initializeFilters ^^ n) p) = fd_table p" "fd_swaps ((initializeFilters ^^ n) p) = fd_swaps p"
  "map_option sb_value (fd_box ((initializeFilters ^^ n) p) j) = map_option sb_value (fd_box p j)"
  by (induction n) (simp_all add: initializeFilters_def)

lemma attached_stays: "fd_box p j = Some b \<Longrightarrow> sb_has_filter b \<Longrightarrow> fd_box ((initializeFilters ^^ n) p) j = Some b"
proof (induction n)
  case (Suc n)
  have "fd_box (attachFilter k q) j = Some b" if "fd_box q j = Some b" for q k
    using that Suc.prems by (auto simp: attachFilter_def split: option.split)
  with Suc show ?case by (simp add: initializeFilters_def)
qed simp

definition refiltered :: "(jstring \<Rightarrow> jstring) \<Rightarrow> jstring \<Rightarrow> filter_table \<Rightarrow> filter_table" where
  "refiltered lower v t = t\<lparr>ft_rows := map (\<lambda>r. r\<lparr>fr_shown := matches lower v r\<rparr>) (ft_rows t)\<rparr>"

lemma filterTable_ok:
  assumes "fd_box p k = Some b" and "\<And>t. fd_table p k = Some t \<Longrightarrow> named_rows (ft_rows t)"
  shows "filterTable lower k p = Done (p\<lparr>fd_table := (fd_table p)(k := map_option
    (refiltered lower (sb_value b)) (fd_table p k))\<rparr>)"
proof (cases "fd_table p k")
  case None
  then have "(fd_table p)(k := None) = fd_table p" by (simp add: fun_upd_idem)
  with None assms(1) show ?thesis by (simp add: filterTable_def)
qed (use assms in \<open>simp add: filterTable_def filter_rows_Done refiltered_def\<close>)

lemma matches_shown [simp]: "matches lower v (r\<lparr>fr_shown := x\<rparr>) = matches lower v r"
  by (simp add: matches_def)


lemma filterTable_boxes: "fd_box (state_of (filterTable lower k p)) = fd_box p"
  by (simp add: filterTable_def Let_def split: option.split outcome.split)

lemma type_text_boxes:
  "fd_box (type_text lower k v p) = (fd_box p)(k := map_option (sb_value_update (\<lambda>x. v)) (fd_box p k))"
proof -
  have "fd_box (((\<lambda>p. state_of (filterTable lower k p)) ^^ n) q) = fd_box q" for n q
    by (induction n) (simp_all add: filterTable_boxes)
  then show ?thesis by (cases "fd_box p k") (simp_all add: type_text_def fun_upd_idem)
qed

section \<open>Calm use\<close>

text \<open>
  Nobody types before the listener is attached, every served row has a cell, and a fragment without
  its box comes only while that box is empty.
\<close>

definition served_ok :: "row list \<Rightarrow> bool" where
  "served_ok rs \<longleftrightarrow> [] \<notin> set rs"




lemma attached_put:
  assumes "attached_once p"
  shows "attached_once (p\<lparr>fd_table := t, fd_box := (if w then (fd_box p)(k \<mapsto> fresh_box) else fd_box p)\<rparr>)"
    and "attached_once (p\<lparr>fd_table := t, fd_box := (\<lambda>k. if P k then Some fresh_box else None)\<rparr>)"
    and "attached_once (filter_script p)" and "attached_once (p\<lparr>fd_table := t\<rparr>)" and "attached_once (type_text lower k v p)"
  using assms by (auto simp: attached_once_def fresh_box_def filter_script_def type_text_boxes)

lemma attached_step: "attached_once p \<Longrightarrow> attached_once (on_filter_event lower rnd e p)"
  by (cases e) (simp_all add: after_swap_def attached_put initialize_ok(1))


definition filter_inv :: "(jstring \<Rightarrow> jstring) \<Rightarrow> filter_page \<Rightarrow> bool" where
  "filter_inv lower p \<longleftrightarrow> attached_once p \<and> (lower [] = [] \<longrightarrow> shows_matches lower p)"



interpretation filter_listeners: kept "on_filter_event lower rnd" attached_once
  by unfold_locales (rule attached_step)

lemma blank_ok: "filter_inv lower blank_page"
  by (simp add: filter_inv_def attached_once_def shows_matches_def blank_page_def)

section \<open>Properties\<close>


text \<open>Small letters of the basic Latin alphabet, and a stop page with two routes on the schedule.\<close>

definition ascii_lower :: "jstring \<Rightarrow> jstring" where
  "ascii_lower s = map (\<lambda>u. if 65 \<le> u \<and> u \<le> 90 then u + 32 else u) s"

definition sample_rows :: "row list" where
  "sample_rows = [[lit ''A1''], [lit ''7'']]"

definition sample_heads :: "header list" where
  "sample_heads = replicate 1 \<lparr>h_type = [], h_asc = False, h_desc = False\<rparr>"

definition sample_events :: "filter_event list" where
  "sample_events = [FilterScript, BodySwap (\<lambda>k. k = 2) (\<lambda>k. if k = 2 then Some (sample_heads, sample_rows) else None),
     Typed 2 (lit ''a''), HeaderClick 2 0]"


text \<open>
  C36: Choosing another day forgets the filter but not its text.  The fragment has the schedule's table
  and not its search box: from every state, the rows of the new day are all shown, whatever the box
  says, and only the next keystroke hides those that do not match.
\<close>

theorem new_day_shows_all:
  assumes "p = fold (on_filter_event lower rnd) es blank_page" and "fd_box p 2 = Some b" and "sb_has_filter b"
    and "served_ok rs" and "q = on_filter_event lower rnd (Fragment 2 False hs rs) p"
  shows "map_option sb_value (fd_box q 2) = Some (sb_value b) \<and> fd_table q 2 = Some (served_table hs rs)
    \<and> (\<exists>t. fd_table (on_filter_event lower rnd (Typed 2 (sb_value b)) q) 2 = Some t
         \<and> map fr_cells (ft_rows t) = rs
         \<and> map fr_shown (ft_rows t) = map (\<lambda>r. sublist (lower (sb_value b)) (lower (hd r))) rs)"
proof -
  have "attached_once q" unfolding assms(1,5)
    by (rule attached_step, rule filter_listeners.run_inv) (use blank_ok in \<open>simp add: filter_inv_def\<close>)
  have v: "map_option sb_value (fd_box q 2) = Some (sb_value b)" and t: "fd_table q 2 = Some (served_table hs rs)"
    using assms(2) by (simp_all add: assms(5) after_swap_def)
  have c: "fd_box q 2 = Some b" using assms(2,3) attached_stays by (simp add: assms(5) after_swap_def)
  with \<open>attached_once q\<close> assms(3) have n: "sb_listeners b = Suc 0" by (simp add: attached_once_def)
  have named: "named_rows (ft_rows (served_table hs rs))" using assms(4) by (auto simp: served_table_def named_rows_def served_ok_def)
  have "fd_table (type_text lower 2 (sb_value b) q) 2 = Some (refiltered lower (sb_value b) (served_table hs rs))"
  proof -
    have "filterTable lower 2 q = Done (q\<lparr>fd_table := (fd_table q)(2 := map_option (refiltered lower (sb_value b)) (fd_table q 2))\<rparr>)"
      using c named t by (intro filterTable_ok) auto
    moreover have "(fd_box q)(2 \<mapsto> b) = fd_box q" using c by (simp add: fun_upd_idem)
    ultimately show ?thesis using n c by (simp add: type_text_def t)
  qed
  then show ?thesis using v t by (simp add: refiltered_def served_table_def comp_def matches_def)
qed

lemma new_day_shows_all_witness:
  "let p = fold (on_filter_event ascii_lower id) sample_events blank_page;
       q = on_filter_event ascii_lower id (Fragment 2 False sample_heads sample_rows) p
   in map_option sb_value (fd_box q 2) = Some (lit ''a'') \<and> fd_table q 2 = Some (served_table sample_heads sample_rows)"
proof -
  let ?p = "fold (on_filter_event ascii_lower id) sample_events blank_page"
  have "map_option (\<lambda>b. (sb_value b, sb_has_filter b)) (fd_box ?p 2) = Some (lit ''a'', True)" by code_simp
  then obtain b where b: "fd_box ?p 2 = Some b" "sb_value b = lit ''a''" "sb_has_filter b" by auto
  have ok: "served_ok sample_rows" by (simp add: served_ok_def sample_rows_def)
  from new_day_shows_all [OF refl b(1,3) ok refl] b(2) show ?thesis by (simp only: Let_def simp_thms)
qed

end
