(* ===== verification/Table_Copy.thy ===== *)
theory Table_Copy
  imports Js_Prelude Event_Machine
begin

text \<open>
  \<open>templates/widgets/copy_to_clipboard.html\<close>: the text that the copy buttons of the realtime tables
  put on the clipboard, and the popup that says so.  A table is the texts (\<open>innerText\<close>) of its
  header cells and of the cells of its body rows.
\<close>

section \<open>The text\<close>

text \<open>The header and at most the first fifteen body rows, trimmed.\<close>

definition copied_rows :: "jstring list \<Rightarrow> jstring list list \<Rightarrow> jstring list list" where
  "copied_rows header body = map js_trim header # map (map js_trim) (take 15 body)"

text \<open>\<open>Math.max\<close> of the lengths in a column; a row without that cell is a \<open>TypeError\<close>.\<close>

definition col_width :: "jstring list list \<Rightarrow> nat \<Rightarrow> nat option" where
  "col_width rows j =
     (if list_all (\<lambda>row. j < length row) rows
      then Some (fold (\<lambda>row w. max (length (row ! j)) w) rows 0) else None)"

fun all_some :: "'a option list \<Rightarrow> 'a list option" where
  "all_some [] = Some []"
| "all_some (x # xs) = (case x of None \<Rightarrow> None | Some y \<Rightarrow> map_option ((#) y) (all_some xs))"

definition colWidths :: "jstring list list \<Rightarrow> nat \<Rightarrow> nat list option" where
  "colWidths rows n = all_some (map (col_width rows) [0..<n])"

definition padEnd :: "jstring \<Rightarrow> nat \<Rightarrow> jstring" where
  "padEnd cell w = cell @ replicate (w - length cell) 32"

text \<open>A cell to the right of the last header has the width \<open>undefined\<close> and is not padded.\<close>

definition format_row :: "nat list \<Rightarrow> jstring list \<Rightarrow> jstring" where
  "format_row widths row =
     js_join (lit '' | '') (map (\<lambda>j. padEnd (row ! j) (if j < length widths then widths ! j else 0)) [0..<length row])"

definition newline :: jstring where
  "newline = [10]"

definition formatted_table :: "bool \<Rightarrow> jstring list \<Rightarrow> jstring list list \<Rightarrow> exn + jstring" where
  "formatted_table copyAsCode header body =
     (let rows = copied_rows header body in
      case colWidths rows (length header) of
        None \<Rightarrow> Inl (TypeError ''undefined'')
      | Some widths \<Rightarrow>
          let formattedRows = map (format_row widths) rows
          in Inr (if copyAsCode
                  then lit ''```'' @ newline @ js_join newline formattedRows @ newline @ lit ''```''
                  else js_join newline formattedRows))"

section \<open>The popup and its timer\<close>

text \<open>\<open>copyPopupHideTimeout\<close> is a timer's number; \<open>cp_timers\<close> are the timers that are pending.\<close>

record copy_popup =
  cp_clipboard :: "jstring option"
  cp_shown :: bool
  cp_timeout :: "nat option"
  cp_timers :: "nat list"
  cp_next :: nat

definition new_copy_popup :: copy_popup where
  "new_copy_popup = \<lparr>cp_clipboard = None, cp_shown = False, cp_timeout = None, cp_timers = [], cp_next = 0\<rparr>"

definition clear_timeout :: "copy_popup \<Rightarrow> copy_popup" where
  "clear_timeout s = (case cp_timeout s of
      None \<Rightarrow> s
    | Some t \<Rightarrow> s\<lparr>cp_timers := removeAll t (cp_timers s), cp_timeout := None\<rparr>)"

definition hidePopup :: "copy_popup \<Rightarrow> copy_popup" where
  "hidePopup s = (clear_timeout s)\<lparr>cp_shown := False\<rparr>"

text \<open>\<open>None\<close>: the table is not in the document, which is only logged.\<close>

definition copyTableToClipboard ::
  "bool \<Rightarrow> (jstring list \<times> jstring list list) option \<Rightarrow> copy_popup \<Rightarrow> copy_popup outcome" where
  "copyTableToClipboard copyAsCode table s =
     (case table of
        None \<Rightarrow> Done s
      | Some (header, body) \<Rightarrow>
          (case formatted_table copyAsCode header body of
             Inl e \<Rightarrow> Thrown e s
           | Inr text \<Rightarrow>
               let s = s\<lparr>cp_clipboard := Some text\<rparr>;
                   s = clear_timeout s;
                   s = s\<lparr>cp_shown := True\<rparr>;
                   t = cp_next s
               in Done (s\<lparr>cp_timeout := Some t, cp_timers := cp_timers s @ [t], cp_next := Suc t\<rparr>)))"

datatype copy_event = CopyClick bool "(jstring list \<times> jstring list list) option" | PopupClick | TimerFires nat

fun on_copy_event :: "copy_event \<Rightarrow> copy_popup \<Rightarrow> copy_popup" where
  "on_copy_event (CopyClick c t) s = state_of (copyTableToClipboard c t s)"
| "on_copy_event PopupClick s = hidePopup s"
| "on_copy_event (TimerFires t) s =
     (if t \<in> set (cp_timers s) then hidePopup (s\<lparr>cp_timers := removeAll t (cp_timers s)\<rparr>) else s)"

section \<open>Lemmas\<close>

lemma all_some_iff: "all_some xs = Some ys \<longleftrightarrow> xs = map Some ys"
  by (induction xs arbitrary: ys) (auto split: option.split)

lemma all_some_None: "all_some xs = None \<longleftrightarrow> None \<in> set xs"
  by (induction xs) (auto split: option.split)

lemma fold_max_base: "w \<le> fold (\<lambda>x w. max (f x) w) xs (w::nat)"
proof (induction xs arbitrary: w)
  case (Cons x xs)
  from Cons [of "max (f x) w"] show ?case by simp
qed simp

lemma fold_max_mem: "x \<in> set xs \<Longrightarrow> f x \<le> fold (\<lambda>x w. max (f x) w) xs (w::nat)"
proof (induction xs arbitrary: w)
  case (Cons y ys)
  have "f y \<le> fold (\<lambda>x w. max (f x) w) ys (max (f y) w)"
    using fold_max_base [of "max (f y) w" f ys] by simp
  with Cons show ?case by auto
qed simp

lemma colWidths_Some:
  assumes "colWidths rows n = Some ws"
  shows "length ws = n" and "j < n \<Longrightarrow> row \<in> set rows \<Longrightarrow> j < length row \<and> length (row ! j) \<le> ws ! j"
proof -
  from assms have ws: "map (col_width rows) [0..<n] = map Some ws" by (simp add: colWidths_def all_some_iff)
  then show len: "length ws = n" by (metis length_map length_upt minus_nat.diff_0)
  assume j: "j < n" "row \<in> set rows"
  have "col_width rows j = Some (ws ! j)"
    using arg_cong [OF ws, of "\<lambda>xs. xs ! j"] j(1) len by simp
  with j(2) show "j < length row \<and> length (row ! j) \<le> ws ! j"
    using fold_max_mem [of row rows "\<lambda>row. length (row ! j)" 0]
    by (auto simp: col_width_def list_all_iff split: if_splits)
qed

lemma colWidths_None: "colWidths rows n = None \<longleftrightarrow> (\<exists>row \<in> set rows. length row < n)"
proof -
  have "colWidths rows n = None \<longleftrightarrow> (\<exists>j < n. \<exists>row \<in> set rows. length row \<le> j)"
    by (auto simp: colWidths_def all_some_None col_width_def list_all_iff not_less image_iff split: if_splits)
  also have "\<dots> \<longleftrightarrow> (\<exists>row \<in> set rows. length row < n)" by (auto intro: le_less_trans)
  finally show ?thesis .
qed

text \<open>Where the cell \<open>j\<close> starts in every line.\<close>

definition offset :: "nat list \<Rightarrow> nat \<Rightarrow> nat" where
  "offset ws j = sum_list (take j ws) + 3 * j"

lemma js_join_snoc: "xs \<noteq> [] \<Longrightarrow> js_join sep (xs @ [x]) = js_join sep xs @ sep @ x"
proof (induction sep xs rule: js_join.induct)
  case (3 sep x y ys)
  then show ?case by (cases ys) auto
qed simp_all

lemma padEnd_length: "length c \<le> w \<Longrightarrow> length (padEnd c w) = w"
  by (simp add: padEnd_def)

text \<open>The first \<open>n\<close> cells of a line, joined.\<close>

lemma joined_cells:
  assumes "\<forall>j < n. length (cs ! j) \<le> ws ! j" and "n \<le> length ws" and "length sep = 3"
  shows "length (js_join sep (map (\<lambda>j. padEnd (cs ! j) (ws ! j)) [0..<n])) + (if n = 0 then 0 else 3) = offset ws n
    \<and> (\<forall>j < n. take (length (cs ! j)) (drop (offset ws j) (js_join sep (map (\<lambda>j. padEnd (cs ! j) (ws ! j)) [0..<n]))) = cs ! j)"
  using assms(1,2)
proof (induction n)
  case 0
  then show ?case by (simp add: offset_def)
next
  case (Suc n)
  let ?L = "\<lambda>n. js_join sep (map (\<lambda>j. padEnd (cs ! j) (ws ! j)) [0..<n])"
  from Suc have IH: "length (?L n) + (if n = 0 then 0 else 3) = offset ws n"
    "\<forall>j < n. take (length (cs ! j)) (drop (offset ws j) (?L n)) = cs ! j" by auto
  have w: "length (padEnd (cs ! n) (ws ! n)) = ws ! n" using Suc.prems by (intro padEnd_length) simp
  have o: "offset ws (Suc n) = offset ws n + ws ! n + 3"
    using Suc.prems(2) by (simp add: offset_def take_Suc_conv_app_nth)
  show ?case
  proof (cases "n = 0")
    case True
    then show ?thesis using w o IH(1) by (simp add: offset_def padEnd_def)
  next
    case False
    then have L: "?L (Suc n) = ?L n @ sep @ padEnd (cs ! n) (ws ! n)"
      by (simp add: js_join_snoc)
    have "take (length (cs ! j)) (drop (offset ws j) (?L (Suc n))) = cs ! j" if j: "j < Suc n" for j
    proof (cases "j = n")
      case True
      have "offset ws n = length (?L n) + 3" using IH(1) \<open>n \<noteq> 0\<close> by simp
      then have d: "drop (offset ws n) (?L n @ sep @ X) = X" for X :: jstring using assms(3) by simp
      show ?thesis unfolding True L d by (simp add: padEnd_def)
    next
      case False
      with j have "j < n" by simp
      then have t: "take (length (cs ! j)) (drop (offset ws j) (?L n)) = cs ! j" using IH(2) by blast
      have "length (cs ! j) \<le> length (drop (offset ws j) (?L n))"
        using arg_cong [OF t, of length] by simp
      then show ?thesis
        unfolding L using t by (cases "cs ! j = []") (simp_all add: drop_append)
    qed
    moreover have "length (?L (Suc n)) + 3 = offset ws (Suc n)"
      using IH(1) False w o assms(3) unfolding L by simp
    ultimately show ?thesis by simp
  qed
qed


lemma fold_max_attained: "fold (\<lambda>x w. max (f x) w) xs (w::nat) = w \<or> (\<exists>x \<in> set xs. f x = fold (\<lambda>x w. max (f x) w) xs w)"
proof (induction xs arbitrary: w)
  case (Cons y ys)
  from Cons [of "max (f y) w"] show ?case by (auto simp: max_def split: if_splits)
qed simp

lemma colWidths_attained:
  assumes "colWidths rows n = Some ws" and "j < n" and "rows \<noteq> []"
  shows "\<exists>row \<in> set rows. length (row ! j) = ws ! j"
proof -
  from assms(1) have ws: "map (col_width rows) [0..<n] = map Some ws" by (simp add: colWidths_def all_some_iff)
  have "col_width rows j = Some (ws ! j)"
    using arg_cong [OF ws, of "\<lambda>xs. xs ! j"] assms(2) colWidths_Some(1) [OF assms(1)] by simp
  then have w: "ws ! j = fold (\<lambda>row w. max (length (row ! j)) w) rows 0"
    by (simp add: col_width_def split: if_splits)
  from fold_max_attained [of "\<lambda>row. length (row ! j)" rows 0] show ?thesis
  proof
    assume z: "fold (\<lambda>row w. max (length (row ! j)) w) rows 0 = 0"
    have "length (hd rows ! j) = 0" using fold_max_mem [of "hd rows" rows "\<lambda>row. length (row ! j)" 0] assms(3) z by simp
    then show ?thesis using assms(3) z w by (intro bexI [of _ "hd rows"]) simp_all
  qed (simp add: w)
qed

lemma formatted_Inl:
  "formatted_table c header body = Inl e \<longleftrightarrow>
     e = TypeError ''undefined'' \<and> (\<exists>row \<in> set (take 15 body). length row < length header)"
proof -
  have "colWidths (copied_rows header body) (length header) = None
      \<longleftrightarrow> (\<exists>row \<in> set (take 15 body). length row < length header)"
    by (auto simp: colWidths_None copied_rows_def)
  then show ?thesis by (auto simp: formatted_table_def Let_def split: option.split)
qed

lemma format_row_full:
  "length row = length ws \<Longrightarrow> format_row ws row =
     js_join (lit '' | '') (map (\<lambda>j. padEnd (row ! j) (ws ! j)) [0..<length ws])"
  unfolding format_row_def by (intro arg_cong [where f = "js_join (lit '' | '')"] map_cong) simp_all

section \<open>The popup closes\<close>

definition copy_ok :: "copy_popup \<Rightarrow> bool" where
  "copy_ok s \<longleftrightarrow> cp_timers s = (case cp_timeout s of None \<Rightarrow> [] | Some t \<Rightarrow> [t])
     \<and> (cp_shown s \<longleftrightarrow> cp_timeout s \<noteq> None)"

lemma clear_timeout_ok:
  "copy_ok s \<Longrightarrow> cp_timers (clear_timeout s) = []" "copy_ok s \<Longrightarrow> cp_timeout (clear_timeout s) = None"
  "cp_clipboard (clear_timeout s) = cp_clipboard s"
  by (auto simp: clear_timeout_def copy_ok_def split: option.splits)

lemma copy_event_ok:
  assumes "copy_ok s"
  shows "copy_ok (on_copy_event e s)"
proof (cases e)
  case (CopyClick c t)
  have "copy_ok (s\<lparr>cp_clipboard := x\<rparr>)" for x using assms by (simp add: copy_ok_def)
  note c = clear_timeout_ok(1,2) [OF this]
  show ?thesis
    using assms c by (auto simp: CopyClick copyTableToClipboard_def Let_def copy_ok_def split: option.split sum.split)
next
  case PopupClick
  then show ?thesis using clear_timeout_ok(1,2) [OF assms] by (simp add: hidePopup_def copy_ok_def)
next
  case (TimerFires t)
  then show ?thesis
    using assms by (auto simp: hidePopup_def copy_ok_def clear_timeout_def split: option.splits if_splits)
qed

interpretation copy_popup: kept on_copy_event copy_ok
  by unfold_locales (rule copy_event_ok)

lemma new_copy_ok: "copy_ok new_copy_popup"
  by (simp add: copy_ok_def new_copy_popup_def)

section \<open>Properties\<close>

text \<open>
  C34: When every copied row has a cell for each header, the copied text is an aligned table: the header
  and at most fifteen rows, all lines of the same length, each column as wide as its widest cell,
  and every trimmed cell at its column's offset, whatever the cells hold.
\<close>

theorem copied_table_aligned:
  assumes "header \<noteq> []" and "\<forall>row \<in> set (take 15 body). length row = length header"
  shows "\<exists>ws ls. formatted_table copyAsCode header body =
         Inr (if copyAsCode then lit ''```'' @ newline @ js_join newline ls @ newline @ lit ''```'' else js_join newline ls)
     \<and> length ls = Suc (min 15 (length body)) \<and> length ws = length header
     \<and> (\<forall>i < length ls. length (ls ! i) + 3 = offset ws (length header)
          \<and> (\<forall>j < length header. let cell = js_trim ((header # body) ! i ! j) in
               length cell \<le> ws ! j \<and> take (length cell) (drop (offset ws j) (ls ! i)) = cell))
     \<and> (\<forall>j < length header. \<exists>i < length ls. length (js_trim ((header # body) ! i ! j)) = ws ! j)"
proof -
  let ?rows = "copied_rows header body" and ?n = "length header"
  have full: "length row = ?n" if "row \<in> set ?rows" for row
    using that assms(2) by (auto simp: copied_rows_def)
  then have "colWidths ?rows ?n \<noteq> None" by (auto simp: colWidths_None)
  then obtain ws where ws: "colWidths ?rows ?n = Some ws" by blast
  note w = colWidths_Some [OF ws]
  let ?ls = "map (format_row ws) ?rows"
  have len: "length ?rows = Suc (min 15 (length body))" by (simp add: copied_rows_def)
  have cell: "?rows ! i ! j = js_trim ((header # body) ! i ! j)" if "i < length ?rows" "j < ?n" for i j
  proof (cases i)
    case (Suc k)
    with that(1) have k: "k < length (take 15 body)" by (simp add: copied_rows_def)
    then have "take 15 body ! k \<in> set (take 15 body)" by (rule nth_mem)
    with assms(2) k have "length (body ! k) = ?n" by auto
    with that(2) k show ?thesis by (simp add: Suc copied_rows_def)
  qed (use that in \<open>simp add: copied_rows_def\<close>)
  have line: "length (?ls ! i) + 3 = offset ws ?n
      \<and> (\<forall>j < ?n. length (?rows ! i ! j) \<le> ws ! j \<and> take (length (?rows ! i ! j)) (drop (offset ws j) (?ls ! i)) = ?rows ! i ! j)"
    if "i < length ?rows" for i
  proof -
    let ?r = "?rows ! i"
    have r: "?r \<in> set ?rows" using that by simp
    have l: "?ls ! i = js_join (lit '' | '') (map (\<lambda>j. padEnd (?r ! j) (ws ! j)) [0..<?n])"
      using that format_row_full [of ?r ws] full [OF r] w(1) by simp
    have le: "\<forall>j < ?n. length (?r ! j) \<le> ws ! j" using w(2) r by blast
    show ?thesis
      using joined_cells [OF le, of "lit '' | ''"] w(1) le assms(1) unfolding l by (simp add: lit_def)
  qed
  have "formatted_table copyAsCode header body =
         Inr (if copyAsCode then lit ''```'' @ newline @ js_join newline ?ls @ newline @ lit ''```'' else js_join newline ?ls)"
    using ws by (simp add: formatted_table_def)
  moreover have "\<exists>i < length ?ls. length (js_trim ((header # body) ! i ! j)) = ws ! j" if "j < ?n" for j
  proof -
    have "?rows \<noteq> []" by (simp add: copied_rows_def)
    from colWidths_attained [OF ws that this] obtain i where "i < length ?rows" "length (?rows ! i ! j) = ws ! j"
      by (auto simp: in_set_conv_nth)
    then show ?thesis using cell that by auto
  qed
  ultimately show ?thesis
    using line cell w(1) len by (intro exI [of _ ws] exI [of _ ?ls]) (simp add: Let_def)
qed

lemma copied_table_aligned_witness:
  "\<exists>ls. formatted_table False [lit ''Route'', lit ''ETA''] [[lit '' 46A'', lit ''12 mins'']] = Inr (js_join newline ls)
     \<and> length ls = Suc (min 15 (length [[lit '' 46A'', lit ''12 mins'']]))"
proof -
  let ?h = "[lit ''Route'', lit ''ETA'']" and ?b = "[[lit '' 46A'', lit ''12 mins'']]"
  have "?h \<noteq> []" "\<forall>row \<in> set (take 15 ?b). length row = length ?h" by simp_all
  from copied_table_aligned [OF this, of False] show ?thesis by (simp only: if_False) blast
qed

text \<open>
  After any copies, clicks and timers the popup is shown exactly while one timer is pending, the one in
  \<open>copyPopupHideTimeout\<close>, and when that fires the popup is hidden; a copy that throws changes nothing.
\<close>

theorem copy_popup_hides:
  assumes "s = fold on_copy_event es new_copy_popup"
  shows "(cp_shown s \<longleftrightarrow> cp_timers s \<noteq> []) \<and> length (cp_timers s) \<le> 1
     \<and> (\<forall>t \<in> set (cp_timers s). cp_timeout s = Some t
          \<and> \<not> cp_shown (on_copy_event (TimerFires t) s) \<and> cp_timers (on_copy_event (TimerFires t) s) = [])
     \<and> (\<forall>c header body. (\<exists>row \<in> set (take 15 body). length row < length header) \<longrightarrow>
          on_copy_event (CopyClick c (Some (header, body))) s = s)"
proof -
  have ok: "copy_ok s" unfolding assms by (rule copy_popup.run_inv [OF new_copy_ok])
  have "on_copy_event (CopyClick c (Some (header, body))) s = s"
    if "\<exists>row \<in> set (take 15 body). length row < length header" for c header body
    using that formatted_Inl [of c header body "TypeError ''undefined''"] by (simp add: copyTableToClipboard_def)
  with ok show ?thesis
    by (auto simp: copy_ok_def hidePopup_def clear_timeout_def split: option.splits)
qed

end
