(* ===== verification/Trip_Table.thy ===== *)
theory Trip_Table
  imports Table_Sort Table_Copy Delay_Cell
begin

text \<open>
  The table of a trip (\<open>templates/realtime/trip.html\<close>), where three scripts meet: \<open>tablesort.js\<close> sorts
  its rows, the copy buttons read them, and the cells of \<open>delays_specific.html\<close> put rows with a single
  wide cell between them, in which the chart library draws a table of its own.
\<close>



















end
