(* ===== verification/Spec2Isabelle.thy ===== *)
theory Spec2Isabelle
  imports Access_Renewal Delay_Chart Page_Popups Page_Requests Page_Widgets Style_Types Swap_Calm Table_Filter Trip_Table
begin

text \<open>
  The browser code of SimplyTransport, a site for Irish public transport.  The Python server renders
  pages and answers JSON; the scripts under \<open>src/SimplyTransport/static/static/\<close> draw the maps, fill
  their popups, wait for the deferred map library, and sort tables; small scripts inside the templates
  filter and copy tables, show historical delays, fold sections, ask for the location and renew the
  access cookie.  This development models those
  scripts.

  \<^bold>\<open>The parts and how they interact.\<close>  A page's script (\<open>js/stop-map.js\<close>, \<open>js/route-map.js\<close>,
  \<open>js/nearby-map.js\<close>, \<open>js/static-stop-map.js\<close>, \<open>js/agency-map.js\<close>) binds itself to the document
  events, hands its \<open>doInit\<close> to \<open>js/maplibre-ready.js\<close>, which calls it when MapLibre and the popup
  script are there, and then fetches its payload, creates a map, and on the map's \<open>load\<close> event adds
  sources, layers, a layer panel and click listeners.  All pages draw with the helpers of
  \<open>js/maplibre-map-shared.js\<close>; a click opens a popup whose markup \<open>js/stop-detail-popup.js\<close> builds.
  Links swap the body by HTMX, so pages follow one another in one document.  \<open>tablesort.js\<close>, the
  copy buttons and the delay cells are independent of the maps and meet in the table of a trip;
  \<open>tablesort.js\<close> and the filter meet in the schedule of a stop.

  \<^bold>\<open>The theories.\<close>
  \<^item> \<open>Js_Prelude\<close>: texts as lists of 16-bit code units (\<open>lit\<close> embeds string literals), scalars
    \<open>jsval\<close>, exceptions (\<open>outcome\<close>, blocks \<open>run_steps\<close>, loops \<open>for_each\<close>), responses, dates as a
    parameter.  \<open>Event_Machine\<close>: the contracts \<open>kept\<close> (an invariant of an event handler) and
    \<open>simulation\<close> (a handler that follows an abstract one), with their lemmas on runs.
  \<^item> \<open>Js_Uri\<close>: \<open>encodeURIComponent\<close> and its inverse.  \<open>Html_Markup\<close>: a tokenizer that gives markup its
    meaning.  \<open>Js_Float\<close>: arithmetic with a rounding function; the contract \<open>rounding\<close> is interpreted
    on exact arithmetic and on binary64, whose error is bounded by \<open>round64_error\<close>.
  \<^item> \<open>Stop_Detail_Popup\<close> (\<open>js/stop-detail-popup.js\<close>): the HTML builders, the detail request, the
    relative time label, which is compared with the server's \<open>mins_ago_updated\<close>.
  \<^item> \<open>Map_Style\<close>: the style object of MapLibre as the client uses it, and the contract \<open>layer_store\<close>
    of layer visibility.  \<open>Map_Geometry\<close>, \<open>Map_Shared\<close> (\<open>js/maplibre-map-shared.js\<close>): headings, base
    style, vehicle icons, marker image, visibility (which interprets \<open>layer_store\<close>), pulse animation.
  \<^item> \<open>Maplibre_Ready\<close> (\<open>js/maplibre-ready.js\<close>): the page as a state machine driven by browser events.
  \<^item> \<open>Map_Payload\<close>, \<open>Layer_Panel\<close>, \<open>Panel_Machine\<close>, \<open>Plain_Stops\<close>: what the pages share.  Payloads
    and GeoJSON features, layers, and the contract \<open>layer_panel\<close>: a page whose panel handlers follow an
    abstract panel of checkboxes and set the layers of the boxes that change; every such page is a
    \<open>simulation\<close> of the abstract panel and keeps the map in step with the boxes.
  \<^item> \<open>Stop_Map\<close>, \<open>Stop_Layers\<close>, \<open>Stop_Panel\<close> (\<open>js/stop-map.js\<close>), \<open>Route_Map\<close> (\<open>js/route-map.js\<close>),
    \<open>Nearby_Map\<close> (\<open>js/nearby-map.js\<close>, \<open>js/static-stop-map.js\<close>), \<open>Agency_Map\<close> (\<open>js/agency-map.js\<close>):
    each page's data, its \<open>load\<close> handler as a block of statements, and its panel.
  \<^item> \<open>Map_Popups\<close>: click dispatch, the shared popups, pending detail requests, for all four pages with
    popups.  \<open>Map_Lifecycle\<close>: init, request, error path, load event, clean-up and refresh.
    \<open>Map_Embed\<close>: the bootstrap with its flag and its polling fallback.  \<open>Map_Pages\<close> puts each page's
    init function, load event and bootstrap together.
  \<^item> \<open>Page_Popups\<close>: the popup functions of each page in its own words, from the payload to what a click
    on a drawn feature opens.  \<open>Page_Requests\<close>: the pages' own copies of request, error and clean-up
    code, shown equal to the shared operations, and the names the scripts export and import.
  \<^item> \<open>Style_Types\<close>: a type system for the layers of all pages, sources typed by the features they hold.
  \<^item> \<open>Ready_Callbacks\<close>, \<open>Page_Swaps\<close>, \<open>Swap_Invariant\<close>, \<open>Swap_Properties\<close>, \<open>Swap_Calm\<close>: all page scripts
    composed with \<open>js/maplibre-ready.js\<close> in one document whose body HTMX swaps; the state \<open>site\<close> keeps
    every container that was ever there, with its map, request and listeners.
  \<^item> \<open>Table_Sort\<close> (\<open>tablesort.js\<close>): reading numbers from cells, the comparator, the sort, the header
    marks; the contracts \<open>array_sort\<close> and \<open>gradual\<close> state what it needs of \<open>sort\<close> and of rounding.  For
    the text comparator, which is inconsistent, \<open>engine_sort\<close> says which of two rows the engine passes first.
  \<^item> \<open>Table_Copy\<close> (\<open>templates/widgets/copy_to_clipboard.html\<close>): the copied text, the popup and its timer.
    \<open>Delay_Cell\<close> (\<open>templates/widgets/delays_specific.html\<close>): a cell that fetches delays, its button and
    its detail row.  \<open>Trip_Table\<close> (\<open>templates/realtime/trip.html\<close>): both with \<open>tablesort.js\<close> on one table, with
    the rows that a chart drawn inside the details brings along.
  \<^item> \<open>Delay_Chart\<close>: the rest of the delay cell, its texts (\<open>toFixed\<close>) and \<open>loadDelayChart\<close> with its timers,
    requests and containers.  \<open>Table_Filter\<close> (\<open>templates/widgets/filter_table.html\<close>): the search boxes, with
    header clicks and HTMX fragments.  \<open>Page_Widgets\<close>: folding sections, the location button, the menu.
  \<^item> \<open>Js_Digits\<close>: numerals read back.  \<open>Access_Renewal\<close>: the inline script of \<open>templates/base.html\<close> and the cookie times of \<open>lib/auth.py\<close>;
    the page and its server in time are the inductive relation \<open>session_step\<close>, with late timers, answers
    that overtake each other, and the runs of the script that HTMX adds when it swaps the body.

  \<^bold>\<open>What the lemmas show.\<close>
  \<^item> Markup: each builder's HTML tokenizes to exactly the intended tags, attributes and texts, so data
    from the JSON never becomes markup, but for the direction in the detail popup's links, which is not
    escaped; links that cannot be encoded throw.
  \<^item> Drawing: the load handlers return (or throw exactly at a repeated route), leave the layers in paint
    order on sources with the payload's data, and draw each stop once and each vehicle by its own
    route's layers; icons have their route's colour; a heading is that of the nearest segment; the
    search circle is a circle; the nearby map is complete whatever happens to its marker image; every
    layer is well typed for its source, before and after panel events, and text stands on styles with glyphs.
  \<^item> Panels: the stop, route and agency panels follow the abstract panel, and the map shows the layers
    of a box exactly when it is checked, after any sequence of events.
  \<^item> Popups: at most one is open and no listener leaks; a click toggles; late details go to the popup
    that is shown, whichever stop it is for.  On every page a click on a drawn stop or vehicle opens
    its own data where it is drawn.
  \<^item> Life: at most one live map and one awaited request; a refresh replaces the map; the first failure
    cannot be retried; callbacks and initialisation run at most once, with the scripts present, and
    polling ends.
  \<^item> Navigation: a swapped-in page is started, once, with its own data; when navigation waits for what is
    awaited the pages keep apart; an answer that comes too late draws into the next page.
  \<^item> Tables: a column is sorted by value, stably for numbers; in one direction, which depends on the engine,
    rows of equal text are reversed; rows are permuted; headers mark the sorted
    column; copied text is aligned; delay buttons tell the truth in calm use, and open details break
    sorting and copying.
  \<^item> Filters: the rows shown are those that match the box in calm use, sorted or not; another day's schedule
    comes unfiltered.  Details: minutes are right to half a tenth and the average line lies between its
    delays, up to the roundings of binary64; chart points are ordered, a container gets one chart in calm use and two when answers overtake each other.
  \<^item> Access: the renewal time is read back exactly, and the token of an open page never runs out while
    no more than the given number of requests fail in a row and timers are not late by more than a bound.

  \<^bold>\<open>Conventions and bounds.\<close>  Definitions keep the source's names where they can; a JavaScript object
  used as a dictionary is a map keyed by the text of the id, so ids that are names of
  \<open>Object.prototype\<close> members are outside the model.  An exception ends a block and keeps the state it
  reached.  Coordinates and times are reals or integers, floating point is \<open>fl\<close> of the exact result
  with the trigonometric functions as parameters.  The polling bounds are the code's own (300 frames
  for MapLibre, 120 for the popup script and for the bootstrap's fallback); no other fuel is used, all
  functions are total.  \<open>route_keys_ok\<close> asks that route ids are distinct as texts and do not collide in
  the id scheme of the vehicle layers.  \<open>clocks_fit\<close> bounds the difference of the clocks, the latency of
  a request and the failures in a row, so that delays fit a browser's 32-bit timer and a renewal comes
  before the token ends, although timers may be late by another bound (a tab that sleeps longer is outside the model); times are at most \<open>2 ^ 52\<close> milliseconds, so that binary64 is exact on them.

  \<^bold>\<open>Parameters.\<close>  What the browser and the vendored MapLibre bundle do is read from their documented
  behaviour and stated in \<open>Map_Style\<close> and \<open>Map_Popups\<close>: a taken source id throws, a taken layer id or a
  missing layer fires an error event, a click runs the listeners registered when it was fired, \<open>addTo\<close>
  on an open popup removes it first.  The chart library (\<open>Delay_Chart\<close>) adds a chart to the element it is
  given, as rows of three cells, and throws without one; HTMX (\<open>Page_Swaps\<close>, \<open>Table_Filter\<close>) replaces elements and then sends its
  event.  \<open>toLowerCase\<close> is a function of which only the empty text is known.  \<open>Date\<close>, \<open>fetch\<close>, image decoding and the canvas answer through
  the records \<open>date_env\<close>, \<open>raster_env\<close>, \<open>canvas_env\<close> and the events.

  \<^bold>\<open>Not modelled.\<close>  The static decoration of the panels' rows (class names, swatches, ARIA
  attributes), the cursor shape itself (only who sets it when), the position of the copy popup, the
  fade transitions of the delay details and what the chart library draws, the Python server except
  \<open>mins_ago_updated\<close> and the cookie times, the markup of the templates, which passes data attributes, and the vendored bundles.  What is left of the
  scripts' lines are comments, exports and decoration.
\<close>

end
